(* ===== verification/Prelude.thy ===== *)
theory Prelude
  imports
    Main
    "HOL-Library.Word"
    "HOL-Library.State_Monad"
    "HOL-Library.Char_ord"
    "HOL-Library.List_Lexorder"
    "HOL-Library.Product_Lexorder"
begin

text \<open>
  Shared material of the development: the shape of effectful Go code (a computation that changes
  a world and returns either an error or a value), a small Hoare logic for such computations, and
  the parts of Go's \<open>strings\<close> and \<open>strconv\<close> packages that several components use.

  Go strings are byte sequences, and a HOL \<^typ>\<open>string\<close> is a list of 8-bit characters, so Go's
  bytewise comparison is the lexicographic order of \<open>HOL-Library.List_Lexorder\<close> over
  \<open>HOL-Library.Char_ord\<close>.
\<close>

named_theorems triple_rules \<open>introduction rules of the Hoare triples\<close>
named_theorems go_simps \<open>evaluation of the Go library functions\<close>

section \<open>Computations over a world\<close>

text \<open>
  A call to the Kubernetes API, to netlink or to the file system reads and changes state that is
  not the program's. A computation is a state transformer over that state, of any type
  \<open>'w\<close>. Go's pair of a value and an error is a sum: \<open>Inl\<close> the error, \<open>Inr\<close> the value.
\<close>

type_synonym ('w, 'e, 'a) io = "('w, 'e + 'a) state"

abbreviation ret :: "'a \<Rightarrow> ('w, 'a) state" where
  "ret \<equiv> State_Monad.return"

text \<open>The Go idiom \<^verbatim>\<open>if err != nil { return err }\<close>.\<close>

definition bindE :: "('w, 'e, 'a) io \<Rightarrow> ('a \<Rightarrow> ('w, 'e, 'b) io) \<Rightarrow> ('w, 'e, 'b) io" where
  "bindE m f = do { r \<leftarrow> m; case r of Inl e \<Rightarrow> ret (Inl e) | Inr x \<Rightarrow> f x }"

text \<open>The idiom with a wrapped error, \<^verbatim>\<open>return fmt.Errorf("...: %w", err)\<close>.\<close>

definition mapErr :: "('e \<Rightarrow> 'f) \<Rightarrow> ('w, 'e, 'a) io \<Rightarrow> ('w, 'f, 'a) io" where
  "mapErr g m = do { r \<leftarrow> m; ret (case r of Inl e \<Rightarrow> Inl (g e) | Inr x \<Rightarrow> Inr x) }"

lemma run_state_bindE [simp]:
  "run_state (bindE m f) w =
     (case run_state m w of (Inl e, w') \<Rightarrow> (Inl e, w') | (Inr x, w') \<Rightarrow> run_state (f x) w')"
  by (auto simp: bindE_def split: prod.splits sum.splits)

lemma bindE_assoc: "bindE (bindE m f) g = bindE m (\<lambda>x. bindE (f x) g)"
  by (rule state.expand, rule ext) (simp split: prod.split sum.split)

lemma run_state_mapErr [simp]:
  "run_state (mapErr g m) w =
     (case run_state m w of (Inl e, w') \<Rightarrow> (Inl (g e), w') | (Inr x, w') \<Rightarrow> (Inr x, w'))"
  by (auto simp: mapErr_def split: prod.splits sum.splits)

subsection \<open>Hoare triples\<close>

definition triple :: "('w \<Rightarrow> bool) \<Rightarrow> ('w, 'a) state \<Rightarrow> ('a \<Rightarrow> 'w \<Rightarrow> bool) \<Rightarrow> bool" where
  "triple P m Q \<longleftrightarrow> (\<forall>w. P w \<longrightarrow> (case run_state m w of (r, w') \<Rightarrow> Q r w'))"

lemma triple_run: "triple P m Q \<Longrightarrow> P w \<Longrightarrow> run_state m w = (r, w') \<Longrightarrow> Q r w'"
  by (auto simp: triple_def split: prod.splits)

lemma tripleI: "(\<And>w r w'. P w \<Longrightarrow> run_state m w = (r, w') \<Longrightarrow> Q r w') \<Longrightarrow> triple P m Q"
  by (auto simp: triple_def split: prod.splits)

lemma triple_pre: "triple P' m Q \<Longrightarrow> (\<And>w. P w \<Longrightarrow> P' w) \<Longrightarrow> triple P m Q"
  by (auto simp: triple_def)

lemma triple_post: "triple P m Q' \<Longrightarrow> (\<And>r w. Q' r w \<Longrightarrow> Q r w) \<Longrightarrow> triple P m Q"
  by (fastforce simp: triple_def split: prod.splits)

lemma triple_ret [triple_rules]: "(\<And>w. P w \<Longrightarrow> Q x w) \<Longrightarrow> triple P (ret x) Q"
  by (auto simp: triple_def)

lemma triple_bind:
  "triple P m R \<Longrightarrow> (\<And>x. triple (R x) (f x) Q) \<Longrightarrow> triple P (State_Monad.bind m f) Q"
  by (fastforce simp: triple_def split: prod.splits)

lemma triple_bindE:
  assumes "triple P m R" and "\<And>e w. R (Inl e) w \<Longrightarrow> Q (Inl e) w"
    and "\<And>x. triple (R (Inr x)) (f x) Q"
  shows "triple P (bindE m f) Q"
  using assms by (fastforce simp: triple_def split: prod.splits sum.splits)

lemma triple_mapErr:
  assumes "triple P m R" and "\<And>e w. R (Inl e) w \<Longrightarrow> Q (Inl (g e)) w"
    and "\<And>x w. R (Inr x) w \<Longrightarrow> Q (Inr x) w"
  shows "triple P (mapErr g m) Q"
  using assms by (fastforce simp: triple_def split: prod.splits sum.splits)

text \<open>The two shapes of postcondition that a wrapped error leaves alone.\<close>

lemma triple_mapErr_ok:
  "triple P m (\<lambda>x w. \<not> isl x \<longrightarrow> Q w) \<Longrightarrow> triple P (mapErr g m) (\<lambda>x w. \<not> isl x \<longrightarrow> Q w)"
  by (erule triple_mapErr) simp_all

lemma triple_mapErr_result:
  "triple P m (\<lambda>x w. (\<forall>y. x = Inr y \<longrightarrow> A y) \<and> Q w) \<Longrightarrow> triple P (mapErr g m) (\<lambda>x w. (\<forall>y. x = Inr y \<longrightarrow> A y) \<and> Q w)"
  by (erule triple_mapErr) simp_all

lemma triple_bindE_ok:
  assumes "triple P m (\<lambda>x w. \<not> isl x \<longrightarrow> R w)" and "\<And>x. triple R (f x) (\<lambda>x w. \<not> isl x \<longrightarrow> Q w)"
  shows "triple P (bindE m f) (\<lambda>x w. \<not> isl x \<longrightarrow> Q w)"
  by (rule triple_bindE [OF assms(1)]) (simp_all add: assms(2))

lemma triple_if [triple_rules]:
  "(b \<Longrightarrow> triple P m Q) \<Longrightarrow> (\<not> b \<Longrightarrow> triple P n Q) \<Longrightarrow> triple P (if b then m else n) Q"
  by simp

lemma triple_conj_pre: "(P \<Longrightarrow> triple I m Q) \<Longrightarrow> triple (\<lambda>w. P \<and> I w) m Q"
  by (auto simp: triple_def)

lemma triple_True: "triple P m (\<lambda>_ _. True)"
  by (simp add: triple_def split: prod.splits)

lemma triple_ex: "(\<And>x. triple (P x) m Q) \<Longrightarrow> triple (\<lambda>w. \<exists>x. P x w) m Q"
  by (auto intro: tripleI dest: triple_run)

text \<open>Any view of the world can be given a name before a computation.\<close>

lemma triple_view: "(\<And>v. triple (\<lambda>w. f w = v \<and> P w) m Q) \<Longrightarrow> triple P m Q"
  by (auto simp: triple_def)

lemma triple_known:
  assumes "\<And>v. P v \<Longrightarrow> triple (\<lambda>w. f w = v \<and> I w) m Q"
  shows "triple (\<lambda>w. P (f w) \<and> I w) m Q"
proof (rule tripleI)
  fix w r w'
  assume "P (f w) \<and> I w" and run: "run_state m w = (r, w')"
  then show "Q r w'" using triple_run [OF assms [of "f w"] _ run] by simp
qed

text \<open>
  A computation maintains a predicate of the world. With a predicate that the allowed writes
  maintain, this says that the computation makes no other writes.
\<close>

definition maintains :: "('w \<Rightarrow> bool) \<Rightarrow> ('w, 'a) state \<Rightarrow> bool" where
  "maintains I m \<longleftrightarrow> triple I m (\<lambda>_. I)"

lemma maintainsI: "(\<And>w. I w \<Longrightarrow> I (snd (run_state m w))) \<Longrightarrow> maintains I m"
  by (simp add: maintains_def triple_def case_prod_beta)

lemma maintains_run: "maintains I m \<Longrightarrow> I w \<Longrightarrow> run_state m w = (r, w') \<Longrightarrow> I w'"
  by (auto simp: maintains_def triple_def)

lemma maintains_ret [triple_rules]: "maintains I (ret x)"
  by (simp add: maintains_def triple_ret)

lemma maintains_bind [triple_rules]:
  "maintains I m \<Longrightarrow> (\<And>x. maintains I (f x)) \<Longrightarrow> maintains I (State_Monad.bind m f)"
  unfolding maintains_def by (rule triple_bind)

lemma maintains_bindE [triple_rules]:
  "maintains I m \<Longrightarrow> (\<And>x. maintains I (f x)) \<Longrightarrow> maintains I (bindE m f)"
  unfolding maintains_def by (rule triple_bindE)

lemma maintains_mapErr [triple_rules]: "maintains I m \<Longrightarrow> maintains I (mapErr g m)"
  unfolding maintains_def by (rule triple_mapErr)

lemma maintains_if [triple_rules]:
  "(b \<Longrightarrow> maintains I m) \<Longrightarrow> (\<not> b \<Longrightarrow> maintains I n) \<Longrightarrow> maintains I (if b then m else n)"
  by simp

lemma maintains_option [triple_rules]:
  "(x = None \<Longrightarrow> maintains I m) \<Longrightarrow> (\<And>y. x = Some y \<Longrightarrow> maintains I (f y)) \<Longrightarrow>
   maintains I (case x of None \<Rightarrow> m | Some y \<Rightarrow> f y)"
  by (cases x) simp_all

lemma maintains_sum [triple_rules]:
  "(\<And>e. x = Inl e \<Longrightarrow> maintains I (g e)) \<Longrightarrow> (\<And>y. x = Inr y \<Longrightarrow> maintains I (f y)) \<Longrightarrow>
   maintains I (case x of Inl e \<Rightarrow> g e | Inr y \<Rightarrow> f y)"
  by (cases x) simp_all

lemma maintains_prod [triple_rules]:
  "(\<And>a b. x = (a, b) \<Longrightarrow> maintains I (f a b)) \<Longrightarrow> maintains I (case x of (a, b) \<Rightarrow> f a b)"
  by (cases x) simp_all

text \<open>The continuation may rely on what every result of the first computation satisfies.\<close>

lemma maintains_bind_result:
  assumes "maintains I m" and "\<And>w x w'. run_state m w = (x, w') \<Longrightarrow> P x"
    and "\<And>x. P x \<Longrightarrow> maintains I (f x)"
  shows "maintains I (State_Monad.bind m f)"
  using assms by (auto simp: maintains_def triple_def split: prod.splits) (metis case_prodD)

lemma maintains_bindE_result:
  assumes "maintains I m" and "\<And>w x w'. run_state m w = (Inr x, w') \<Longrightarrow> P x"
    and "\<And>x. P x \<Longrightarrow> maintains I (f x)"
  shows "maintains I (bindE m f)"
  unfolding bindE_def
  by (rule maintains_bind_result [OF assms(1), where P = "\<lambda>r. \<forall>x. r = Inr x \<longrightarrow> P x"])
    (auto intro: assms triple_rules split: sum.split)

text \<open>The two elementary computations: reading the world and changing it.\<close>

definition readSim :: "('w \<Rightarrow> 'a) \<Rightarrow> ('w, 'a) state" where
  "readSim f = State (\<lambda>w. (f w, w))"

definition writeSim :: "('w \<Rightarrow> 'w) \<Rightarrow> 'a \<Rightarrow> ('w, 'a) state" where
  "writeSim f x = State (\<lambda>w. (x, f w))"

lemma run_sim [simp]:
  "run_state (readSim f) w = (f w, w)" "run_state (writeSim g x) w = (x, g w)"
  by (simp_all add: readSim_def writeSim_def)

lemma maintains_readSim [triple_rules]: "maintains I (readSim f)"
  by (rule maintainsI) simp

lemma maintains_writeSim: "(\<And>w. I w \<Longrightarrow> I (g w)) \<Longrightarrow> maintains I (writeSim g x)"
  by (rule maintainsI) simp

section \<open>Lists\<close>

text \<open>\<^verbatim>\<open>slices.IndexFunc\<close>: the first index whose element satisfies the predicate, or \<open>None\<close>.\<close>

fun IndexFunc :: "('a \<Rightarrow> bool) \<Rightarrow> 'a list \<Rightarrow> nat option" where
  "IndexFunc P [] = None"
| "IndexFunc P (x # xs) = (if P x then Some 0 else map_option Suc (IndexFunc P xs))"

lemma IndexFunc_Some:
  "IndexFunc P xs = Some i \<Longrightarrow> i < length xs \<and> P (xs ! i) \<and> (\<forall>j < i. \<not> P (xs ! j))"
proof (induction xs arbitrary: i)
  case (Cons x xs)
  then show ?case
    by (auto split: if_splits simp: less_Suc_eq_0_disj)
qed simp

lemma IndexFunc_None: "IndexFunc P xs = None \<longleftrightarrow> (\<forall>x \<in> set xs. \<not> P x)"
  by (induction xs) auto

lemma distinct_map_filter: "distinct (map f xs) \<Longrightarrow> distinct (map f (filter P xs))"
  by (induction xs) auto

section \<open>Strings\<close>

definition isDigit :: "char \<Rightarrow> bool" where
  "isDigit c \<longleftrightarrow> 48 \<le> (of_char c :: nat) \<and> (of_char c :: nat) \<le> 57"

definition digitVal :: "char \<Rightarrow> nat" where
  "digitVal c = of_char c - 48"

definition digit :: "nat \<Rightarrow> char" where
  "digit n = char_of (48 + n)"

text \<open>\<^verbatim>\<open>strconv.Itoa\<close> on the non-negative integers.\<close>

fun Itoa :: "nat \<Rightarrow> string" where
  "Itoa n = (if n < 10 then [digit n] else Itoa (n div 10) @ [digit (n mod 10)])"

declare Itoa.simps [simp del]

text \<open>
  The verb \<^verbatim>\<open>%d\<close> of \<^verbatim>\<open>fmt.Sprintf\<close>, and \<^verbatim>\<open>strconv.Itoa\<close> where the argument is an \<open>int\<close>.
\<close>

function fmtDigits :: "int \<Rightarrow> string" where
  "fmtDigits i = (if i < 10 then [digit (nat i)] else fmtDigits (i div 10) @ [digit (nat (i mod 10))])"
  by pat_completeness auto
termination by (relation "measure nat") auto

declare fmtDigits.simps [simp del]

definition fmtInt :: "int \<Rightarrow> string" where
  "fmtInt i = (if i < 0 then ''-'' @ fmtDigits (- i) else fmtDigits i)"

lemma fmtDigits_nat: "fmtDigits (int n) = Itoa n"
proof (induction n rule: Itoa.induct)
  case (1 n)
  show ?case
  proof (cases "n < 10")
    case False
    then show ?thesis
      using 1 [unfolded zdiv_int] by (simp add: fmtDigits.simps [of "int n"] Itoa.simps [of n] nat_mod_distrib)
  qed (simp add: fmtDigits.simps [of "int n"] Itoa.simps [of n])
qed

lemma fmtInt_nat: "fmtInt (int n) = Itoa n"
  by (simp add: fmtInt_def fmtDigits_nat)

lemma isDigit_digit [simp]: "n < 10 \<Longrightarrow> isDigit (digit n)"
  by (simp add: isDigit_def digit_def)

lemma digitVal_digit [simp]: "n < 10 \<Longrightarrow> digitVal (digit n) = n"
  by (simp add: digitVal_def digit_def)

lemma digitVal_less: "isDigit c \<Longrightarrow> digitVal c < 10"
  by (auto simp: isDigit_def digitVal_def)

lemma digit_digitVal [simp]: "isDigit c \<Longrightarrow> digit (digitVal c) = c"
  by (auto simp: isDigit_def digitVal_def digit_def)

lemma isDigit_not_dot [simp]: "\<not> isDigit (CHR ''.'')"
  by (simp add: isDigit_def)

lemma isDigit_not_slash [simp]: "\<not> isDigit (CHR ''/'')"
  by (simp add: isDigit_def)

lemma isDigit_not_colon [simp]: "\<not> isDigit (CHR '':'')"
  by (simp add: isDigit_def)

lemma isDigit_not_percent [simp]: "\<not> isDigit (CHR ''%'')"
  by (simp add: isDigit_def)

lemma Itoa_small: "n < 10 \<Longrightarrow> Itoa n = [digit n]"
  by (simp add: Itoa.simps)

lemma Itoa_step: "0 < n \<Longrightarrow> d < 10 \<Longrightarrow> Itoa (n * 10 + d) = Itoa n @ [digit d]"
  by (subst Itoa.simps) simp

lemma Itoa_digits: "\<forall>c \<in> set (Itoa n). isDigit c"
proof (induction n rule: Itoa.induct)
  case (1 n)
  then show ?case
    by (cases "n < 10") (auto simp: Itoa.simps [of n])
qed

lemma Itoa_nonempty [simp]: "Itoa n \<noteq> []"
  by (simp add: Itoa.simps)

text \<open>\<^verbatim>\<open>strings.Cut(s, sep)\<close> for a one-byte separator: the parts around its first occurrence.\<close>

fun Cut :: "char \<Rightarrow> string \<Rightarrow> (string \<times> string) option" where
  "Cut sep [] = None"
| "Cut sep (c # cs) =
     (if c = sep then Some ([], cs)
      else map_option (\<lambda>(a, b). (c # a, b)) (Cut sep cs))"

lemma Cut_None: "Cut sep s = None \<longleftrightarrow> sep \<notin> set s"
  by (induction s) auto

lemma Cut_Some: "Cut sep s = Some (a, b) \<longleftrightarrow> s = a @ sep # b \<and> sep \<notin> set a"
proof (induction s arbitrary: a)
  case (Cons c cs)
  then show ?case
    by (cases a) auto
qed simp

text \<open>The same around the last occurrence: what \<^verbatim>\<open>LastIndexByte\<close> and two slices give.\<close>

definition CutLast :: "char \<Rightarrow> string \<Rightarrow> (string \<times> string) option" where
  "CutLast sep s = map_option (\<lambda>(b, a). (rev a, rev b)) (Cut sep (rev s))"

lemma CutLast_Some: "CutLast sep s = Some (a, b) \<longleftrightarrow> s = a @ sep # b \<and> sep \<notin> set b"
proof -
  have "CutLast sep s = Some (a, b) \<longleftrightarrow> Cut sep (rev s) = Some (rev b, rev a)"
    by (auto simp: CutLast_def)
  also have "\<dots> \<longleftrightarrow> rev s = rev b @ sep # rev a \<and> sep \<notin> set b"
    by (simp add: Cut_Some)
  also have "rev s = rev b @ sep # rev a \<longleftrightarrow> s = a @ sep # b"
    by (metis append.assoc append_Cons append_Nil rev.simps(2) rev_append rev_rev_ident)
  finally show ?thesis .
qed

lemma CutLast_None: "CutLast sep s = None \<longleftrightarrow> sep \<notin> set s"
  by (simp add: CutLast_def Cut_None)

text \<open>\<^verbatim>\<open>strings.Join\<close>.\<close>

fun Join :: "string \<Rightarrow> string list \<Rightarrow> string" where
  "Join sep [] = []"
| "Join sep [s] = s"
| "Join sep (s # t # ss) = s @ sep @ Join sep (t # ss)"

text \<open>
  The verb \<^verbatim>\<open>%q\<close> on the strings the program prints with it, whose characters are printable: quoted, a
  quote or a backslash in it escaped.
\<close>

definition fmtQ :: "string \<Rightarrow> string" where
  "fmtQ s = [CHR 0x22] @ concat (map (\<lambda>c. if c \<in> {CHR 0x22, CHR 0x5C} then [CHR 0x5C, c] else [c]) s) @ [CHR 0x22]"

text \<open>\<^verbatim>\<open>bytes.TrimSpace\<close> on ASCII text.\<close>

definition isSpace :: "char \<Rightarrow> bool" where
  "isSpace c \<longleftrightarrow> c \<in> {CHR '' '', CHR 0x09, CHR 0x0A, CHR 0x0B, CHR 0x0C, CHR 0x0D}"

definition TrimSpace :: "string \<Rightarrow> string" where
  "TrimSpace s = rev (dropWhile isSpace (rev (dropWhile isSpace s)))"

text \<open>\<^verbatim>\<open>cmp.Or\<close> on strings: the first one that is not empty.\<close>

definition OrString :: "string \<Rightarrow> string \<Rightarrow> string" where
  "OrString a b = (if a \<noteq> [] then a else b)"

end
