(* ===== verification/Netip.thy ===== *)
theory Netip
  imports Prelude
begin

text \<open>
  The parts of Go's standard packages \<open>net/netip\<close> and \<open>net\<close> that the operator, the agent and the
  sidecar use: addresses, prefixes and endpoints with their parsers and printers, for IPv4 and
  IPv6. Parse errors keep their kind and not their text.

  The lemmas the components rest on: an IPv4 address has exactly one spelling, so comparing
  \<open>status.address\<close> strings is comparing addresses; printing and parsing are inverse; and the
  bitwise operations on prefixes have an arithmetic reading.
\<close>

unbundle bit_operations_syntax

section \<open>Addresses\<close>

text \<open>
  \<^verbatim>\<open>netip.Addr\<close> is a 128-bit value and a tag: \<open>z0\<close> (the zero or an invalid address), \<open>z4\<close>, or an
  IPv6 tag that carries the zone.
\<close>

datatype Addr = AddrZ "128 word" | Addr4 "32 word" | Addr6 "128 word" string

datatype parseErr =
    UnableToParse | MissingIPv6 | EmptyZone
  | LeadingZero | FieldOver255 | EmptyField4 | TooLong4 | TooShort4 | UnexpectedChar4
  | GroupTooLong | EmptyField6 | EmbeddedPlace | EmbeddedRoom | WantColon | TrailingColon
  | MultipleEllipsis | TrailingGarbage | TooShort6 | EllipsisEmpty
  | NoSlash | ZoneInPrefix | BadBits | BitsRange
  | NotIPPort | NoIP | NoPort | MissingBracket | InvalidPort | BracketsOn4 | NoBracketsOn6

definition zeroAddr :: Addr where
  "zeroAddr = AddrZ 0"

fun Is4 :: "Addr \<Rightarrow> bool" where
  "Is4 (Addr4 _) = True"
| "Is4 _ = False"

fun Is6 :: "Addr \<Rightarrow> bool" where
  "Is6 (Addr6 _ _) = True"
| "Is6 _ = False"

fun IsValid :: "Addr \<Rightarrow> bool" where
  "IsValid (AddrZ _) = False"
| "IsValid _ = True"

fun BitLen :: "Addr \<Rightarrow> nat" where
  "BitLen (AddrZ _) = 0"
| "BitLen (Addr4 _) = 32"
| "BitLen (Addr6 _ _) = 128"

fun Zone :: "Addr \<Rightarrow> string" where
  "Zone (Addr6 _ z) = z"
| "Zone _ = []"

fun withoutZone :: "Addr \<Rightarrow> Addr" where
  "withoutZone (Addr6 w _) = Addr6 w []"
| "withoutZone a = a"

text \<open>\<^verbatim>\<open>Addr.Next\<close>: the zero Addr when the increment overflows.\<close>

fun Next :: "Addr \<Rightarrow> Addr" where
  "Next (AddrZ w) = (if w + 1 = 0 then zeroAddr else AddrZ (w + 1))"
| "Next (Addr4 w) = (if w + 1 = 0 then zeroAddr else Addr4 (w + 1))"
| "Next (Addr6 w z) = (if w + 1 = 0 then zeroAddr else Addr6 (w + 1) z)"

text \<open>\<^verbatim>\<open>Addr.Unmap\<close>: an IPv4-mapped IPv6 address becomes IPv4.\<close>

definition Is4In6 :: "128 word \<Rightarrow> bool" where
  "Is4In6 w \<longleftrightarrow> drop_bit 32 w = 0xffff"

fun Unmap :: "Addr \<Rightarrow> Addr" where
  "Unmap (Addr6 w z) = (if Is4In6 w then Addr4 (ucast w) else Addr6 w z)"
| "Unmap a = a"

section \<open>Printing\<close>

definition octets :: "32 word \<Rightarrow> nat list" where
  "octets w = map (\<lambda>i. unat (drop_bit i w AND 0xff)) [24, 16, 8, 0]"

definition string4 :: "32 word \<Rightarrow> string" where
  "string4 w = Join ''.'' (map Itoa (octets w))"

definition groups :: "128 word \<Rightarrow> nat list" where
  "groups w = map (\<lambda>i. unat (drop_bit (16 * (7 - i)) w AND 0xffff)) [0..<8]"

definition hexDigit :: "nat \<Rightarrow> char" where
  "hexDigit n = (if n < 10 then digit n else char_of (87 + n))"

fun hexString :: "nat \<Rightarrow> string" where
  "hexString n = (if n < 16 then [hexDigit n] else hexString (n div 16) @ [hexDigit (n mod 16)])"

declare hexString.simps [simp del]

text \<open>The first longest run of at least two zero groups, as the loop of \<^verbatim>\<open>appendTo6\<close> finds it.\<close>

definition zeroRun :: "nat list \<Rightarrow> nat \<times> nat" where
  "zeroRun gs = foldl (\<lambda>(zs, ze) i.
     let j = i + length (takeWhile (\<lambda>g. g = 0) (drop i gs))
     in if 2 \<le> j - i \<and> ze - zs < j - i then (i, j) else (zs, ze)) (255, 255) [0..<8]"

definition string6 :: "128 word \<Rightarrow> string \<Rightarrow> string" where
  "string6 w z = (let gs = groups w; (zs, ze) = zeroRun gs;
       hex = (\<lambda>gs. Join '':'' (map hexString gs))
     in (if zs = 255 then hex gs else hex (take zs gs) @ ''::'' @ hex (drop ze gs))
        @ (if z = [] then [] else CHR ''%'' # z))"

fun AddrString :: "Addr \<Rightarrow> string" where
  "AddrString (AddrZ _) = ''invalid IP''"
| "AddrString (Addr4 w) = string4 w"
| "AddrString (Addr6 w z) =
     (if Is4In6 w then ''::ffff:'' @ string4 (ucast w) @ (if z = [] then [] else CHR ''%'' # z)
      else string6 w z)"

section \<open>Parsing addresses\<close>

text \<open>
  \<^verbatim>\<open>parseIPv4Fields\<close>: the value and the digit count of the current octet, the octets so far and
  the previous character are the loop's state.
\<close>

fun parseIPv4Fields :: "nat \<Rightarrow> nat \<Rightarrow> nat list \<Rightarrow> char option \<Rightarrow> string \<Rightarrow> parseErr + nat list" where
  "parseIPv4Fields v digLen fields prev [] =
     (if length fields < 3 then Inl TooShort4 else Inr (fields @ [v]))"
| "parseIPv4Fields v digLen fields prev (c # cs) =
     (if isDigit c then
        if digLen = 1 \<and> v = 0 then Inl LeadingZero
        else if v * 10 + digitVal c > 255 then Inl FieldOver255
        else parseIPv4Fields (v * 10 + digitVal c) (Suc digLen) fields (Some c) cs
      else if c = CHR ''.'' then
        if prev = None \<or> cs = [] \<or> prev = Some (CHR ''.'') then Inl EmptyField4
        else if length fields = 3 then Inl TooLong4
        else parseIPv4Fields 0 0 (fields @ [v]) (Some c) cs
      else Inl UnexpectedChar4)"

definition fromOctets :: "nat list \<Rightarrow> 32 word" where
  "fromOctets fs = foldl (\<lambda>w f. w * 256 + of_nat f) 0 fs"

definition parseIPv4 :: "string \<Rightarrow> parseErr + Addr" where
  "parseIPv4 s = (case parseIPv4Fields 0 0 [] None s of
     Inl e \<Rightarrow> Inl e | Inr fs \<Rightarrow> Inr (Addr4 (fromOctets fs)))"

definition isHex :: "char \<Rightarrow> bool" where
  "isHex c \<longleftrightarrow> isDigit c \<or> (97 \<le> (of_char c :: nat) \<and> (of_char c :: nat) \<le> 102)
     \<or> (65 \<le> (of_char c :: nat) \<and> (of_char c :: nat) \<le> 70)"

definition hexVal :: "char \<Rightarrow> nat" where
  "hexVal c = (if isDigit c then digitVal c
     else if 97 \<le> (of_char c :: nat) then of_char c - 87 else of_char c - 55)"

text \<open>What follows the loop of \<^verbatim>\<open>parseIPv6\<close>: the whole string is used and the ellipsis expanded.\<close>

definition finish6 :: "nat list \<Rightarrow> nat option \<Rightarrow> string \<Rightarrow> parseErr + nat list" where
  "finish6 gs ellipsis s =
     (if s \<noteq> [] then Inl TrailingGarbage
      else if length gs < 8 then
        (case ellipsis of None \<Rightarrow> Inl TooShort6
         | Some e \<Rightarrow> Inr (take e gs @ replicate (8 - length gs) 0 @ drop e gs))
      else if ellipsis \<noteq> None then Inl EllipsisEmpty
      else Inr gs)"

text \<open>
  The loop, over 16-bit groups instead of byte pairs. A run of hex digits longer than four is the
  error the source raises at its fifth digit.
\<close>

function parseGroups :: "nat list \<Rightarrow> nat option \<Rightarrow> string \<Rightarrow> parseErr + nat list" where
  "parseGroups gs ellipsis s =
     (if 8 \<le> length gs then finish6 gs ellipsis s
      else let h = takeWhile isHex s; r = dropWhile isHex s in
        if 4 < length h then Inl GroupTooLong
        else if h = [] then Inl EmptyField6
        else if r \<noteq> [] \<and> hd r = CHR ''.'' then
          if ellipsis = None \<and> length gs \<noteq> 6 then Inl EmbeddedPlace
          else if 8 < length gs + 2 then Inl EmbeddedRoom
          else (case parseIPv4Fields 0 0 [] None s of
              Inl e \<Rightarrow> Inl e
            | Inr fs \<Rightarrow> finish6 (gs @ [unat (fromOctets (take 2 fs)), unat (fromOctets (drop 2 fs))]) ellipsis [])
        else
          let gs' = gs @ [foldl (\<lambda>n c. n * 16 + hexVal c) 0 h] in
          if r = [] then finish6 gs' ellipsis []
          else if hd r \<noteq> CHR '':'' then Inl WantColon
          else if tl r = [] then Inl TrailingColon
          else if hd (tl r) = CHR '':'' then
            if ellipsis \<noteq> None then Inl MultipleEllipsis
            else if tl (tl r) = [] then finish6 gs' (Some (length gs')) []
            else parseGroups gs' (Some (length gs')) (tl (tl r))
          else parseGroups gs' ellipsis (tl r))"
  by pat_completeness auto
termination
  by (relation "measure (\<lambda>(gs, _, _). 8 - length gs)") auto

declare parseGroups.simps [simp del]

definition fromGroups :: "nat list \<Rightarrow> 128 word" where
  "fromGroups gs = foldl (\<lambda>w g. w * 0x10000 + of_nat g) 0 gs"

definition parseIPv6 :: "string \<Rightarrow> parseErr + Addr" where
  "parseIPv6 s0 =
     (case (case Cut (CHR ''%'') s0 of None \<Rightarrow> (s0, None) | Some (a, z) \<Rightarrow> (a, Some z)) of
        (s, zone) \<Rightarrow>
          if zone = Some [] then Inl EmptyZone
          else let z = (case zone of None \<Rightarrow> [] | Some z \<Rightarrow> z);
                   lead = take 2 s = ''::'';
                   rest = (if lead then drop 2 s else s)
            in if lead \<and> rest = [] then Inr (Addr6 0 z)
               else (case parseGroups [] (if lead then Some 0 else None) rest of
                   Inl e \<Rightarrow> Inl e
                 | Inr gs \<Rightarrow> Inr (Addr6 (fromGroups gs) z)))"

text \<open>\<^verbatim>\<open>netip.ParseAddr\<close>: the first of the three characters decides the family.\<close>

definition ParseAddr :: "string \<Rightarrow> parseErr + Addr" where
  "ParseAddr s =
     (case filter (\<lambda>c. c \<in> {CHR ''.'', CHR '':'', CHR ''%''}) s of
        [] \<Rightarrow> Inl UnableToParse
      | c # _ \<Rightarrow> if c = CHR ''.'' then parseIPv4 s
                else if c = CHR '':'' then parseIPv6 s
                else Inl MissingIPv6)"

section \<open>Prefixes\<close>

text \<open>
  \<^verbatim>\<open>netip.Prefix\<close>: an address without a zone and a bit count, -1 when the prefix is not valid.
\<close>

datatype Prefix = Prefix (pAddr: Addr) (pBits: int)

definition zeroPrefix :: Prefix where
  "zeroPrefix = Prefix zeroAddr (-1)"

definition PrefixFrom :: "Addr \<Rightarrow> int \<Rightarrow> Prefix" where
  "PrefixFrom a bits = Prefix (withoutZone a)
     (if IsValid a \<and> 0 \<le> bits \<and> bits \<le> int (BitLen a) then bits else -1)"

definition PrefixIsValid :: "Prefix \<Rightarrow> bool" where
  "PrefixIsValid p \<longleftrightarrow> 0 \<le> pBits p"

text \<open>\<^verbatim>\<open>Addr.Prefix(b)\<close>: the address with its host bits cleared; the zero Prefix on an error.\<close>

fun AddrPrefix :: "Addr \<Rightarrow> int \<Rightarrow> Prefix option" where
  "AddrPrefix a b =
     (if b < 0 then None
      else case a of
        AddrZ _ \<Rightarrow> Some zeroPrefix
      | Addr4 w \<Rightarrow> if 32 < b then None
          else Some (PrefixFrom (Addr4 (w AND NOT (mask (32 - nat b)))) b)
      | Addr6 w z \<Rightarrow> if 128 < b then None
          else Some (PrefixFrom (Addr6 (w AND NOT (mask (128 - nat b))) z) b))"

definition Masked :: "Prefix \<Rightarrow> Prefix" where
  "Masked p = (case AddrPrefix (pAddr p) (pBits p) of None \<Rightarrow> zeroPrefix | Some m \<Rightarrow> m)"

definition Contains :: "Prefix \<Rightarrow> Addr \<Rightarrow> bool" where
  "Contains p a \<longleftrightarrow> PrefixIsValid p \<and> Zone a = [] \<and>
     (case (pAddr p, a) of
        (Addr4 w, Addr4 v) \<Rightarrow> drop_bit (32 - nat (pBits p)) (v XOR w) = 0
      | (Addr6 w _, Addr6 v _) \<Rightarrow> drop_bit (128 - nat (pBits p)) (v XOR w) = 0
      | _ \<Rightarrow> False)"

definition Overlaps :: "Prefix \<Rightarrow> Prefix \<Rightarrow> bool" where
  "Overlaps p q =
     (if \<not> PrefixIsValid p \<or> \<not> PrefixIsValid q then False
      else if p = q then True
      else if Is4 (pAddr p) \<noteq> Is4 (pAddr q) then False
      else let m = min (pBits p) (pBits q) in
        if m = 0 then True
        else case (AddrPrefix (pAddr p) m, AddrPrefix (pAddr q) m) of
          (Some p', Some q') \<Rightarrow> pAddr p' = pAddr q'
        | _ \<Rightarrow> False)"

text \<open>
  \<^verbatim>\<open>strconv.Atoi\<close> on the part after the slash: one digit, or a digit from 1 to 9 and more digits;
  a sign or a leading zero was refused before.
\<close>

definition parseBits :: "string \<Rightarrow> nat option" where
  "parseBits s =
     (if s = [] \<or> \<not> list_all isDigit s then None
      else if 1 < length s \<and> hd s = CHR ''0'' then None
      else Some (foldl (\<lambda>n c. n * 10 + digitVal c) 0 s))"

definition ParsePrefix :: "string \<Rightarrow> parseErr + Prefix" where
  "ParsePrefix s =
     (case CutLast (CHR ''/'') s of
        None \<Rightarrow> Inl NoSlash
      | Some (a, b) \<Rightarrow>
        (case ParseAddr a of
           Inl e \<Rightarrow> Inl e
         | Inr ip \<Rightarrow>
           if Is6 ip \<and> Zone ip \<noteq> [] then Inl ZoneInPrefix
           else (case parseBits b of
               None \<Rightarrow> Inl BadBits
             | Some n \<Rightarrow> if n > BitLen ip then Inl BitsRange else Inr (PrefixFrom ip (int n)))))"

text \<open>The idiom \<^verbatim>\<open>p, _ := netip.ParsePrefix(s)\<close>: the zero Prefix when \<open>s\<close> does not parse.\<close>

definition ParsePrefixOrZero :: "string \<Rightarrow> Prefix" where
  "ParsePrefixOrZero s = (case ParsePrefix s of Inl _ \<Rightarrow> zeroPrefix | Inr p \<Rightarrow> p)"

definition PrefixString :: "Prefix \<Rightarrow> string" where
  "PrefixString p = (if PrefixIsValid p
     then AddrString (pAddr p) @ ''/'' @ Itoa (nat (pBits p)) else ''invalid Prefix'')"

section \<open>Endpoints\<close>

datatype AddrPort = AddrPort (apAddr: Addr) (apPort: "16 word")

definition parseUint16 :: "string \<Rightarrow> nat option" where
  "parseUint16 s =
     (if s = [] \<or> \<not> list_all isDigit s then None
      else let n = foldl (\<lambda>n c. n * 10 + digitVal c) 0 s in if n < 65536 then Some n else None)"

definition ParseAddrPort :: "string \<Rightarrow> parseErr + AddrPort" where
  "ParseAddrPort s =
     (case CutLast (CHR '':'') s of
        None \<Rightarrow> Inl NotIPPort
      | Some (ip, port) \<Rightarrow>
        if ip = [] then Inl NoIP
        else if port = [] then Inl NoPort
        else if hd ip = CHR ''['' \<and> (length ip < 2 \<or> last ip \<noteq> CHR '']'') then Inl MissingBracket
        else let v6 = (hd ip = CHR ''[''); ip' = (if v6 then butlast (tl ip) else ip) in
          (case parseUint16 port of
             None \<Rightarrow> Inl InvalidPort
           | Some n \<Rightarrow>
             (case ParseAddr ip' of
                Inl e \<Rightarrow> Inl e
              | Inr a \<Rightarrow> if v6 \<and> Is4 a then Inl BracketsOn4
                        else if \<not> v6 \<and> Is6 a then Inl NoBracketsOn6
                        else Inr (AddrPort a (of_nat n)))))"

text \<open>\<^verbatim>\<open>net.JoinHostPort\<close>.\<close>

definition JoinHostPort :: "string \<Rightarrow> string \<Rightarrow> string" where
  "JoinHostPort host port =
     (if CHR '':'' \<in> set host then ''['' @ host @ '']:'' @ port else host @ '':'' @ port)"

section \<open>IPv4 text\<close>

lemma octets_nat:
  "octets w = [unat w div 2 ^ 24 mod 256, unat w div 2 ^ 16 mod 256, unat w div 2 ^ 8 mod 256,
     unat w mod 256]"
proof -
  have *: "unat (drop_bit i w AND 0xff) = unat w div 2 ^ i mod 256" for i
  proof -
    have "(drop_bit i w AND 0xff) = take_bit 8 (drop_bit i w)"
      by (simp add: take_bit_eq_mask mask_eq_exp_minus_1)
    then have "unat (drop_bit i w AND 0xff) = unat (take_bit 8 (drop_bit i w))" by simp
    also have "\<dots> = take_bit 8 (unat (drop_bit i w))"
      by (rule unsigned_take_bit_eq)
    also have "unat (drop_bit i w) = unat w div 2 ^ i"
      unfolding unat_drop_bit_eq by (rule drop_bit_eq_div)
    finally show ?thesis by (simp add: take_bit_eq_mod)
  qed
  show ?thesis by (simp add: octets_def *)
qed

lemma unat_fromOctets:
  assumes "a < 256" "b < 256" "c < 256" "d < 256"
  shows "unat (fromOctets [a, b, c, d]) = ((a * 256 + b) * 256 + c) * 256 + d"
proof -
  let ?n = "((a * 256 + b) * 256 + c) * 256 + d"
  have "fromOctets [a, b, c, d] = of_nat ?n"
    by (simp add: fromOctets_def)
  moreover have "?n < 2 ^ 32"
    using assms by simp
  ultimately show ?thesis
    by (simp only: unat_of_nat) simp
qed

lemma div_mod_step: "d < k \<Longrightarrow> (x * k + d) div k = x \<and> (x * k + d) mod k = (d::nat)"
  by simp

lemma base256_div_mod:
  fixes a b c d :: nat
  assumes "a < 256" "b < 256" "c < 256" "d < 256" and n: "n = ((a * 256 + b) * 256 + c) * 256 + d"
  shows "n div 2 ^ 24 mod 256 = a" "n div 2 ^ 16 mod 256 = b" "n div 2 ^ 8 mod 256 = c" "n mod 256 = d"
proof -
  have 1: "n div 256 = (a * 256 + b) * 256 + c" "n mod 256 = d"
    unfolding n using div_mod_step [OF assms(4)] by blast+
  have 2: "n div 256 div 256 = a * 256 + b" "n div 256 mod 256 = c"
    unfolding 1 using div_mod_step [OF assms(3)] by blast+
  have 3: "n div 256 div 256 div 256 = a" "n div 256 div 256 mod 256 = b"
    unfolding 2 using div_mod_step [OF assms(2)] by blast+
  have "n div 2 ^ 16 = n div 256 div 256" "n div 2 ^ 24 = n div 256 div 256 div 256"
    by (simp_all add: div_mult2_eq [symmetric])
  then show "n div 2 ^ 24 mod 256 = a" "n div 2 ^ 16 mod 256 = b" "n div 2 ^ 8 mod 256 = c" "n mod 256 = d"
    using 1 2 3 assms(1) by simp_all
qed

lemma octets_fromOctets:
  assumes "a < 256" "b < 256" "c < 256" "d < 256"
  shows "octets (fromOctets [a, b, c, d]) = [a, b, c, d]"
  unfolding octets_nat unat_fromOctets [OF assms]
  using base256_div_mod [OF assms refl] by simp

lemma fromOctets_octets [simp]: "fromOctets (octets w) = w"
proof (rule unsigned_word_eqI)
  let ?n = "unat w"
  have "?n < 2 ^ 32" using unsigned_less [of w] by simp
  then have top: "?n div 2 ^ 24 mod 256 = ?n div 256 div 256 div 256"
    by (simp add: div_mult2_eq [symmetric])
  have two: "?n div 2 ^ 16 = ?n div 256 div 256"
    by (simp add: div_mult2_eq [symmetric])
  have "?n div 256 div 256 div 256 < 256"
    using \<open>?n < 2 ^ 32\<close> by (simp add: div_mult2_eq [symmetric])
  then show "unat (fromOctets (octets w)) = ?n"
    unfolding octets_nat
    by (subst unat_fromOctets) (simp_all only: top two, simp_all)
qed

lemma octets_less: "f \<in> set (octets w) \<Longrightarrow> f < 256"
  by (auto simp: octets_nat)

text \<open>Parsing what \<^verbatim>\<open>string4\<close> prints.\<close>

lemma fields_Itoa:
  assumes "n < 256"
  shows "parseIPv4Fields 0 0 fields prev (Itoa n @ s) =
     parseIPv4Fields n (length (Itoa n)) fields (Some (last (Itoa n))) s"
proof -
  define q r where "q = n div 10" and "r = n mod 10"
  have n: "n = q * 10 + r" and r: "r < 10" by (simp_all add: q_def r_def)
  consider "q = 0" | "0 < q" "q < 10" | "10 \<le> q" by linarith
  then show ?thesis
  proof cases
    case 1 then show ?thesis using n r by (simp add: Itoa_small)
  next
    case 2
    then have "Itoa n = [digit q, digit r]"
      using n r by (simp add: Itoa_step Itoa_small)
    then show ?thesis using 2 assms n r by simp
  next
    case 3
    define q' r' where "q' = q div 10" and "r' = q mod 10"
    have q: "q = q' * 10 + r'" and r': "r' < 10" by (simp_all add: q'_def r'_def)
    have q': "0 < q'" "q' < 10" using 3 assms n q r' by linarith+
    have "Itoa n = Itoa q @ [digit r]" unfolding n using r 3 by (simp add: Itoa_step)
    moreover have "Itoa q = Itoa q' @ [digit r']" unfolding q using r' q' by (simp add: Itoa_step)
    ultimately have "Itoa n = [digit q', digit r', digit r]" using q' by (simp add: Itoa_small)
    then show ?thesis using assms n r q r' q' by simp
  qed
qed

lemma Join_snoc: "Join sep (map f (xs @ [x])) = concat (map (\<lambda>y. f y @ sep) xs) @ f x"
proof (induction xs)
  case (Cons a xs)
  then show ?case by (cases xs) auto
qed simp

lemma string4_octets:
  obtains a b c d where "octets w = [a, b, c, d]" "a < 256" "b < 256" "c < 256" "d < 256"
    "string4 w = Itoa a @ ''.'' @ Itoa b @ ''.'' @ Itoa c @ ''.'' @ Itoa d"
proof -
  obtain a b c d where o: "octets w = [a, b, c, d]" by (simp add: octets_def)
  moreover have "a < 256" "b < 256" "c < 256" "d < 256"
    using octets_less [of _ w] o by auto
  ultimately show thesis using that by (simp add: string4_def)
qed

lemma fields_dot:
  "x \<noteq> CHR ''.'' \<Longrightarrow> s \<noteq> [] \<Longrightarrow> length fields < 3 \<Longrightarrow>
   parseIPv4Fields v n fields (Some x) (CHR ''.'' # s) = parseIPv4Fields 0 0 (fields @ [v]) (Some (CHR ''.'')) s"
  by simp

lemma last_Itoa [simp]: "last (Itoa n) \<noteq> CHR ''.''"
  using Itoa_digits [of n] by (metis Itoa_nonempty isDigit_not_dot last_in_set)

lemma parse_string4: "parseIPv4Fields 0 0 [] None (string4 w) = Inr (octets w)"
proof -
  obtain a b c d where "octets w = [a, b, c, d]" "a < 256" "b < 256" "c < 256" "d < 256"
    "string4 w = Itoa a @ ''.'' @ Itoa b @ ''.'' @ Itoa c @ ''.'' @ Itoa d"
    by (rule string4_octets)
  then show ?thesis
    using fields_Itoa [of d _ _ "[]"]
    by (simp add: fields_Itoa fields_dot del: parseIPv4Fields.simps(2))
qed

lemma string4_chars: "set (string4 w) \<subseteq> {c. isDigit c} \<union> {CHR ''.''}" and string4_dot: "CHR ''.'' \<in> set (string4 w)"
  by (rule string4_octets [of w]; use Itoa_digits in fastforce)+

lemma filter_dot_first:
  assumes "set s \<subseteq> {c. isDigit c} \<union> {CHR ''.''}" "CHR ''.'' \<in> set s"
  shows "\<exists>t. filter (\<lambda>c. c \<in> {CHR ''.'', CHR '':'', CHR ''%''}) s = CHR ''.'' # t"
  using assms by (induction s) auto

theorem ParseAddr_string4 [simp]: "ParseAddr (string4 w) = Inr (Addr4 w)"
proof -
  obtain t where "filter (\<lambda>c. c \<in> {CHR ''.'', CHR '':'', CHR ''%''}) (string4 w) = CHR ''.'' # t"
    using filter_dot_first [OF string4_chars string4_dot] by blast
  then show ?thesis
    unfolding ParseAddr_def by (simp only:) (simp add: parseIPv4_def parse_string4)
qed

lemma fields_sound:
  assumes "parseIPv4Fields v digLen fields prev s = Inr fs"
    and "digLen = 0 \<longrightarrow> v = 0 \<and> (prev = None \<or> prev = Some (CHR ''.'')) \<and> (s \<noteq> [] \<or> fields = [])"
    and "1 < digLen \<longrightarrow> 0 < v" and "v < 256" and "length fields \<le> 3" and "\<forall>f \<in> set fields. f < 256"
  shows "length fs = 4 \<and> (\<forall>f \<in> set fs. f < 256) \<and>
    concat (map (\<lambda>f. Itoa f @ ''.'') fields) @ (if digLen = 0 then [] else Itoa v) @ s
      = Join ''.'' (map Itoa fs)"
  using assms
proof (induction v digLen fields prev s rule: parseIPv4Fields.induct)
  case (1 v digLen fields prev)
  then have "fs = fields @ [v]" "length fields = 3" "digLen \<noteq> 0"
    by (auto split: if_splits)
  with 1 show ?case by (simp add: Join_snoc [of "''.''" Itoa fields v, simplified])
next
  case (2 v digLen fields prev c cs)
  show ?case
  proof (cases "isDigit c")
    case True
    let ?v = "v * 10 + digitVal c"
    have nz: "\<not> (digLen = 1 \<and> v = 0)" and le: "\<not> 255 < ?v"
      and rest: "parseIPv4Fields ?v (Suc digLen) fields (Some c) cs = Inr fs"
      using 2(3) True by (auto split: if_splits)
    have "length fs = 4 \<and> (\<forall>f \<in> set fs. f < 256) \<and>
      concat (map (\<lambda>f. Itoa f @ ''.'') fields) @ Itoa ?v @ cs = Join ''.'' (map Itoa fs)"
      using 2(1) [OF True nz le rest] 2(4-) le nz by (cases "digLen = 0") auto
    moreover have "Itoa ?v = (if digLen = 0 then [] else Itoa v) @ [c]"
      using 2(4,5) nz True digitVal_less [OF True]
      by (cases "digLen = 0"; cases "digLen = 1") (auto simp: Itoa_step Itoa_small)
    ultimately show ?thesis by simp
  next
    case False
    then have dot: "c = CHR ''.''" and ok: "\<not> (prev = None \<or> cs = [] \<or> prev = Some (CHR ''.''))"
      and len: "length fields \<noteq> 3"
      and rest: "parseIPv4Fields 0 0 (fields @ [v]) (Some c) cs = Inr fs"
      using 2(3) by (auto split: if_splits)
    have "digLen \<noteq> 0" using 2(4) ok by blast
    moreover have "length fs = 4 \<and> (\<forall>f \<in> set fs. f < 256) \<and>
      concat (map (\<lambda>f. Itoa f @ ''.'') (fields @ [v])) @ cs = Join ''.'' (map Itoa fs)"
      using 2(2) [OF False dot ok len rest] 2(4-) ok len dot by auto
    ultimately show ?thesis using dot by simp
  qed
qed

text \<open>An IPv4 address has one spelling: what parses to it is what \<^verbatim>\<open>String\<close> prints.\<close>

theorem parseIPv4_canonical:
  assumes "parseIPv4 s = Inr (Addr4 w)"
  shows "s = string4 w"
proof -
  obtain fs where fs: "parseIPv4Fields 0 0 [] None s = Inr fs" and w: "w = fromOctets fs"
    using assms by (auto simp: parseIPv4_def split: sum.splits)
  have *: "length fs = 4 \<and> (\<forall>f \<in> set fs. f < 256) \<and> s = Join ''.'' (map Itoa fs)"
    using fields_sound [OF fs] by simp
  then obtain a b c d where "fs = [a, b, c, d]"
    by (auto simp: length_Suc_conv numeral_eq_Suc)
  with * w show ?thesis by (simp add: string4_def octets_fromOctets)
qed

lemma parseIPv4_Is4: "parseIPv4 s = Inr a \<Longrightarrow> Is4 a"
  by (auto simp: parseIPv4_def split: sum.splits)

lemma parseIPv6_Is6: "parseIPv6 s = Inr a \<Longrightarrow> Is6 a"
  by (auto simp: parseIPv6_def Let_def split: sum.splits option.splits if_splits)

theorem ParseAddr_canonical: "ParseAddr s = Inr (Addr4 w) \<Longrightarrow> s = string4 w"
  using parseIPv6_Is6 [of s "Addr4 w"]
  by (auto simp: ParseAddr_def parseIPv4_canonical split: list.splits if_splits)

lemma ParseAddr_4_iff: "ParseAddr s = Inr (Addr4 w) \<longleftrightarrow> s = string4 w"
  using ParseAddr_canonical by auto

lemma string4_inject [simp]: "string4 v = string4 w \<longleftrightarrow> v = w"
  by (metis Inr_inject Addr.inject(2) ParseAddr_string4)

lemma string4_nonempty [simp]: "string4 w \<noteq> []"
  using string4_dot [of w] by auto

lemma ParseAddr_valid: "ParseAddr s = Inr a \<Longrightarrow> IsValid a"
  using parseIPv4_Is4 [of s a] parseIPv6_Is6 [of s a]
  by (cases a) (auto simp: ParseAddr_def split: list.splits if_splits)

section \<open>IPv4 prefixes\<close>

lemma decimal_Itoa [simp]: "foldl (\<lambda>n c. n * 10 + digitVal c) 0 (Itoa n) = n"
proof (induction n rule: Itoa.induct)
  case (1 n)
  then show ?case by (cases "n < 10") (simp_all add: Itoa.simps [of n])
qed

lemma hd_Itoa: "0 < n \<Longrightarrow> hd (Itoa n) \<noteq> CHR ''0''"
proof (induction n rule: Itoa.induct)
  case (1 n)
  show ?case
  proof (cases "n < 10")
    case True
    have "digit n \<noteq> CHR ''0''"
      using True 1(2) digitVal_digit [of n] by (auto simp: digitVal_def)
    then show ?thesis using True by (simp add: Itoa_small)
  next
    case False
    then have "hd (Itoa (n div 10)) \<noteq> CHR ''0''" using 1(1) by simp
    then show ?thesis using False by (subst Itoa.simps) simp
  qed
qed

lemma list_all_Itoa [simp]: "list_all isDigit (Itoa n)"
  using Itoa_digits [of n] by (simp add: list_all_iff)

lemma digit_0 [simp]: "digit 0 = CHR ''0''"
  by code_simp

lemma Itoa_0: "Itoa 0 = ''0''"
  by (simp add: Itoa_small)

lemma isDigit_0 [simp]: "isDigit (CHR ''0'')" and digitVal_0 [simp]: "digitVal (CHR ''0'') = 0"
  by code_simp+

lemma parseBits_Itoa [simp]: "parseBits (Itoa n) = Some n"
  using hd_Itoa [of n] by (cases "n = 0") (auto simp: parseBits_def Itoa_0)

lemma digits_Itoa:
  "s \<noteq> [] \<Longrightarrow> list_all isDigit s \<Longrightarrow> (1 < length s \<longrightarrow> hd s \<noteq> CHR ''0'') \<Longrightarrow>
   s = Itoa (foldl (\<lambda>n c. n * 10 + digitVal c) 0 s) \<and>
   (hd s \<noteq> CHR ''0'' \<longrightarrow> 0 < foldl (\<lambda>n c. n * 10 + digitVal c) 0 s)"
proof (induction s rule: rev_induct)
  case (snoc c s)
  have c: "isDigit c" using snoc.prems by simp
  show ?case
  proof (cases "s = []")
    case True
    have "digitVal c = 0 \<Longrightarrow> c = CHR ''0''"
      using digit_digitVal [OF c] by simp
    then show ?thesis using True c by (auto simp: Itoa_small digitVal_less)
  next
    case False
    then have "hd s \<noteq> CHR ''0''" using snoc.prems(3) by (cases s) auto
    with snoc False have "s = Itoa (foldl (\<lambda>n c. n * 10 + digitVal c) 0 s)"
      "0 < foldl (\<lambda>n c. n * 10 + digitVal c) 0 s" by auto
    then show ?thesis using c by (simp add: Itoa_step digitVal_less)
  qed
qed simp

lemma parseBits_canonical: "parseBits s = Some n \<Longrightarrow> s = Itoa n"
  using digits_Itoa [of s] by (auto simp: parseBits_def split: if_splits)

lemma slash_Itoa [simp]: "CHR ''/'' \<notin> set (Itoa n)"
  using Itoa_digits [of n] by (auto simp: isDigit_def)

text \<open>The text of an IPv4 prefix, and that it has one spelling too.\<close>

definition cidr4 :: "32 word \<Rightarrow> nat \<Rightarrow> string" where
  "cidr4 w n = string4 w @ ''/'' @ Itoa n"

lemma cidr4_nonempty [simp]: "cidr4 w n \<noteq> []"
  by (simp add: cidr4_def)

theorem ParsePrefix_cidr4 [simp]:
  "n \<le> 32 \<Longrightarrow> ParsePrefix (cidr4 w n) = Inr (Prefix (Addr4 w) (int n))"
proof -
  assume n: "n \<le> 32"
  have "CutLast (CHR ''/'') (cidr4 w n) = Some (string4 w, Itoa n)"
    by (simp add: CutLast_Some cidr4_def)
  then show ?thesis using n by (simp add: ParsePrefix_def PrefixFrom_def)
qed

theorem ParsePrefix_4:
  assumes "ParsePrefix s = Inr p" and "Is4 (pAddr p)"
  obtains w n where "p = Prefix (Addr4 w) (int n)" "n \<le> 32" "s = cidr4 w n"
proof -
  obtain a b ip n where ab: "CutLast (CHR ''/'') s = Some (a, b)" and ip: "ParseAddr a = Inr ip"
    and n: "parseBits b = Some n" "n \<le> BitLen ip" and p: "p = PrefixFrom ip (int n)"
    using assms(1) by (auto simp: ParsePrefix_def split: option.splits sum.splits if_splits prod.splits)
  obtain w where w: "ip = Addr4 w"
    using assms(2) p by (cases ip) (auto simp: PrefixFrom_def)
  have "s = cidr4 w n"
    using ab ip n w by (simp add: CutLast_Some ParseAddr_4_iff parseBits_canonical cidr4_def)
  moreover have "p = Prefix (Addr4 w) (int n)" "n \<le> 32"
    using p n w by (simp_all add: PrefixFrom_def)
  ultimately show thesis using that by blast
qed

abbreviation net4 :: "32 word \<Rightarrow> nat \<Rightarrow> 32 word" where
  "net4 w n \<equiv> w AND NOT (mask (32 - n))"

lemma Masked_4 [simp]:
  "n \<le> 32 \<Longrightarrow> Masked (Prefix (Addr4 w) (int n)) = Prefix (Addr4 (net4 w n)) (int n)"
  by (simp add: Masked_def PrefixFrom_def)

lemma net4_minus: "net4 w n = w - take_bit (32 - n) w"
proof -
  have "net4 w n + take_bit (32 - n) w = net4 w n OR take_bit (32 - n) w"
    by (rule disjunctive_add) (auto simp: bit_simps)
  also have "\<dots> = w"
    by (rule bit_word_eqI) (auto simp: bit_simps)
  finally show ?thesis by (metis add_diff_cancel_right')
qed

lemma unat_net4: "unat (net4 w n) = unat w div 2 ^ (32 - n) * 2 ^ (32 - n)"
proof -
  let ?k = "32 - n"
  have t: "unat (take_bit ?k w) = unat w mod 2 ^ ?k"
    unfolding unsigned_take_bit_eq by (rule take_bit_eq_mod)
  then have "take_bit ?k w \<le> w" by (simp add: word_le_nat_alt)
  then have "unat (net4 w n) = unat w - unat w mod 2 ^ ?k"
    unfolding net4_minus by (simp only: unat_sub t)
  also have "\<dots> = unat w div 2 ^ ?k * 2 ^ ?k" by (rule minus_mod_eq_div_mult)
  finally show ?thesis .
qed

lemma net4_eq_iff: "net4 v n = net4 w n \<longleftrightarrow> unat v div 2 ^ (32 - n) = unat w div 2 ^ (32 - n)"
proof -
  have "net4 v n = net4 w n \<longleftrightarrow> unat (net4 v n) = unat (net4 w n)"
    by (rule word_unat_eq_iff)
  then show ?thesis by (simp add: unat_net4)
qed

lemma net4_0 [simp]: "w AND NOT (mask 32) = (0 :: 32 word)"
  by (rule bit_word_eqI) (auto simp: bit_simps)

lemma net4_mono:
  assumes "net4 v n = net4 w n" and "k \<le> n" and "n \<le> 32"
  shows "net4 v k = net4 w k"
proof -
  have "(2::nat) ^ (32 - k) = 2 ^ (32 - n) * 2 ^ (n - k)"
    using assms by (simp flip: power_add)
  then show ?thesis using assms by (simp add: net4_eq_iff div_mult2_eq)
qed

lemma Contains_4:
  assumes "n \<le> 32"
  shows "Contains (Prefix (Addr4 w) (int n)) (Addr4 v) \<longleftrightarrow>
    unat v div 2 ^ (32 - n) = unat w div 2 ^ (32 - n)"
proof -
  have "drop_bit (32 - n) (v XOR w) = 0 \<longleftrightarrow> drop_bit (32 - n) v = drop_bit (32 - n) w"
    by (auto simp: bit_eq_iff bit_simps)
  also have "\<dots> \<longleftrightarrow> unat (drop_bit (32 - n) v) = unat (drop_bit (32 - n) w)"
    by (rule word_unat_eq_iff)
  finally show ?thesis
    unfolding unat_drop_bit_eq by (simp add: Contains_def PrefixIsValid_def drop_bit_eq_div)
qed

lemma Contains_net4: "n \<le> 32 \<Longrightarrow>
  Contains (Prefix (Addr4 w) (int n)) (Addr4 v) \<longleftrightarrow> net4 v n = net4 w n"
  by (simp add: Contains_4 net4_eq_iff)

lemma Contains_only_4: "Contains (Prefix (Addr4 w) b) a \<Longrightarrow> \<exists>v. a = Addr4 v"
  by (cases a) (auto simp: Contains_def)

text \<open>Two IPv4 prefixes overlap when some address is in both.\<close>

theorem Overlaps_4:
  assumes "m \<le> 32" "n \<le> 32"
  shows "Overlaps (Prefix (Addr4 v) (int m)) (Prefix (Addr4 w) (int n)) \<longleftrightarrow>
    (\<exists>a. Contains (Prefix (Addr4 v) (int m)) a \<and> Contains (Prefix (Addr4 w) (int n)) a)"
    (is "?l \<longleftrightarrow> ?r")
proof -
  let ?k = "min m n"
  have "v = w \<Longrightarrow> net4 v ?k = net4 w ?k" by simp
  then have "?l \<longleftrightarrow> net4 v ?k = net4 w ?k"
    using assms by (auto simp: Overlaps_def PrefixIsValid_def PrefixFrom_def Let_def min_def
        split: if_splits)
  also have "\<dots> \<longleftrightarrow> ?r"
  proof
    assume "net4 v ?k = net4 w ?k"
    then consider "net4 w m = net4 v m" | "net4 v n = net4 w n" by (auto simp: min_def split: if_splits)
    then show ?r
      using assms by cases (auto simp: Contains_net4 intro: exI [of _ "Addr4 w"] exI [of _ "Addr4 v"])
  next
    assume ?r
    then obtain a where a: "Contains (Prefix (Addr4 v) (int m)) a" "Contains (Prefix (Addr4 w) (int n)) a"
      by blast
    then obtain x where "a = Addr4 x" using Contains_only_4 by blast
    with a assms have "net4 x m = net4 v m" "net4 x n = net4 w n" by (simp_all add: Contains_net4)
    then have "net4 x ?k = net4 v ?k" "net4 x ?k = net4 w ?k"
      using assms net4_mono [of x m v ?k] net4_mono [of x n w ?k] by simp_all
    then show "net4 v ?k = net4 w ?k" by simp
  qed
  finally show ?thesis .
qed

subsection \<open>The addresses of a prefix, in order\<close>

lemma unat_net4_plus:
  assumes "k < 2 ^ (32 - n)"
  shows "unat (net4 w n + of_nat k) = unat (net4 w n) + k"
proof -
  let ?j = "32 - n"
  have "unat w < 2 ^ (32 - ?j) * 2 ^ ?j"
    using unsigned_less [of w] by (simp flip: power_add)
  then have "unat w div 2 ^ ?j < 2 ^ (32 - ?j)"
    by (simp add: less_mult_imp_div_less)
  then have "Suc (unat w div 2 ^ ?j) * 2 ^ ?j \<le> 2 ^ (32 - ?j) * 2 ^ ?j"
    by (intro mult_le_mono) simp_all
  then have "unat (net4 w n) + k < 2 ^ 32"
    using assms by (simp add: unat_net4 flip: power_add)
  then have "unat (net4 w n + of_nat k) = (unat (net4 w n) + k) mod 2 ^ 32" "(unat (net4 w n) + k) mod 2 ^ 32 = unat (net4 w n) + k"
    by (simp_all add: unat_word_ariths unat_of_nat mod_add_right_eq)
  then show ?thesis by simp
qed

lemma Contains_net4_plus:
  assumes "n \<le> 32" "k < 2 ^ (32 - n)"
  shows "Contains (Prefix (Addr4 w) (int n)) (Addr4 (net4 w n + of_nat k))"
proof -
  have "unat (net4 w n + of_nat k) div 2 ^ (32 - n) = unat w div 2 ^ (32 - n)"
    unfolding unat_net4_plus [OF assms(2)] using assms(2) by (simp add: unat_net4)
  then show ?thesis using assms(1) by (simp add: Contains_4)
qed

lemma net4_plus_inject:
  assumes "j < 2 ^ (32 - n)" "k < 2 ^ (32 - n)"
  shows "net4 w n + of_nat j = net4 w n + of_nat k \<longleftrightarrow> j = k"
proof
  assume "net4 w n + of_nat j = net4 w n + of_nat k"
  then have "unat (net4 w n) + j = unat (net4 w n) + k"
    by (simp only: unat_net4_plus [OF assms(1), symmetric] unat_net4_plus [OF assms(2), symmetric])
  then show "j = k" by simp
qed simp

lemma Contains_enum:
  assumes "n \<le> 32" "Contains (Prefix (Addr4 w) (int n)) (Addr4 v)"
  obtains k where "k < 2 ^ (32 - n)" "v = net4 w n + of_nat k"
proof -
  let ?j = "32 - n" let ?k = "unat v mod 2 ^ ?j"
  have k: "?k < 2 ^ ?j" by simp
  have "unat v = unat w div 2 ^ ?j * 2 ^ ?j + ?k"
    using assms(2) div_mult_mod_eq [of "unat v" "2 ^ ?j"] unfolding Contains_4 [OF assms(1)] by simp
  then have "unat v = unat (net4 w n + of_nat ?k)"
    unfolding unat_net4_plus [OF k] unat_net4 .
  then have "v = net4 w n + of_nat ?k" by (rule unsigned_word_eqI)
  with k show thesis using that by blast
qed

lemma Next_net4:
  assumes "k + 1 < 2 ^ (32 - n)"
  shows "Next (Addr4 (net4 w n + of_nat k)) = Addr4 (net4 w n + of_nat (k + 1))"
proof -
  have "unat (net4 w n + of_nat (k + 1)) = unat (net4 w n) + (k + 1)"
    by (rule unat_net4_plus) (rule assms)
  then have "unat (net4 w n + of_nat (k + 1)) \<noteq> 0" by (simp only:)
  then have "net4 w n + of_nat (k + 1) \<noteq> 0" by (auto simp del: of_nat_add)
  then show ?thesis by (simp add: add.assoc add.commute)
qed

section \<open>Endpoints\<close>

lemma colon_string4 [simp]: "CHR '':'' \<notin> set (string4 w)"
  using string4_chars [of w] by auto

lemma colon_Itoa [simp]: "CHR '':'' \<notin> set (Itoa n)"
  using Itoa_digits [of n] by auto

lemma hd_string4 [simp]: "hd (string4 w) \<noteq> CHR ''[''"
proof -
  have "hd (string4 w) \<in> set (string4 w)" by simp
  then have "isDigit (hd (string4 w)) \<or> hd (string4 w) = CHR ''.''"
    using string4_chars [of w] by blast
  then show ?thesis by (auto simp: isDigit_def)
qed

theorem ParseAddrPort_JoinHostPort:
  assumes "n < 65536"
  shows "ParseAddrPort (JoinHostPort (string4 w) (Itoa n)) = Inr (AddrPort (Addr4 w) (of_nat n))"
proof -
  have "JoinHostPort (string4 w) (Itoa n) = string4 w @ '':'' @ Itoa n"
    by (simp add: JoinHostPort_def)
  moreover have "CutLast (CHR '':'') (string4 w @ '':'' @ Itoa n) = Some (string4 w, Itoa n)"
    by (simp add: CutLast_Some)
  ultimately show ?thesis
    using assms by (simp add: ParseAddrPort_def parseUint16_def)
qed

end
