(* ===== verification/Api.thy ===== *)
theory Api
  imports Netip
begin

text \<open>
  The API types: the two custom resources of \<open>src/api/v1alpha1\<close> and the Kubernetes types they are
  built from, as far as the program reads or writes them. A Go struct is a record, a pointer or an
  optional field an option, a Go map a partial function. Kubernetes types the program only passes
  through (tolerations, resource requirements) keep their documented fields.

  Condition lists are handled by functions of \<open>k8s.io/apimachinery\<close>, which are not part of the
  repository: they are the record \<open>condOps\<close>, a parameter of every definition that uses them, and
  \<open>condLaws\<close> is what their documentation promises.
\<close>

section \<open>Kubernetes metadata\<close>

datatype NamespacedName = NamespacedName (nnNamespace: string) (nnName: string)

definition nnString :: "NamespacedName \<Rightarrow> string" where
  "nnString k = nnNamespace k @ ''/'' @ nnName k"

record OwnerReference =
  orAPIVersion :: string
  orKind :: string
  orName :: string
  orUID :: string
  orController :: "bool option"

record ObjectMeta =
  Name :: string
  Namespace :: string
  UID :: string
  ResourceVersion :: string
  Generation :: int
  CreationTimestamp :: int
  Labels :: "string \<rightharpoonup> string"
  Annotations :: "string \<rightharpoonup> string"
  OwnerReferences :: "OwnerReference list"

text \<open>An object's metadata as a Go composite literal leaves it: every other field is zero.\<close>

definition newMeta :: "string \<Rightarrow> string \<Rightarrow> ObjectMeta" where
  "newMeta name namespace = \<lparr>Name = name, Namespace = namespace, UID = [], ResourceVersion = [],
     Generation = 0, CreationTimestamp = 0, Labels = Map.empty, Annotations = Map.empty,
     OwnerReferences = []\<rparr>"

definition metaKey :: "ObjectMeta \<Rightarrow> NamespacedName" where
  "metaKey m = NamespacedName (Namespace m) (Name m)"

lemma newMeta_simps [simp]:
  "Name (newMeta n ns) = n" "Namespace (newMeta n ns) = ns" "UID (newMeta n ns) = []"
  "Labels (newMeta n ns) = Map.empty" "OwnerReferences (newMeta n ns) = []"
  "Generation (newMeta n ns) = 0" "CreationTimestamp (newMeta n ns) = 0"
  by (simp_all add: newMeta_def)

section \<open>Errors\<close>

text \<open>
  API errors, by the class that \<^verbatim>\<open>errors.IsNotFound\<close> and its kin test. A Go error is a value: which
  message it would print with which arguments.
\<close>

datatype apiError = NotFound | Conflict | AlreadyExists | Invalid | OtherError string

datatype cidrField = PeerCIDRField | LocalCIDRField nat

datatype cidrProblem =
    NotACIDR parseErr
  | NotIPv4Prefix
  | HostBitsSet Prefix
  | NoAddressForPeer
  | OverlapsLocalCIDR nat string
  | ContainsProbeAddress

datatype goError =
    ApiErr apiError
  | ErrorText string
  | WrapErr string goError
  | NoteErr goError string
  | ParseError parseErr
  | CidrErr cidrField string cidrProblem
  | JoinErr goError goError

text \<open>
  \<open>WrapErr\<close> is \<^verbatim>\<open>fmt.Errorf("...: %w", err)\<close>, \<open>NoteErr\<close> is \<^verbatim>\<open>fmt.Errorf("%w: ...", err)\<close>.
\<close>

text \<open>\<^verbatim>\<open>errors.Join\<close> of two errors: a nil error drops out.\<close>

fun joinErr :: "goError option \<Rightarrow> goError option \<Rightarrow> goError option" where
  "joinErr None b = b"
| "joinErr a None = a"
| "joinErr (Some a) (Some b) = Some (JoinErr a b)"

lemma joinErr_None [simp]: "joinErr a b = None \<longleftrightarrow> a = None \<and> b = None"
  by (cases a; cases b) simp_all

section \<open>Conditions\<close>

text \<open>
  \<^verbatim>\<open>metav1.Condition\<close>. The message is a string on a WireguardPeer; on a Wireguard it is often the
  text of an error, and stays the error value.
\<close>

record 'm Condition =
  condType :: string
  condStatus :: string
  condReason :: string
  condMessage :: 'm
  condObservedGeneration :: int
  condLastTransitionTime :: int

definition ConditionTrue :: string where "ConditionTrue = ''True''"
definition ConditionFalse :: string where "ConditionFalse = ''False''"

record 'm condOps =
  FindStatusCondition :: "'m Condition list \<Rightarrow> string \<Rightarrow> 'm Condition option"
  SetStatusCondition :: "'m Condition list \<Rightarrow> 'm Condition \<Rightarrow> 'm Condition list"
  RemoveStatusCondition :: "'m Condition list \<Rightarrow> string \<Rightarrow> 'm Condition list"

definition sameCondition :: "'m Condition \<Rightarrow> 'm Condition \<Rightarrow> bool" where
  "sameCondition c d \<longleftrightarrow> condType c = condType d \<and> condStatus c = condStatus d
     \<and> condReason c = condReason d \<and> condMessage c = condMessage d
     \<and> condObservedGeneration c = condObservedGeneration d"

text \<open>
  What \<open>k8s.io/apimachinery/pkg/api/meta\<close> documents: a set condition is found again with the status,
  reason, message and observed generation it was set with, a removed one is not found, and the
  conditions of other types stay as they are.
\<close>

definition condLaws :: "'m condOps \<Rightarrow> bool" where
  "condLaws ops \<longleftrightarrow>
     (\<forall>cs c. \<exists>d. FindStatusCondition ops (SetStatusCondition ops cs c) (condType c) = Some d
        \<and> sameCondition d c)
   \<and> (\<forall>cs c t. t \<noteq> condType c \<longrightarrow>
        FindStatusCondition ops (SetStatusCondition ops cs c) t = FindStatusCondition ops cs t)
   \<and> (\<forall>cs t. FindStatusCondition ops (RemoveStatusCondition ops cs t) t = None)
   \<and> (\<forall>cs t u. u \<noteq> t \<longrightarrow>
        FindStatusCondition ops (RemoveStatusCondition ops cs t) u = FindStatusCondition ops cs u)"

text \<open>A concrete instance, over association lists, that shows the laws can hold.\<close>

definition listConditions :: "'m condOps" where
  "listConditions = \<lparr>
     FindStatusCondition = (\<lambda>cs t. List.find (\<lambda>c. condType c = t) cs),
     SetStatusCondition = (\<lambda>cs c. c # filter (\<lambda>d. condType d \<noteq> condType c) cs),
     RemoveStatusCondition = (\<lambda>cs t. filter (\<lambda>d. condType d \<noteq> t) cs)\<rparr>"

lemma find_filter_other:
  "u \<noteq> t \<Longrightarrow> List.find (\<lambda>c. condType c = u) (filter (\<lambda>d. condType d \<noteq> t) cs)
     = List.find (\<lambda>c. condType c = u) cs"
  by (induction cs) auto

lemma condLaws_listConditions: "condLaws listConditions"
  by (auto simp: condLaws_def listConditions_def sameCondition_def find_filter_other
      find_None_iff)

section \<open>WireguardPeer\<close>

definition Pending :: string where "Pending = ''pending''"
definition Error :: string where "Error = ''error''"
definition Ready :: string where "Ready = ''ready''"

record WireguardPeerSpec =
  spec_PublicKey :: string
  spec_WireguardRef :: string
  spec_WireguardNamespace :: string

record WireguardPeerStatus =
  st_Status :: string
  st_Message :: string
  st_Address :: string
  st_Endpoint :: string
  st_ServerPublicKey :: string
  st_LocalCIDRs :: "string list"
  st_Conditions :: "string Condition list"

record WireguardPeer =
  peerMeta :: ObjectMeta
  peerSpec :: WireguardPeerSpec
  peerStatus :: WireguardPeerStatus

definition emptyPeerStatus :: WireguardPeerStatus where
  "emptyPeerStatus = \<lparr>st_Status = [], st_Message = [], st_Address = [], st_Endpoint = [],
     st_ServerPublicKey = [], st_LocalCIDRs = [], st_Conditions = []\<rparr>"

abbreviation peerName :: "WireguardPeer \<Rightarrow> string" where
  "peerName p \<equiv> Name (peerMeta p)"

abbreviation peerNamespace :: "WireguardPeer \<Rightarrow> string" where
  "peerNamespace p \<equiv> Namespace (peerMeta p)"

abbreviation publicKey :: "WireguardPeer \<Rightarrow> string" where
  "publicKey p \<equiv> spec_PublicKey (peerSpec p)"

abbreviation address :: "WireguardPeer \<Rightarrow> string" where
  "address p \<equiv> st_Address (peerStatus p)"

abbreviation peerKey :: "WireguardPeer \<Rightarrow> NamespacedName" where
  "peerKey p \<equiv> metaKey (peerMeta p)"

section \<open>Wireguard\<close>

record ResourceRequirements =
  resLimits :: "(string \<times> string) list"
  resRequests :: "(string \<times> string) list"

record Toleration =
  tolKey :: string
  tolOperator :: string
  tolValue :: string
  tolEffect :: string
  tolSeconds :: "int option"

datatype EnvVarSource = FieldRef string | OtherSource string

record EnvVar =
  ev_Name :: string
  ev_Value :: string
  ev_ValueFrom :: "EnvVarSource option"

record EnvFromSource =
  ef_Prefix :: string
  ef_SecretRef :: "string option"
  ef_ConfigMapRef :: "string option"

record GluetunSpec =
  gl_Env :: "EnvVar list"
  gl_EnvFrom :: "EnvFromSource list"
  gl_Resources :: ResourceRequirements

record AllowedNamespaces =
  From :: string

definition FromAll :: string where "FromAll = ''All''"
definition FromSame :: string where "FromSame = ''Same''"

record WireguardSpec =
  wg_PeerCIDR :: string
  wg_LocalCIDRs :: "string list"
  wg_Gluetun :: GluetunSpec
  wg_NodeSelector :: "string \<rightharpoonup> string"
  wg_Tolerations :: "Toleration list"
  wg_AgentResources :: ResourceRequirements
  wg_AllowedNamespaces :: "AllowedNamespaces option"

record WireguardStatus =
  ws_Status :: string
  ws_Message :: goError
  ws_Endpoint :: string
  ws_PublicKey :: string
  ws_Conditions :: "goError Condition list"

record Wireguard =
  wgMeta :: ObjectMeta
  wgSpec :: WireguardSpec
  wgStatus :: WireguardStatus

abbreviation wgName :: "Wireguard \<Rightarrow> string" where
  "wgName w \<equiv> Name (wgMeta w)"

abbreviation wgNamespace :: "Wireguard \<Rightarrow> string" where
  "wgNamespace w \<equiv> Namespace (wgMeta w)"

definition emptyResources :: ResourceRequirements where
  "emptyResources = \<lparr>resLimits = [], resRequests = []\<rparr>"

definition emptyGluetun :: GluetunSpec where
  "emptyGluetun = \<lparr>gl_Env = [], gl_EnvFrom = [], gl_Resources = emptyResources\<rparr>"

definition emptyWgStatus :: WireguardStatus where
  "emptyWgStatus = \<lparr>ws_Status = [], ws_Message = ErrorText [], ws_Endpoint = [], ws_PublicKey = [],
     ws_Conditions = []\<rparr>"

section \<open>The state the manager hands to the agent\<close>

text \<open>\<^verbatim>\<open>agent.State\<close>, the content of \<open>state.json\<close>, and its effective peer range.\<close>

record State =
  Server :: Wireguard
  ServerPrivateKey :: string
  Peers :: "WireguardPeer list"

definition DefaultPeerCIDR4 :: string where
  "DefaultPeerCIDR4 = ''10.8.0.0/24''"

definition PeerCIDR :: "State \<Rightarrow> string" where
  "PeerCIDR s = (if wg_PeerCIDR (wgSpec (Server s)) = [] then DefaultPeerCIDR4
     else wg_PeerCIDR (wgSpec (Server s)))"

definition effectivePeerCIDR4 :: "Wireguard \<Rightarrow> string" where
  "effectivePeerCIDR4 w = (if wg_PeerCIDR (wgSpec w) \<noteq> [] then wg_PeerCIDR (wgSpec w)
     else DefaultPeerCIDR4)"

lemma PeerCIDR_effective: "PeerCIDR s = effectivePeerCIDR4 (Server s)"
  by (simp add: PeerCIDR_def effectivePeerCIDR4_def)

end
