(* ===== verification/Ipam.thy ===== *)
theory Ipam
  imports Api
begin

text \<open>
  The address allocator, \<open>src/internal/ipam/allocator.go\<close>. The addresses of a range come from the
  package \<open>korylprince/ipnetgen\<close>, which is not part of the repository: \<open>gen\<close> stands for its
  \<^verbatim>\<open>New\<close> followed by \<^verbatim>\<open>Next\<close> until \<open>nil\<close>, and \<open>genLaw\<close> states what it documents, that the generator
  of an IPv4 network yields every address of the network in ascending order.

  The locales \<open>allocator\<close> and \<open>pool_allocator\<close> are the interface the reconciler relies on.
\<close>

section \<open>The allocator\<close>

type_synonym ipGen = "string \<Rightarrow> string + Addr list"

text \<open>\<^verbatim>\<open>net.IP.String\<close>: an IPv4-mapped address prints as IPv4.\<close>

definition ipString :: "Addr \<Rightarrow> string" where
  "ipString a = AddrString (Unmap a)"

definition isUsed :: "string \<Rightarrow> string list \<Rightarrow> bool" where
  "isUsed ip usedIPs \<longleftrightarrow> ip \<in> set usedIPs"

text \<open>The loop over \<^verbatim>\<open>gen.Next()\<close>: the first address that is not used.\<close>

fun firstFree :: "Addr list \<Rightarrow> string list \<Rightarrow> string option" where
  "firstFree [] usedIPs = None"
| "firstFree (ip # ips) usedIPs =
     (if \<not> isUsed (ipString ip) usedIPs then Some (ipString ip) else firstFree ips usedIPs)"

definition AllocateIP :: "ipGen \<Rightarrow> string \<Rightarrow> string list \<Rightarrow> goError + string" where
  "AllocateIP gen cidr usedIPs =
     (case gen cidr of
        Inl e \<Rightarrow> Inl (WrapErr (''failed to parse CIDR '' @ cidr) (ErrorText e))
      | Inr ips \<Rightarrow>
        (case firstFree ips usedIPs of
           Some ip \<Rightarrow> Inr ip
         | None \<Rightarrow> Inl (ErrorText (''no available IP found in '' @ cidr))))"

definition deriveReservedIPs :: "string \<Rightarrow> string list" where
  "deriveReservedIPs cidr =
     (if cidr = [] then []
      else case ParsePrefix cidr of
        Inl _ \<Rightarrow> []
      | Inr prefix \<Rightarrow>
          let network = pAddr (Masked prefix); gateway = Next network
          in [AddrString network, AddrString gateway])"

definition GetUsedIPs :: "string \<Rightarrow> WireguardPeer list \<Rightarrow> string list" where
  "GetUsedIPs cidr peers = deriveReservedIPs cidr
     @ map address (filter (\<lambda>peer. address peer \<noteq> []) peers)"

section \<open>What the generator promises\<close>

definition genLaw :: "ipGen \<Rightarrow> bool" where
  "genLaw gen \<longleftrightarrow> (\<forall>w n. n \<le> 32 \<longrightarrow>
     gen (cidr4 w n) = Inr (map (\<lambda>k. Addr4 (net4 w n + of_nat k)) [0..<2 ^ (32 - n)]))"

text \<open>A concrete generator, so that the law can hold.\<close>

definition prefixGen :: ipGen where
  "prefixGen cidr =
     (case ParsePrefix cidr of
        Inr (Prefix (Addr4 w) b) \<Rightarrow>
          Inr (map (\<lambda>k. Addr4 (net4 w (nat b) + of_nat k)) [0..<2 ^ (32 - nat b)])
      | _ \<Rightarrow> Inl ''not an IPv4 network'')"

lemma genLaw_prefixGen: "genLaw prefixGen"
  by (simp add: genLaw_def prefixGen_def)

section \<open>Correctness\<close>

lemma ipString_4 [simp]: "ipString (Addr4 w) = string4 w"
  by (simp add: ipString_def)

lemma firstFree_Some:
  "firstFree ips used = Some ip \<Longrightarrow>
   \<exists>pre a post. ips = pre @ a # post \<and> ip = ipString a \<and> ip \<notin> set used
     \<and> (\<forall>b \<in> set pre. ipString b \<in> set used)"
proof (induction ips)
  case (Cons a ips)
  show ?case
  proof (cases "isUsed (ipString a) used")
    case True
    with Cons obtain pre x post where "ips = pre @ x # post" "ip = ipString x" "ip \<notin> set used"
      "\<forall>b \<in> set pre. ipString b \<in> set used" by auto
    then have "a # ips = (a # pre) @ x # post" "\<forall>b \<in> set (a # pre). ipString b \<in> set used"
      using True by (auto simp: isUsed_def)
    then show ?thesis using \<open>ip = ipString x\<close> \<open>ip \<notin> set used\<close> by blast
  next
    case False
    then have "ip = ipString a" "ip \<notin> set used" using Cons.prems by (auto simp: isUsed_def)
    then show ?thesis by (intro exI [of _ "[]"]) auto
  qed
qed simp

lemma firstFree_None: "firstFree ips used = None \<longleftrightarrow> (\<forall>a \<in> set ips. ipString a \<in> set used)"
  by (induction ips) (auto simp: isUsed_def)

lemma AllocateIP_fresh: "AllocateIP gen cidr used = Inr ip \<Longrightarrow> ip \<notin> set used"
  using firstFree_Some by (fastforce simp: AllocateIP_def split: sum.splits option.splits)

lemma GetUsedIPs_covers: "p \<in> set peers \<Longrightarrow> address p \<noteq> [] \<Longrightarrow> address p \<in> set (GetUsedIPs cidr peers)"
  by (auto simp: GetUsedIPs_def)

lemma deriveReservedIPs_4:
  assumes "n \<le> 31"
  shows "deriveReservedIPs (cidr4 w n) = [string4 (net4 w n), string4 (net4 w n + 1)]"
proof -
  have "(2::nat) ^ 1 \<le> 2 ^ (32 - n)"
    using assms by (intro power_increasing) auto
  then have "Next (Addr4 (net4 w n)) = Addr4 (net4 w n + 1)"
    using Next_net4 [of 0 n w] by simp
  then show ?thesis
    using assms by (simp add: deriveReservedIPs_def Let_def del: Next.simps)
qed

text \<open>
  The allocation with the network named: the result is the first address of the range, from the
  third on, that is not used, and an error says that there is none.
\<close>

lemma AllocateIP_4:
  assumes gen: "genLaw gen" and n: "n \<le> 32"
  shows "AllocateIP gen (cidr4 w n) used = Inr ip \<longleftrightarrow>
    (\<exists>k < 2 ^ (32 - n). ip = string4 (net4 w n + of_nat k) \<and> ip \<notin> set used
       \<and> (\<forall>j < k. string4 (net4 w n + of_nat j) \<in> set used))" (is "?l \<longleftrightarrow> ?r")
proof -
  let ?N = "2 ^ (32 - n) :: nat"
  let ?f = "\<lambda>k. Addr4 (net4 w n + of_nat k)"
  have g: "gen (cidr4 w n) = Inr (map ?f [0..<?N])"
    using gen n by (simp add: genLaw_def)
  have "?l \<longleftrightarrow> firstFree (map ?f [0..<?N]) used = Some ip"
    unfolding AllocateIP_def g by (auto split: option.splits)
  also have "\<dots> \<longleftrightarrow> ?r"
  proof
    assume "firstFree (map ?f [0..<?N]) used = Some ip"
    then obtain pre a post where *: "map ?f [0..<?N] = pre @ a # post" "ip = ipString a" "ip \<notin> set used"
      "\<forall>b \<in> set pre. ipString b \<in> set used" using firstFree_Some by blast
    let ?k = "length pre"
    have len: "?k < ?N" using arg_cong [OF *(1), of length] by simp
    have at: "map ?f [0..<?N] ! j = ?f j" if "j < ?N" for j using that by simp
    have "a = ?f ?k" using at [OF len] by (simp add: *(1) nth_append)
    moreover have "string4 (net4 w n + of_nat j) \<in> set used" if "j < ?k" for j
    proof -
      have "pre ! j = ?f j" using at [of j] that len by (simp add: *(1) nth_append)
      then show ?thesis using *(4) that by (metis ipString_4 nth_mem)
    qed
    ultimately show ?r using len * by (intro exI [of _ ?k]) simp
  next
    assume ?r
    then obtain k where k: "k < ?N" "ip = string4 (net4 w n + of_nat k)" "ip \<notin> set used"
      "\<forall>j < k. string4 (net4 w n + of_nat j) \<in> set used" by blast
    have "\<forall>j < k. ipString (?f j) \<in> set used \<Longrightarrow> firstFree (map ?f [m..<?N]) used = Some ip"
      if "m \<le> k" for m
      using that
    proof (induction "k - m" arbitrary: m)
      case 0
      then have "m = k" by simp
      then show ?case using k by (simp add: upt_conv_Cons isUsed_def)
    next
      case (Suc d)
      then have "firstFree (map ?f [Suc m..<?N]) used = Some ip" by auto
      moreover have "ipString (?f m) \<in> set used" using Suc by auto
      ultimately show ?case using Suc k(1) by (simp add: upt_conv_Cons isUsed_def)
    qed
    then show "firstFree (map ?f [0..<?N]) used = Some ip" using k by simp
  qed
  finally show ?thesis .
qed

lemma AllocateIP_error_4:
  assumes gen: "genLaw gen" and n: "n \<le> 32"
  shows "(\<exists>e. AllocateIP gen (cidr4 w n) used = Inl e) \<longleftrightarrow>
    (\<forall>k < 2 ^ (32 - n). string4 (net4 w n + of_nat k) \<in> set used)"
proof -
  have "gen (cidr4 w n)
      = Inr (map (\<lambda>k. Addr4 (net4 w n + of_nat k)) [0..<2 ^ (32 - n)])"
    using gen n by (simp add: genLaw_def)
  then have "(\<exists>e. AllocateIP gen (cidr4 w n) used = Inl e) \<longleftrightarrow>
      firstFree (map (\<lambda>k. Addr4 (net4 w n + of_nat k)) [0..<2 ^ (32 - n)]) used = None"
    by (auto simp: AllocateIP_def split: option.splits)
  then show ?thesis by (auto simp: firstFree_None)
qed

end
