(* ===== verification/Peers.thy ===== *)
theory Peers
  imports Ipam "HOL-Library.Multiset"
begin

text \<open>
  The decisions about peers, \<open>src/internal/controller/peers.go\<close>: which peers a server can admit, the
  not-ready records written on the others, the resolution of peers that share an address or a public
  key, and the state the manager renders for the agent.

  WireGuard keys are parsed and printed by \<open>wgctrl/wgtypes\<close>, which is not part of the repository:
  the record \<open>wgKeys\<close> stands for it.
\<close>

section \<open>WireGuard keys\<close>

record 'k wgKeys =
  ParseKey :: "string \<Rightarrow> 'k option"
  KeyString :: "'k \<Rightarrow> string"
  PublicKeyOf :: "'k \<Rightarrow> 'k"

text \<open>\<^verbatim>\<open>wgtypes.ParseKey\<close> documents that it parses what \<^verbatim>\<open>Key.String\<close> produces, 44 characters of base64.\<close>

definition keyLaws :: "'k wgKeys \<Rightarrow> bool" where
  "keyLaws K \<longleftrightarrow> (\<forall>k. ParseKey K (KeyString K k) = Some k) \<and> (\<forall>k. length (KeyString K k) = 44)"

text \<open>The canonical spelling of a key: it parses, and the parsed key prints as it.\<close>

definition canonicalKey :: "'k wgKeys \<Rightarrow> string \<Rightarrow> bool" where
  "canonicalKey K s \<longleftrightarrow> (\<exists>k. ParseKey K s = Some k \<and> KeyString K k = s)"

text \<open>A small instance for the witnesses: keys of one byte, spelled with 44 characters.\<close>

definition byteKeys :: "8 word wgKeys" where
  "byteKeys = \<lparr>
     ParseKey = (\<lambda>s. if length s = 44 \<and> tl s = replicate 43 CHR ''A''
                     then Some (word_of_nat (of_char (hd s))) else None),
     KeyString = (\<lambda>k. char_of (unat k) # replicate 43 CHR ''A''),
     PublicKeyOf = (\<lambda>k. k + 1)\<rparr>"

lemma unat_byte: "unat (k :: 8 word) mod 256 = unat k"
proof -
  have "unat k < 2 ^ LENGTH(8)" by (rule unsigned_less)
  then show ?thesis by simp
qed

lemma keyLaws_byteKeys: "keyLaws byteKeys"
  by (simp add: keyLaws_def byteKeys_def unat_byte)

definition simKey :: "char \<Rightarrow> string" where
  "simKey c = c # replicate 43 CHR ''A''"

section \<open>Not-ready records\<close>

definition ReasonPublicKeyMissing :: string where "ReasonPublicKeyMissing = ''PublicKeyMissing''"
definition ReasonWireguardNotFound :: string where "ReasonWireguardNotFound = ''WireguardNotFound''"
definition ReasonNamespaceNotAllowed :: string where "ReasonNamespaceNotAllowed = ''NamespaceNotAllowed''"
definition ReasonAddressPoolExhausted :: string where "ReasonAddressPoolExhausted = ''AddressPoolExhausted''"
definition ReasonInvalidPublicKey :: string where "ReasonInvalidPublicKey = ''InvalidPublicKey''"
definition ReasonAddressConflict :: string where "ReasonAddressConflict = ''AddressConflict''"
definition ReasonPublicKeyConflict :: string where "ReasonPublicKeyConflict = ''PublicKeyConflict''"

definition ConditionReady :: string where "ConditionReady = ''Ready''"
definition ConditionProgressing :: string where "ConditionProgressing = ''Progressing''"
definition ConditionDegraded :: string where "ConditionDegraded = ''Degraded''"

record notReady =
  nr_Status :: string
  nr_Message :: string
  nr_Reason :: string
  nr_ConditionMessage :: string

definition publicKeyMissing :: notReady where
  "publicKeyMissing = \<lparr>nr_Status = Pending, nr_Message = ''Waiting for spec.publicKey'',
     nr_Reason = ReasonPublicKeyMissing,
     nr_ConditionMessage = ''spec.publicKey is empty, so the server cannot admit this peer''\<rparr>"

definition invalidPublicKey :: notReady where
  "invalidPublicKey = \<lparr>nr_Status = Error, nr_Message = ''spec.publicKey is not a valid WireGuard key'',
     nr_Reason = ReasonInvalidPublicKey,
     nr_ConditionMessage = ''spec.publicKey is not a base64-encoded 32-byte WireGuard key, so the server cannot admit this peer''\<rparr>"

definition wireguardNotFound :: "string \<Rightarrow> string \<Rightarrow> notReady" where
  "wireguardNotFound ref namespace = \<lparr>nr_Status = Pending,
     nr_Message = ''Waiting for wireguard resource '' @ [CHR 0x27] @ ref @ [CHR 0x27] @ '' to be created'',
     nr_Reason = ReasonWireguardNotFound,
     nr_ConditionMessage = ''no Wireguard named '' @ ref @ '' exists in namespace '' @ namespace\<rparr>"

definition addressPoolExhausted :: "string \<Rightarrow> notReady" where
  "addressPoolExhausted cidr = \<lparr>nr_Status = Pending,
     nr_Message = ''No free address in '' @ cidr,
     nr_Reason = ReasonAddressPoolExhausted,
     nr_ConditionMessage = ''peerCIDR '' @ cidr @ '' has no free address for this peer''\<rparr>"

definition addressConflict :: "string \<Rightarrow> string \<Rightarrow> notReady" where
  "addressConflict addr winner =
     (let msg = ''Address '' @ addr @ '' is held by peer '' @ winner @ ''; waiting for a new address''
      in \<lparr>nr_Status = Pending, nr_Message = msg, nr_Reason = ReasonAddressConflict,
          nr_ConditionMessage = msg\<rparr>)"

definition publicKeyConflict :: "string \<Rightarrow> notReady" where
  "publicKeyConflict winner = \<lparr>nr_Status = Pending,
     nr_Message = ''Public key is held by peer '' @ winner @ ''; waiting for it to be released'',
     nr_Reason = ReasonPublicKeyConflict,
     nr_ConditionMessage = ''spec.publicKey is already held by peer '' @ winner
       @ '' of this Wireguard, so this peer cannot be admitted''\<rparr>"

section \<open>Admission\<close>

text \<open>\<^verbatim>\<open>admissionProblem\<close>; Go's pair of a record and a flag is an option.\<close>

definition admissionProblem :: "'k wgKeys \<Rightarrow> WireguardPeer \<Rightarrow> notReady option" where
  "admissionProblem K peer =
     (let key = publicKey peer in
      if key = [] then Some publicKeyMissing
      else case ParseKey K key of
          None \<Rightarrow> Some invalidPublicKey
        | Some parsed \<Rightarrow> if KeyString K parsed \<noteq> key then Some invalidPublicKey else None)"

definition gatewayKey :: "WireguardPeer \<Rightarrow> NamespacedName" where
  "gatewayKey peer = NamespacedName
     (OrString (spec_WireguardNamespace (peerSpec peer)) (peerNamespace peer))
     (spec_WireguardRef (peerSpec peer))"

definition namespaceNotAllowed :: "Wireguard \<Rightarrow> WireguardPeer \<Rightarrow> notReady option" where
  "namespaceNotAllowed wg peer =
     (let name = wgNamespace wg @ ''/'' @ wgName wg in
      if (case wg_AllowedNamespaces (wgSpec wg) of None \<Rightarrow> True | Some a \<Rightarrow> From a \<noteq> FromSame)
         \<or> peerNamespace peer = wgNamespace wg then None
      else Some \<lparr>nr_Status = Error,
        nr_Message = ''Wireguard '' @ name @ '' does not accept peers from namespace '' @ peerNamespace peer,
        nr_Reason = ReasonNamespaceNotAllowed,
        nr_ConditionMessage = ''Wireguard '' @ name
          @ '' sets spec.allowedNamespaces.from to Same, so it admits only peers in namespace '' @ wgNamespace wg\<rparr>)"

definition validatePeerCIDR :: "string \<Rightarrow> goError option" where
  "validatePeerCIDR cidr =
     (case ParsePrefix cidr of
        Inl e \<Rightarrow> Some (CidrErr PeerCIDRField cidr (NotACIDR e))
      | Inr p \<Rightarrow>
        if \<not> Is4 (pAddr p) then Some (CidrErr PeerCIDRField cidr NotIPv4Prefix)
        else if p \<noteq> Masked p then Some (CidrErr PeerCIDRField cidr (HostBitsSet (Masked p)))
        else if pBits p > 30 then Some (CidrErr PeerCIDRField cidr NoAddressForPeer)
        else None)"

definition addressUsable :: "string \<Rightarrow> string \<Rightarrow> bool" where
  "addressUsable addr cidr =
     (case ParseAddr addr of
        Inl _ \<Rightarrow> False
      | Inr a \<Rightarrow>
        (case ParsePrefix cidr of
           Inl _ \<Rightarrow> False
         | Inr p0 \<Rightarrow> let p = Masked p0 in
             Contains p a \<and> a \<noteq> pAddr p \<and> a \<noteq> Next (pAddr p)))"

section \<open>The state rendered for the agent\<close>

definition renderPeer :: "WireguardPeer \<Rightarrow> WireguardPeer" where
  "renderPeer peer = \<lparr>
     peerMeta = newMeta (peerName peer) (peerNamespace peer),
     peerSpec = \<lparr>spec_PublicKey = publicKey peer,
                 spec_WireguardRef = spec_WireguardRef (peerSpec peer),
                 spec_WireguardNamespace = []\<rparr>,
     peerStatus = emptyPeerStatus\<lparr>st_Address := address peer\<rparr>\<rparr>"

definition desiredState :: "Wireguard \<Rightarrow> string \<Rightarrow> WireguardPeer list \<Rightarrow> State" where
  "desiredState wg privateKey peers =
     (let spec = (wgSpec wg)\<lparr>wg_Gluetun := emptyGluetun\<rparr>;
          rendered = sort_key (\<lambda>p. (peerName p, peerNamespace p)) (map renderPeer peers)
      in \<lparr>Server = \<lparr>wgMeta = newMeta (wgName wg) (wgNamespace wg), wgSpec = spec,
                    wgStatus = emptyWgStatus\<rparr>,
          ServerPrivateKey = privateKey,
          Peers = rendered\<rparr>)"

section \<open>Watch mapping and peer status\<close>

datatype clientObject = PeerObject WireguardPeer | OtherObject

fun wireguardForPeer :: "clientObject \<Rightarrow> NamespacedName list" where
  "wireguardForPeer (PeerObject peer) =
     (if spec_WireguardRef (peerSpec peer) = [] then [] else [gatewayKey peer])"
| "wireguardForPeer OtherObject = []"

definition peerStatusMatches :: "string condOps \<Rightarrow> WireguardPeer \<Rightarrow> notReady \<Rightarrow> bool" where
  "peerStatusMatches C peer nr \<longleftrightarrow>
     (let st = peerStatus peer in
      st_Status st = nr_Status nr \<and> st_Address st = [] \<and> st_Endpoint st = []
      \<and> st_ServerPublicKey st = [] \<and> st_LocalCIDRs st = [] \<and> st_Message st = nr_Message nr
      \<and> (case FindStatusCondition C (st_Conditions st) ConditionReady of
           None \<Rightarrow> False
         | Some c \<Rightarrow> condStatus c = ConditionFalse \<and> condReason c = nr_Reason nr
             \<and> condMessage c = nr_ConditionMessage nr
             \<and> condObservedGeneration c = Generation (peerMeta peer)))"

definition skipPeerWrite :: "apiError \<Rightarrow> bool" where
  "skipPeerWrite e \<longleftrightarrow> e = Conflict \<or> e = NotFound"

section \<open>Peers that share a value\<close>

record conflictLoser =
  loserPeer :: WireguardPeer
  loserWinner :: string

text \<open>\<^verbatim>\<open>cmp.Compare\<close> and \<^verbatim>\<open>cmp.Or\<close> on its results.\<close>

definition cmpCompare :: "'a::linorder \<Rightarrow> 'a \<Rightarrow> int" where
  "cmpCompare a b = (if a < b then -1 else if a = b then 0 else 1)"

definition cmpOr :: "int \<Rightarrow> int \<Rightarrow> int" where
  "cmpOr a b = (if a \<noteq> 0 then a else b)"

definition older :: "WireguardPeer \<Rightarrow> WireguardPeer \<Rightarrow> bool" where
  "older a b \<longleftrightarrow>
     cmpOr (cmpCompare (CreationTimestamp (peerMeta a)) (CreationTimestamp (peerMeta b)))
       (cmpOr (cmpCompare (peerName a) (peerName b))
              (cmpCompare (peerNamespace a) (peerNamespace b))) < 0"

text \<open>
  The two loops that \<^verbatim>\<open>dedupeAddresses\<close> and \<^verbatim>\<open>dedupePublicKeys\<close> share. The map \<open>holder\<close> holds pointers
  into the slice, which are indices here: \<^verbatim>\<open>h == p\<close> compares indices.
\<close>

definition holderStep ::
    "(WireguardPeer \<Rightarrow> string) \<Rightarrow> (WireguardPeer \<Rightarrow> WireguardPeer \<Rightarrow> bool) \<Rightarrow> WireguardPeer list
     \<Rightarrow> (string \<rightharpoonup> nat) \<Rightarrow> nat \<Rightarrow> (string \<rightharpoonup> nat)" where
  "holderStep key beats peers holder i =
     (let p = peers ! i in
      if key p \<noteq> [] \<and> (case holder (key p) of None \<Rightarrow> True | Some h \<Rightarrow> beats p (peers ! h))
      then holder(key p \<mapsto> i) else holder)"

definition holders ::
    "(WireguardPeer \<Rightarrow> string) \<Rightarrow> (WireguardPeer \<Rightarrow> WireguardPeer \<Rightarrow> bool) \<Rightarrow> WireguardPeer list
     \<Rightarrow> (string \<rightharpoonup> nat)" where
  "holders key beats peers = foldl (holderStep key beats peers) Map.empty [0..<length peers]"

definition keeps :: "(WireguardPeer \<Rightarrow> string) \<Rightarrow> WireguardPeer list \<Rightarrow> (string \<rightharpoonup> nat) \<Rightarrow> nat \<Rightarrow> bool" where
  "keeps key peers holder i \<longleftrightarrow>
     (case holder (key (peers ! i)) of None \<Rightarrow> True | Some h \<Rightarrow> h = i)"

definition splitHolders ::
    "(WireguardPeer \<Rightarrow> string) \<Rightarrow> WireguardPeer list \<Rightarrow> (string \<rightharpoonup> nat)
     \<Rightarrow> WireguardPeer list \<times> conflictLoser list" where
  "splitHolders key peers holder =
     (map (\<lambda>i. peers ! i) (filter (keeps key peers holder) [0..<length peers]),
      map (\<lambda>i. \<lparr>loserPeer = peers ! i,
                loserWinner = nnString (peerKey (peers ! the (holder (key (peers ! i)))))\<rparr>)
        (filter (\<lambda>i. \<not> keeps key peers holder i) [0..<length peers]))"

definition dedupeAddresses :: "WireguardPeer list \<Rightarrow> WireguardPeer list \<times> conflictLoser list" where
  "dedupeAddresses peers = splitHolders address peers (holders address older peers)"

definition listed :: "(NamespacedName \<rightharpoonup> string) \<Rightarrow> WireguardPeer \<Rightarrow> bool" where
  "listed current p \<longleftrightarrow> (case current (peerKey p) of None \<Rightarrow> [] | Some k \<Rightarrow> k) = publicKey p"

definition beatsKey :: "(NamespacedName \<rightharpoonup> string) \<Rightarrow> WireguardPeer \<Rightarrow> WireguardPeer \<Rightarrow> bool" where
  "beatsKey current a b =
     (if listed current a \<noteq> listed current b then listed current a else older a b)"

definition dedupePublicKeys ::
    "WireguardPeer list \<Rightarrow> (NamespacedName \<rightharpoonup> string) \<Rightarrow> WireguardPeer list \<times> conflictLoser list" where
  "dedupePublicKeys peers current =
     splitHolders publicKey peers (holders publicKey (beatsKey current) peers)"

section \<open>The dedupe contract\<close>

text \<open>
  What the two dedupe functions rely on: the order that decides between two holders is a strict
  order by a rank. The lemmas hold for both.
\<close>

definition bestUpTo ::
    "(WireguardPeer \<Rightarrow> string) \<Rightarrow> (WireguardPeer \<Rightarrow> 'r::linorder) \<Rightarrow> WireguardPeer list \<Rightarrow> nat
     \<Rightarrow> string \<Rightarrow> nat \<Rightarrow> bool" where
  "bestUpTo key rank peers n k h \<longleftrightarrow> h < n \<and> k \<noteq> [] \<and> key (peers ! h) = k
     \<and> (\<forall>i < n. key (peers ! i) = k \<longrightarrow> (rank (peers ! h), h) \<le> (rank (peers ! i), i))"

locale dedupe =
  fixes key :: "WireguardPeer \<Rightarrow> string"
    and beats :: "WireguardPeer \<Rightarrow> WireguardPeer \<Rightarrow> bool"
    and rank :: "WireguardPeer \<Rightarrow> 'r::linorder"
  assumes beats_rank: "beats a b \<longleftrightarrow> rank a < rank b"
begin

lemma holders_upTo:
  "(case foldl (holderStep key beats peers) Map.empty [0..<n] k of
      None \<Rightarrow> k = [] \<or> (\<forall>i < n. key (peers ! i) \<noteq> k)
    | Some h \<Rightarrow> bestUpTo key rank peers n k h)"
proof (induction n arbitrary: k)
  case 0
  show ?case by simp
next
  case (Suc n)
  let ?m = "foldl (holderStep key beats peers) Map.empty [0..<n]"
  let ?p = "peers ! n"
  have fold: "foldl (holderStep key beats peers) Map.empty [0..<Suc n] = holderStep key beats peers ?m n"
    by simp
  have IH: "case ?m k of None \<Rightarrow> k = [] \<or> (\<forall>i < n. key (peers ! i) \<noteq> k)
    | Some h \<Rightarrow> bestUpTo key rank peers n k h" by (rule Suc.IH)
  show ?case
  proof (cases "key ?p = k \<and> k \<noteq> []")
    case False
    then have "holderStep key beats peers ?m n k = ?m k"
      by (auto simp: holderStep_def Let_def)
    then show ?thesis
      unfolding fold using IH False by (auto simp: bestUpTo_def less_Suc_eq split: option.splits)
  next
    case True
    show ?thesis
    proof (cases "?m k")
      case None
      then show ?thesis
        unfolding fold using IH True
        by (auto simp: holderStep_def Let_def bestUpTo_def less_Suc_eq)
    next
      case (Some h)
      then show ?thesis
        unfolding fold using IH True
        by (auto simp: holderStep_def Let_def bestUpTo_def less_Suc_eq beats_rank not_less
            intro: order.trans less_imp_le)
    qed
  qed
qed

lemma holders_None: "holders key beats peers k = None \<Longrightarrow> k = [] \<or> (\<forall>p \<in> set peers. key p \<noteq> k)"
  using holders_upTo [where peers = peers and n = "length peers" and k = k]
  by (auto simp: holders_def in_set_conv_nth)

lemma holders_Some: "holders key beats peers k = Some h \<Longrightarrow> bestUpTo key rank peers (length peers) k h"
  using holders_upTo [where peers = peers and n = "length peers" and k = k] by (simp add: holders_def)

lemma holders_kept:
  "holders key beats peers k = Some h \<Longrightarrow> keeps key peers (holders key beats peers) h"
  using holders_Some [of peers k h] by (auto simp: keeps_def bestUpTo_def)

lemma keep_iff:
  "p \<in> set (fst (splitHolders key peers (holders key beats peers))) \<longleftrightarrow>
   (\<exists>i < length peers. p = peers ! i \<and> keeps key peers (holders key beats peers) i)"
  by (auto simp: splitHolders_def)

lemma keep_without_key:
  assumes "p \<in> set peers" and "key p = []"
  shows "p \<in> set (fst (splitHolders key peers (holders key beats peers)))"
proof -
  obtain i where "i < length peers" "p = peers ! i"
    using assms(1) by (auto simp: in_set_conv_nth)
  moreover have "holders key beats peers [] = None"
    using holders_Some [of peers "[]"] by (cases "holders key beats peers []") (auto simp: bestUpTo_def)
  ultimately show ?thesis using assms(2) by (auto simp: keep_iff keeps_def)
qed

lemma keep_distinct:
  "distinct (map key (filter (\<lambda>p. key p \<noteq> []) (fst (splitHolders key peers (holders key beats peers)))))"
proof -
  let ?H = "holders key beats peers"
  let ?is = "filter (\<lambda>i. key (peers ! i) \<noteq> []) (filter (keeps key peers ?H) [0..<length peers])"
  have "map key (filter (\<lambda>p. key p \<noteq> []) (fst (splitHolders key peers ?H)))
      = map (\<lambda>i. key (peers ! i)) ?is"
    by (simp add: splitHolders_def filter_map comp_def)
  moreover have "inj_on (\<lambda>i. key (peers ! i)) (set ?is)"
  proof (rule inj_onI)
    fix i j
    assume i: "i \<in> set ?is" and j: "j \<in> set ?is" and eq: "key (peers ! i) = key (peers ! j)"
    have "?H (key (peers ! i)) \<noteq> None"
      using i holders_None [of peers "key (peers ! i)"] nth_mem [of i peers] by fastforce
    then show "i = j" using i j eq by (auto simp: keeps_def split: option.splits)
  qed
  ultimately show ?thesis by (simp add: distinct_map)
qed

lemma best_kept:
  assumes "p \<in> set peers" and "\<And>q. q \<in> set peers \<Longrightarrow> key q = key p \<Longrightarrow> q \<noteq> p \<Longrightarrow> rank p < rank q"
  shows "p \<in> set (fst (splitHolders key peers (holders key beats peers)))"
proof (cases "holders key beats peers (key p)")
  case None
  moreover obtain i where "i < length peers" "p = peers ! i"
    using assms(1) by (auto simp: in_set_conv_nth)
  ultimately show ?thesis by (auto simp: keep_iff keeps_def)
next
  case (Some h)
  then have h: "h < length peers" "key (peers ! h) = key p" 
    and best: "\<forall>i < length peers. key (peers ! i) = key p \<longrightarrow> (rank (peers ! h), h) \<le> (rank (peers ! i), i)"
    using holders_Some by (auto simp: bestUpTo_def)
  have "peers ! h = p"
  proof (rule ccontr)
    assume "peers ! h \<noteq> p"
    then have "rank p < rank (peers ! h)" using assms(2) h by simp
    moreover obtain i where "i < length peers" "peers ! i = p"
      using assms(1) by (auto simp: in_set_conv_nth)
    ultimately show False using best by auto
  qed
  then show ?thesis using h holders_kept [OF Some] by (auto simp: keep_iff)
qed

lemma loser_winner:
  assumes "l \<in> set (snd (splitHolders key peers (holders key beats peers)))"
  obtains w where "w \<in> set (fst (splitHolders key peers (holders key beats peers)))"
    "key w = key (loserPeer l)" "key w \<noteq> []" "loserPeer l \<in> set peers"
    "loserWinner l = nnString (peerKey w)" "rank w \<le> rank (loserPeer l)"
proof -
  let ?H = "holders key beats peers"
  obtain i where i: "i < length peers" "\<not> keeps key peers ?H i"
    and l: "loserPeer l = peers ! i" "loserWinner l = nnString (peerKey (peers ! the (?H (key (peers ! i)))))"
    using assms by (auto simp: splitHolders_def)
  obtain h where h: "?H (key (peers ! i)) = Some h"
    using i(2) by (auto simp: keeps_def split: option.splits)
  have "bestUpTo key rank peers (length peers) (key (peers ! i)) h" by (rule holders_Some [OF h])
  then have "h < length peers" "key (peers ! h) = key (peers ! i)" "key (peers ! i) \<noteq> []"
    "rank (peers ! h) \<le> rank (peers ! i)"
    using i(1) by (auto simp: bestUpTo_def)
  moreover have "peers ! h \<in> set (fst (splitHolders key peers ?H))"
    using \<open>h < length peers\<close> holders_kept [OF h] by (auto simp: keep_iff)
  ultimately show thesis using that [of "peers ! h"] l h i(1) by simp
qed

end

lemma split_partition:
  "mset (fst (splitHolders key peers H)) + mset (map loserPeer (snd (splitHolders key peers H))) = mset peers"
proof -
  let ?f = "\<lambda>i. peers ! i"
  have "mset (filter (keeps key peers H) xs) + mset (filter (\<lambda>i. \<not> keeps key peers H i) xs) = mset xs"
    for xs by (metis mset_filter multiset_partition)
  then have "image_mset ?f (mset [0..<length peers]) =
    image_mset ?f (mset (filter (keeps key peers H) [0..<length peers]))
    + image_mset ?f (mset (filter (\<lambda>i. \<not> keeps key peers H i) [0..<length peers]))"
    by (metis image_mset_union)
  moreover have "image_mset ?f (mset [0..<length peers]) = mset peers"
    by (metis map_nth mset_map)
  ultimately show ?thesis by (simp add: splitHolders_def comp_def)
qed

section \<open>The two rankings\<close>

definition ageRank :: "WireguardPeer \<Rightarrow> int \<times> string \<times> string" where
  "ageRank p = (CreationTimestamp (peerMeta p), peerName p, peerNamespace p)"

lemma older_rank: "older a b \<longleftrightarrow> ageRank a < ageRank b"
  by (auto simp: older_def cmpOr_def cmpCompare_def ageRank_def split: if_splits)

definition keyRank :: "(NamespacedName \<rightharpoonup> string) \<Rightarrow> WireguardPeer \<Rightarrow> bool \<times> int \<times> string \<times> string" where
  "keyRank current p = (\<not> listed current p, ageRank p)"

lemma beatsKey_rank: "beatsKey current a b \<longleftrightarrow> keyRank current a < keyRank current b"
  by (auto simp: beatsKey_def keyRank_def older_rank)

interpretation addr: dedupe address older ageRank
  by unfold_locales (rule older_rank)

interpretation pkey: dedupe publicKey "beatsKey current" "keyRank current" for current
  by unfold_locales (rule beatsKey_rank)

section \<open>Admission, ranges and addresses\<close>

lemma admissionProblem_None:
  "admissionProblem K p = None \<longleftrightarrow> publicKey p \<noteq> [] \<and> canonicalKey K (publicKey p)"
  by (auto simp: admissionProblem_def Let_def canonicalKey_def split: option.splits)

text \<open>What \<^verbatim>\<open>validatePeerCIDR\<close> accepts: a network of at least four addresses, spelled canonically.\<close>

lemma validatePeerCIDR_None:
  assumes "validatePeerCIDR cidr = None"
  obtains w n where "cidr = cidr4 w n" "n \<le> 30" "net4 w n = w"
proof -
  obtain p where p: "ParsePrefix cidr = Inr p" and is4: "Is4 (pAddr p)" and m: "p = Masked p"
    and bits: "\<not> pBits p > 30"
    using assms by (auto simp: validatePeerCIDR_def split: sum.splits if_splits)
  obtain w n where "p = Prefix (Addr4 w) (int n)" "n \<le> 32" "cidr = cidr4 w n"
    using ParsePrefix_4 [OF p is4] by blast
  with m bits show thesis using that [of w n] by simp
qed

lemma validatePeerCIDR_cidr4:
  "n \<le> 30 \<Longrightarrow> net4 w n = w \<Longrightarrow> validatePeerCIDR (cidr4 w n) = None"
  by (simp add: validatePeerCIDR_def)

lemma power_30: "n \<le> 30 \<Longrightarrow> (4::nat) \<le> 2 ^ (32 - n)"
  using power_increasing [of 2 "32 - n" "2::nat"] by simp

lemma Next_network:
  assumes "n \<le> 30"
  shows "Next (Addr4 (net4 w n)) = Addr4 (net4 w n + of_nat 1)"
    "Next (Addr4 (net4 w n + of_nat 1)) = Addr4 (net4 w n + of_nat 2)"
  using Next_net4 [of 0 n w] Next_net4 [of 1 n w] power_30 [OF assms]
  by (simp_all del: Next.simps)

text \<open>The usable addresses of a range: from the third address on.\<close>

lemma net4_idem [simp]: "net4 (net4 w n) n = net4 w n"
  by (simp add: and.assoc)

lemma Contains_masked: "n \<le> 32 \<Longrightarrow>
  Contains (Prefix (Addr4 (net4 w n)) (int n)) (Addr4 v) \<longleftrightarrow> Contains (Prefix (Addr4 w) (int n)) (Addr4 v)"
  by (simp add: Contains_net4)

lemma addressUsable_cidr4:
  assumes "n \<le> 30"
  shows "addressUsable a (cidr4 w n) \<longleftrightarrow>
    (\<exists>k. 2 \<le> k \<and> k < 2 ^ (32 - n) \<and> a = string4 (net4 w n + of_nat k))" (is "?l \<longleftrightarrow> ?r")
proof -
  let ?N = "2 ^ (32 - n) :: nat"
  have N: "4 \<le> ?N" by (rule power_30 [OF assms])
  have n: "n \<le> 32" using assms by simp
  have "?l \<longleftrightarrow> (\<exists>x. ParseAddr a = Inr x \<and> Contains (Prefix (Addr4 (net4 w n)) (int n)) x
      \<and> x \<noteq> Addr4 (net4 w n + of_nat 0) \<and> x \<noteq> Addr4 (net4 w n + of_nat 1))"
    using n Next_network(1) [OF assms, of w]
    by (auto simp: addressUsable_def Let_def simp del: Next.simps split: sum.splits)
  also have "\<dots> \<longleftrightarrow> ?r"
  proof
    assume "\<exists>x. ParseAddr a = Inr x \<and> Contains (Prefix (Addr4 (net4 w n)) (int n)) x
      \<and> x \<noteq> Addr4 (net4 w n + of_nat 0) \<and> x \<noteq> Addr4 (net4 w n + of_nat 1)"
    then obtain v where v: "a = string4 v" "Contains (Prefix (Addr4 w) (int n)) (Addr4 v)"
      "v \<noteq> net4 w n + of_nat 0" "v \<noteq> net4 w n + of_nat 1"
      using Contains_only_4 ParseAddr_canonical n by (metis Contains_masked)
    obtain k where k: "k < ?N" "v = net4 w n + of_nat k"
      using Contains_enum [OF n v(2)] by blast
    have "k \<noteq> 0" using v(3) k(2) by (intro notI) simp
    moreover have "k \<noteq> 1" using v(4) k(2) by (intro notI) simp
    ultimately have "2 \<le> k" by simp
    then show ?r using k v(1) by blast
  next
    assume ?r
    then obtain k where k: "2 \<le> k" "k < ?N" "a = string4 (net4 w n + of_nat k)" by blast
    then show "\<exists>x. ParseAddr a = Inr x \<and> Contains (Prefix (Addr4 (net4 w n)) (int n)) x
      \<and> x \<noteq> Addr4 (net4 w n + of_nat 0) \<and> x \<noteq> Addr4 (net4 w n + of_nat 1)"
      using n N net4_plus_inject [of k n 0 w] net4_plus_inject [of k n 1 w]
        Contains_net4_plus [OF n k(2), of w]
      by (intro exI [of _ "Addr4 (net4 w n + of_nat k)"]) (auto simp: Contains_masked)
  qed
  finally show ?thesis .
qed

lemma addressUsable_nonempty: "addressUsable a cidr \<Longrightarrow> a \<noteq> []"
  by (auto simp: addressUsable_def ParseAddr_def)

section \<open>The allocator's contract\<close>

text \<open>
  What the reconciler relies on when it allocates addresses. \<open>allocator\<close> holds of the allocator
  with any generator; \<open>pool_allocator\<close> adds what needs the generator's own contract: in a valid
  range an allocated address is usable, and an error means that every usable address is taken.
\<close>

locale allocator =
  fixes alloc :: "string \<Rightarrow> string list \<Rightarrow> 'e + string"
    and usedOf :: "string \<Rightarrow> WireguardPeer list \<Rightarrow> string list"
  assumes alloc_fresh: "alloc cidr used = Inr ip \<Longrightarrow> ip \<notin> set used"
    and used_covers: "p \<in> set peers \<Longrightarrow> address p \<noteq> [] \<Longrightarrow> address p \<in> set (usedOf cidr peers)"

locale pool_allocator = allocator +
  assumes alloc_usable: "validatePeerCIDR cidr = None \<Longrightarrow> set (usedOf cidr peers) \<subseteq> set used \<Longrightarrow>
      alloc cidr used = Inr ip \<Longrightarrow> addressUsable ip cidr"
    and alloc_total: "validatePeerCIDR cidr = None \<Longrightarrow> addressUsable ip cidr \<Longrightarrow> ip \<notin> set used \<Longrightarrow>
      \<exists>ip'. alloc cidr used = Inr ip'"

interpretation ipam: allocator "AllocateIP gen" GetUsedIPs for gen
  by unfold_locales (auto intro: GetUsedIPs_covers dest: AllocateIP_fresh)

lemma AllocateIP_usable:
  assumes gen: "genLaw gen" and valid: "validatePeerCIDR cidr = None"
    and used: "set (GetUsedIPs cidr peers) \<subseteq> set used" and ip: "AllocateIP gen cidr used = Inr ip"
  shows "addressUsable ip cidr"
proof -
  obtain w n where c: "cidr = cidr4 w n" "n \<le> 30" using validatePeerCIDR_None [OF valid] by blast
  obtain k where k: "k < 2 ^ (32 - n)" "ip = string4 (net4 w n + of_nat k)" "ip \<notin> set used"
    using ip c AllocateIP_4 [OF gen, of n w used ip] by auto
  have "{string4 (net4 w n + of_nat 0), string4 (net4 w n + of_nat 1)} \<subseteq> set used"
    using used c deriveReservedIPs_4 [of n w] by (simp add: GetUsedIPs_def)
  then have "k \<noteq> 0" "k \<noteq> 1" using k(2,3) by (metis insertCI subsetD)+
  then have "2 \<le> k" by simp
  then show ?thesis using addressUsable_cidr4 [OF c(2), of ip w] c(1) k(1,2) by blast
qed

lemma AllocateIP_total:
  assumes gen: "genLaw gen" and valid: "validatePeerCIDR cidr = None"
    and free: "addressUsable ip cidr" "ip \<notin> set used"
  shows "\<exists>ip'. AllocateIP gen cidr used = Inr ip'"
proof -
  obtain w n where c: "cidr = cidr4 w n" "n \<le> 30" using validatePeerCIDR_None [OF valid] by blast
  obtain k where "k < 2 ^ (32 - n)" "ip = string4 (net4 w n + of_nat k)"
    using free(1) addressUsable_cidr4 [OF c(2), of ip w] c(1) by auto
  then have "\<nexists>e. AllocateIP gen cidr used = Inl e"
    using AllocateIP_error_4 [OF gen, of n w used] c free(2) by auto
  then show ?thesis by (cases "AllocateIP gen cidr used") auto
qed

lemma pool_allocator_gen: "genLaw gen \<Longrightarrow> pool_allocator (AllocateIP gen) GetUsedIPs"
  by unfold_locales (blast intro: AllocateIP_usable AllocateIP_total)+

interpretation pool: pool_allocator "AllocateIP prefixGen" GetUsedIPs
  by (rule pool_allocator_gen [OF genLaw_prefixGen])

section \<open>Properties\<close>

lemma reserved_unusable:
  assumes "validatePeerCIDR cidr = None" and "ip \<in> set (deriveReservedIPs cidr)"
  shows "\<not> addressUsable ip cidr"
proof -
  obtain w n where c: "cidr = cidr4 w n" "n \<le> 30" using validatePeerCIDR_None [OF assms(1)] by blast
  then have "ip = string4 (net4 w n + of_nat 0) \<or> ip = string4 (net4 w n + of_nat 1)"
    using assms(2) deriveReservedIPs_4 [of n w] by auto
  then have "\<exists>j < 2 :: nat. ip = string4 (net4 w n + of_nat j)"
    by (elim disjE) (rule exI, rule conjI [rotated], assumption, simp)+
  then obtain j :: nat where j: "j < 2" "ip = string4 (net4 w n + of_nat j)" by blast
  show ?thesis
  proof
    assume "addressUsable ip cidr"
    then obtain k where k: "2 \<le> k" "k < 2 ^ (32 - n)" "ip = string4 (net4 w n + of_nat k)"
      unfolding c(1) addressUsable_cidr4 [OF c(2)] by blast
    then show False
      using j net4_plus_inject [of k n j w] power_30 [OF c(2)] by simp
  qed
qed

text \<open>
  C8. No peer can take over a key by editing its own: whatever the ages, when exactly one contender
  for a key is listed under it in the server's current state, that peer keeps the key, and every
  other peer with the key is refused in its favour.
\<close>

theorem listed_key_kept:
  assumes "p \<in> set peers" and "publicKey p \<noteq> []" and "listed current p"
    and "\<And>q. q \<in> set peers \<Longrightarrow> q \<noteq> p \<Longrightarrow> publicKey q = publicKey p \<Longrightarrow> \<not> listed current q"
  shows "p \<in> set (fst (dedupePublicKeys peers current))
    \<and> (\<forall>l \<in> set (snd (dedupePublicKeys peers current)).
         publicKey (loserPeer l) = publicKey p \<longrightarrow> loserWinner l = nnString (peerKey p))"
proof -
  let ?keep = "fst (dedupePublicKeys peers current)"
  have p: "p \<in> set ?keep"
    unfolding dedupePublicKeys_def
    by (rule pkey.best_kept [OF assms(1)]) (use assms in \<open>auto simp: keyRank_def\<close>)
  have "loserWinner l = nnString (peerKey p)"
    if "l \<in> set (snd (dedupePublicKeys peers current))" "publicKey (loserPeer l) = publicKey p" for l
    using that(1) unfolding dedupePublicKeys_def
  proof (rule pkey.loser_winner)
    fix w
    assume "w \<in> set (fst (splitHolders publicKey peers (holders publicKey (beatsKey current) peers)))"
      "publicKey w = publicKey (loserPeer l)" "loserWinner l = nnString (peerKey w)"
    moreover from this have "w = p"
      using p assms(2) that(2) pkey.keep_distinct [of peers current]
      by (auto simp: dedupePublicKeys_def distinct_map dest: inj_onD)
    ultimately show ?thesis by simp
  qed
  then show ?thesis using p by blast
qed

definition examplePeer :: "string \<Rightarrow> string \<Rightarrow> int \<Rightarrow> string \<Rightarrow> WireguardPeer" where
  "examplePeer name key created addr = \<lparr>peerMeta = (newMeta name ''vpn'')\<lparr>CreationTimestamp := created\<rparr>,
     peerSpec = \<lparr>spec_PublicKey = key, spec_WireguardRef = ''gw'', spec_WireguardNamespace = []\<rparr>,
     peerStatus = emptyPeerStatus\<lparr>st_Address := addr\<rparr>\<rparr>"

text \<open>A peer three years younger keeps its key against an old peer that edits its spec.\<close>

theorem listed_key_kept_witness:
  "examplePeer ''victim'' ''K'' 300 [] \<in> set (fst (dedupePublicKeys
     [examplePeer ''thief'' ''K'' 1 [], examplePeer ''victim'' ''K'' 300 []]
     [NamespacedName ''vpn'' ''victim'' \<mapsto> ''K'', NamespacedName ''vpn'' ''thief'' \<mapsto> ''L'']))"
  using listed_key_kept [of "examplePeer ''victim'' ''K'' 300 []"
      "[examplePeer ''thief'' ''K'' 1 [], examplePeer ''victim'' ''K'' 300 []]"
      "[NamespacedName ''vpn'' ''victim'' \<mapsto> ''K'', NamespacedName ''vpn'' ''thief'' \<mapsto> ''L'']"]
  by (simp add: examplePeer_def listed_def metaKey_def)

text \<open>
  Deduplication by public key loses and invents no peer: the kept peers and the losers are the
  input. No two kept peers share a key, and every loser names a kept peer that holds its key and
  ranks before it.
\<close>

theorem dedupePublicKeys_correct:
  fixes peers current
  defines "d \<equiv> dedupePublicKeys peers current"
  shows "mset (fst d) + mset (map loserPeer (snd d)) = mset peers
    \<and> distinct (map publicKey (filter (\<lambda>p. publicKey p \<noteq> []) (fst d)))
    \<and> (\<forall>l \<in> set (snd d). \<exists>w \<in> set (fst d). publicKey w = publicKey (loserPeer l)
         \<and> loserWinner l = nnString (peerKey w) \<and> \<not> beatsKey current (loserPeer l) w)"
proof (intro conjI ballI)
  show "mset (fst d) + mset (map loserPeer (snd d)) = mset peers"
    unfolding d_def dedupePublicKeys_def by (rule split_partition)
  show "distinct (map publicKey (filter (\<lambda>p. publicKey p \<noteq> []) (fst d)))"
    unfolding d_def dedupePublicKeys_def by (rule pkey.keep_distinct)
  fix l assume "l \<in> set (snd d)"
  then show "\<exists>w \<in> set (fst d). publicKey w = publicKey (loserPeer l)
      \<and> loserWinner l = nnString (peerKey w) \<and> \<not> beatsKey current (loserPeer l) w"
    unfolding d_def dedupePublicKeys_def
    by (rule pkey.loser_winner) (auto simp: beatsKey_rank not_less)
qed

theorem dedupePublicKeys_correct_witness:
  "list_all (\<lambda>l. loserWinner l = ''vpn/a'')
     (snd (dedupePublicKeys [examplePeer ''b'' ''K'' 2 [], examplePeer ''a'' ''K'' 1 []] Map.empty))"
proof -
  let ?d = "dedupePublicKeys [examplePeer ''b'' ''K'' 2 [], examplePeer ''a'' ''K'' 1 []] Map.empty"
  have "map (\<lambda>p. nnString (peerKey p)) (fst ?d) = [''vpn/a'']" by code_simp
  then have "nnString (peerKey w) = ''vpn/a''" if "w \<in> set (fst ?d)" for w
    using that by (cases "fst ?d") auto
  then show ?thesis
    using dedupePublicKeys_correct [of "[examplePeer ''b'' ''K'' 2 [], examplePeer ''a'' ''K'' 1 []]" Map.empty]
    unfolding list_all_iff by metis
qed

text \<open>
  Deduplication by address loses and invents no peer, leaves no two peers at one address, keeps
  every peer without an address, and every loser names a kept peer at its address that it is not
  older than.
\<close>

theorem dedupeAddresses_correct:
  fixes peers
  defines "d \<equiv> dedupeAddresses peers"
  shows "mset (fst d) + mset (map loserPeer (snd d)) = mset peers
    \<and> distinct (map address (filter (\<lambda>p. address p \<noteq> []) (fst d)))
    \<and> (\<forall>p \<in> set peers. address p = [] \<longrightarrow> p \<in> set (fst d))
    \<and> (\<forall>l \<in> set (snd d). \<exists>w \<in> set (fst d). address w = address (loserPeer l)
         \<and> loserWinner l = nnString (peerKey w) \<and> \<not> older (loserPeer l) w)"
proof (intro conjI ballI impI)
  show "mset (fst d) + mset (map loserPeer (snd d)) = mset peers"
    unfolding d_def dedupeAddresses_def by (rule split_partition)
  show "distinct (map address (filter (\<lambda>p. address p \<noteq> []) (fst d)))"
    unfolding d_def dedupeAddresses_def by (rule addr.keep_distinct)
  show "p \<in> set (fst d)" if "p \<in> set peers" "address p = []" for p
    unfolding d_def dedupeAddresses_def using that by (rule addr.keep_without_key)
  fix l assume "l \<in> set (snd d)"
  then show "\<exists>w \<in> set (fst d). address w = address (loserPeer l)
      \<and> loserWinner l = nnString (peerKey w) \<and> \<not> older (loserPeer l) w"
    unfolding d_def dedupeAddresses_def
    by (rule addr.loser_winner) (auto simp: older_rank not_less)
qed

theorem dedupeAddresses_correct_witness:
  "list_all (\<lambda>l. loserWinner l = ''vpn/a'')
     (snd (dedupeAddresses [examplePeer ''b'' ''K'' 2 ''10.8.0.2'', examplePeer ''a'' ''L'' 1 ''10.8.0.2'']))"
proof -
  let ?d = "dedupeAddresses [examplePeer ''b'' ''K'' 2 ''10.8.0.2'', examplePeer ''a'' ''L'' 1 ''10.8.0.2'']"
  have "map (\<lambda>p. nnString (peerKey p)) (fst ?d) = [''vpn/a'']" by code_simp
  then have "nnString (peerKey w) = ''vpn/a''" if "w \<in> set (fst ?d)" for w
    using that by (cases "fst ?d") auto
  then show ?thesis
    using dedupeAddresses_correct [of "[examplePeer ''b'' ''K'' 2 ''10.8.0.2'', examplePeer ''a'' ''L'' 1 ''10.8.0.2'']"]
    unfolding list_all_iff by metis
qed

text \<open>
  C9. In a range that \<^verbatim>\<open>validatePeerCIDR\<close> accepts, the allocator hands out a usable address, neither
  the network nor the gateway address, that no peer holds, and it fails only when every usable address
  is held by a peer.
\<close>

theorem AllocateIP_correct:
  assumes "genLaw gen" and "validatePeerCIDR cidr = None"
  shows "case AllocateIP gen cidr (GetUsedIPs cidr peers) of
      Inr ip \<Rightarrow> addressUsable ip cidr \<and> ip \<notin> address ` set peers
    | Inl _ \<Rightarrow> \<forall>ip. addressUsable ip cidr \<longrightarrow> ip \<in> address ` set peers"
proof (cases "AllocateIP gen cidr (GetUsedIPs cidr peers)")
  case (Inr ip)
  have "addressUsable ip cidr" by (rule AllocateIP_usable [OF assms order.refl Inr])
  moreover have "ip \<notin> set (GetUsedIPs cidr peers)" by (rule ipam.alloc_fresh [OF Inr])
  ultimately show ?thesis using Inr addressUsable_nonempty [of ip cidr] GetUsedIPs_covers by fastforce
next
  case (Inl e)
  obtain w n where c: "cidr = cidr4 w n" "n \<le> 30" using validatePeerCIDR_None [OF assms(2)] by blast
  have "ip \<in> address ` set peers" if u: "addressUsable ip cidr" for ip
  proof -
    have "ip \<in> set (GetUsedIPs cidr peers)"
      using AllocateIP_total [OF assms u] Inl by fastforce
    moreover have "ip \<notin> set (deriveReservedIPs cidr)"
      using u reserved_unusable [OF assms(2)] by blast
    ultimately show ?thesis by (auto simp: GetUsedIPs_def)
  qed
  then show ?thesis using Inl by simp
qed

theorem AllocateIP_correct_witness:
  "AllocateIP prefixGen ''10.9.0.0/30'' (GetUsedIPs ''10.9.0.0/30'' [examplePeer ''a'' ''K'' 1 ''10.9.0.2'']) = Inr ''10.9.0.3''
   \<and> addressUsable ''10.9.0.3'' ''10.9.0.0/30''"
proof -
  have 1: "AllocateIP prefixGen ''10.9.0.0/30'' (GetUsedIPs ''10.9.0.0/30'' [examplePeer ''a'' ''K'' 1 ''10.9.0.2'']) = Inr ''10.9.0.3''"
    by code_simp
  have "validatePeerCIDR ''10.9.0.0/30'' = None" by code_simp
  from AllocateIP_correct [OF genLaw_prefixGen this, of "[examplePeer ''a'' ''K'' 1 ''10.9.0.2'']"] 1
  show ?thesis by simp
qed

text \<open>
  The rendered state depends only on which peers are admitted and on their rendered fields: it is
  the same for any order the API server lists them in and for any change to the other fields of their
  status, and it carries no gluetun configuration.
\<close>

theorem desiredState_stable:
  assumes "distinct (map peerKey ps)" and "mset (map renderPeer ps) = mset (map renderPeer qs)"
  shows "desiredState wg priv ps = desiredState wg priv qs
    \<and> wg_Gluetun (wgSpec (Server (desiredState wg priv ps))) = emptyGluetun"
proof -
  let ?f = "\<lambda>p. (peerName p, peerNamespace p)"
  let ?ps = "map renderPeer ps" and ?qs = "map renderPeer qs"
  have "map ?f ?ps = map (\<lambda>k. (nnName k, nnNamespace k)) (map peerKey ps)"
    by (simp add: renderPeer_def metaKey_def)
  then have d: "distinct (map ?f ?ps)"
    using assms(1) by (simp add: distinct_map inj_on_def NamespacedName.expand)
  then have "distinct (map ?f ?qs)"
    using assms(2) by (metis mset_eq_imp_distinct_iff mset_map)
  moreover have "set ?ps = set ?qs" using assms(2) by (metis mset_eq_setD)
  moreover have "inj_on ?f (set ?ps)" by (rule conjunct2 [OF iffD1 [OF distinct_map d]])
  moreover have "distinct (map ?f (sort_key ?f xs)) \<longleftrightarrow> distinct (map ?f xs)" for xs
    by (rule mset_eq_imp_distinct_iff) (simp only: mset_map mset_sort)
  ultimately have "sort_key ?f ?ps = sort_key ?f ?qs"
    using d by (intro map_sorted_distinct_set_unique [where f = ?f]) (simp_all del: map_map set_map)
  then show ?thesis by (simp add: desiredState_def Let_def)
qed

theorem desiredState_stable_witness:
  "map peerName (Peers (desiredState \<lparr>wgMeta = newMeta ''gw'' ''vpn'', wgSpec = \<lparr>wg_PeerCIDR = [], wg_LocalCIDRs = [],
        wg_Gluetun = emptyGluetun, wg_NodeSelector = Map.empty, wg_Tolerations = [],
        wg_AgentResources = emptyResources, wg_AllowedNamespaces = None\<rparr>, wgStatus = emptyWgStatus\<rparr> ''priv''
      [examplePeer ''b'' ''L'' 1 ''10.8.0.3'', examplePeer ''a'' ''K'' 2 ''10.8.0.2''])) = [''a'', ''b'']"
proof -
  let ?wg = "\<lparr>wgMeta = newMeta ''gw'' ''vpn'', wgSpec = \<lparr>wg_PeerCIDR = [], wg_LocalCIDRs = [],
        wg_Gluetun = emptyGluetun, wg_NodeSelector = Map.empty, wg_Tolerations = [],
        wg_AgentResources = emptyResources, wg_AllowedNamespaces = None\<rparr>, wgStatus = emptyWgStatus\<rparr>"
  let ?a = "examplePeer ''a'' ''K'' 2 ''10.8.0.2''" and ?b = "examplePeer ''b'' ''L'' 1 ''10.8.0.3''"
  have "desiredState ?wg ''priv'' [?b, ?a] = desiredState ?wg ''priv'' [?a, ?b]"
    using desiredState_stable [of "[?b, ?a]" "[?a, ?b]" ?wg "''priv''"]
    by (simp add: examplePeer_def metaKey_def)
  moreover have "map peerName (Peers (desiredState ?wg ''priv'' [?a, ?b])) = [''a'', ''b'']" by code_simp
  ultimately show ?thesis by simp
qed

end
