(* ===== verification/Resources.thy ===== *)
theory Resources
  imports Api
begin

text \<open>
  The objects the manager renders, \<open>src/internal/resources\<close>: the Secret, the Service and the
  Deployment of a gateway, the environment of its gluetun container, and the constants the other
  components share. \<^verbatim>\<open>ctrl.SetControllerReference\<close>, from controller-runtime, is the parameter
  \<open>setOwner\<close>: it returns the object's metadata with the owner recorded, or an error.
\<close>

section \<open>Constants\<close>

definition WireguardPort :: int where "WireguardPort = 51820"
definition HTTPPort :: int where "HTTPPort = 8080"
definition UserspaceImplementation :: string where "UserspaceImplementation = ''wireguard-go''"
definition EgressInterface :: string where "EgressInterface = ''tun0''"
definition WgInterface :: string where "WgInterface = ''wg0''"
definition TunnelMTU :: int where "TunnelMTU = 1320"
definition Keepalive :: int where "Keepalive = 25"
definition GluetunHealthAddress :: string where "GluetunHealthAddress = ''127.0.0.1:9999''"
definition GluetunImage :: string where
  "GluetunImage = ''ghcr.io/qdm12/gluetun:v3.41.3@sha256:fa19cc76b2af13d57a8d3dc3066f2ada061b1c761b8aecf989b3877c0486e027''"
definition gluetunRuleTable :: int where "gluetunRuleTable = 51820"
definition PeerTable :: int where "PeerTable = 51821"
definition PeerRulePref :: int where "PeerRulePref = 90"
definition BlackholeTable :: int where "BlackholeTable = 51822"
definition BlackholePref :: int where "BlackholePref = 102"
definition PeerProbeAddress :: string where "PeerProbeAddress = ''192.0.2.1''"

definition LabelEnabled :: string where "LabelEnabled = ''tunnel-operator.io/enabled''"
definition LabelComponent :: string where "LabelComponent = ''tunnel-operator.io/component''"
definition ComponentGateway :: string where "ComponentGateway = ''gateway''"
definition SidecarContainer :: string where "SidecarContainer = ''wg-client''"
definition ComponentOperator :: string where "ComponentOperator = ''operator''"
definition AnnotationDefault :: string where "AnnotationDefault = ''tunnel-operator.io/default''"
definition LabelManagedBy :: string where "LabelManagedBy = ''app.kubernetes.io/managed-by''"
definition ManagedByValue :: string where "ManagedByValue = ''tunnel-operator''"
definition VolumeKey :: string where "VolumeKey = ''wg-key''"
definition VolumeToken :: string where "VolumeToken = ''wg-token''"
definition ClientRoleName :: string where "ClientRoleName = ''tunnel-operator-client''"

section \<open>Owned objects\<close>

record Secret =
  secMeta :: ObjectMeta
  secData :: "(string \<times> string) list"

text \<open>The entry of a Go map of byte slices, empty when the key is absent.\<close>

definition secretEntry :: "Secret \<Rightarrow> string \<Rightarrow> string" where
  "secretEntry s k = (case map_of (secData s) k of None \<Rightarrow> [] | Some v \<Rightarrow> v)"

record ServicePort =
  spName :: string
  spProtocol :: string
  spPort :: int
  spTargetPort :: int

record Service =
  svcMeta :: ObjectMeta
  svcSelector :: "string \<rightharpoonup> string"
  svcPorts :: "ServicePort list"
  svcType :: string
  svcClusterIP :: string

record SecurityContext =
  scPrivileged :: "bool option"
  scReadOnlyRootFilesystem :: "bool option"
  scAllowPrivilegeEscalation :: "bool option"
  scCapabilitiesAdd :: "string list"

datatype ProbeHandler = HTTPGet int string | TCPSocket int | Exec "string list"

record Probe =
  prHandler :: ProbeHandler
  prTimeoutSeconds :: int
  prPeriodSeconds :: int
  prFailureThreshold :: int

record ContainerPort =
  cpPort :: int
  cpName :: string
  cpProtocol :: string

record VolumeMount =
  vmName :: string
  vmMountPath :: string
  vmReadOnly :: bool

record Container =
  ctName :: string
  ctImage :: string
  ctImagePullPolicy :: string
  ctRestartPolicy :: "string option"
  ctCommand :: "string list"
  ctArgs :: "string list"
  ctEnv :: "EnvVar list"
  ctEnvFrom :: "EnvFromSource list"
  ctPorts :: "ContainerPort list"
  ctReadinessProbe :: "Probe option"
  ctLivenessProbe :: "Probe option"
  ctStartupProbe :: "Probe option"
  ctPostStart :: "string list option"
  ctVolumeMounts :: "VolumeMount list"
  ctResources :: ResourceRequirements
  ctSecurityContext :: SecurityContext

definition noSecurity :: SecurityContext where
  "noSecurity = \<lparr>scPrivileged = None, scReadOnlyRootFilesystem = None,
     scAllowPrivilegeEscalation = None, scCapabilitiesAdd = []\<rparr>"

definition emptyContainer :: Container where
  "emptyContainer = \<lparr>ctName = [], ctImage = [], ctImagePullPolicy = [], ctRestartPolicy = None,
     ctCommand = [], ctArgs = [], ctEnv = [], ctEnvFrom = [], ctPorts = [],
     ctReadinessProbe = None, ctLivenessProbe = None, ctStartupProbe = None, ctPostStart = None,
     ctVolumeMounts = [], ctResources = emptyResources, ctSecurityContext = noSecurity\<rparr>"

definition newProbe :: "ProbeHandler \<Rightarrow> Probe" where
  "newProbe h = \<lparr>prHandler = h, prTimeoutSeconds = 0, prPeriodSeconds = 0, prFailureThreshold = 0\<rparr>"

datatype ProjectedSource =
    TokenProjection string
  | ConfigMapProjection string "(string \<times> string) list"
  | DownwardProjection "(string \<times> string) list"

datatype VolumeSource = EmptyDir string | SecretVolume string | Projected "ProjectedSource list"

record Volume =
  volName :: string
  volSource :: VolumeSource

record Deployment =
  depMeta :: ObjectMeta
  depReplicas :: "int option"
  depStrategyType :: string
  depRollingUpdate :: "string option"
  depSelector :: "string \<rightharpoonup> string"
  depTemplateLabels :: "string \<rightharpoonup> string"
  depNodeSelector :: "string \<rightharpoonup> string"
  depTolerations :: "Toleration list"
  depSeccompProfile :: string
  depAutomountToken :: "bool option"
  depVolumes :: "Volume list"
  depInitContainers :: "Container list"
  depContainers :: "Container list"
  depObservedGeneration :: int
  depReadyReplicas :: int
  depUpdatedReplicas :: int

type_synonym ownerSetter = "ObjectMeta \<Rightarrow> ObjectMeta \<Rightarrow> goError + ObjectMeta"

definition LabelsForWireguard :: "string \<Rightarrow> string \<rightharpoonup> string" where
  "LabelsForWireguard name = [''app'' \<mapsto> ''wireguard'', ''instance'' \<mapsto> name]"

section \<open>Secret and Service\<close>

definition SecretForWireguard ::
    "ownerSetter \<Rightarrow> Wireguard \<Rightarrow> string \<Rightarrow> string \<Rightarrow> string \<Rightarrow> goError + Secret" where
  "SecretForWireguard setOwner wg state privKey pubKey =
     (let m = (newMeta (wgName wg) (wgNamespace wg))\<lparr>Labels := LabelsForWireguard (wgName wg)\<rparr>;
          data = [(''state.json'', state), (''privateKey'', privKey), (''publicKey'', pubKey)]
      in case setOwner (wgMeta wg) m of
           Inl e \<Rightarrow> Inl e
         | Inr m' \<Rightarrow> Inr \<lparr>secMeta = m', secData = data\<rparr>)"

definition ServiceForWireguard :: "ownerSetter \<Rightarrow> Wireguard \<Rightarrow> goError + Service" where
  "ServiceForWireguard setOwner wg =
     (let labels = LabelsForWireguard (wgName wg);
          m = (newMeta (wgName wg @ ''-svc'') (wgNamespace wg))\<lparr>Labels := labels\<rparr>
      in case setOwner (wgMeta wg) m of
           Inl e \<Rightarrow> Inl e
         | Inr m' \<Rightarrow> Inr \<lparr>svcMeta = m', svcSelector = labels,
             svcPorts = [\<lparr>spName = ''wireguard'', spProtocol = ''UDP'', spPort = WireguardPort,
                          spTargetPort = WireguardPort\<rparr>],
             svcType = ''ClusterIP'', svcClusterIP = []\<rparr>)"

section \<open>The gluetun environment\<close>

definition envVar :: "string \<Rightarrow> string \<Rightarrow> EnvVar" where
  "envVar n v = \<lparr>ev_Name = n, ev_Value = v, ev_ValueFrom = None\<rparr>"

definition ReservedGluetunEnv :: "string list \<Rightarrow> EnvVar list" where
  "ReservedGluetunEnv localCIDRs =
     [envVar ''VPN_TYPE'' ''wireguard'',
      envVar ''VPN_INTERFACE'' EgressInterface,
      envVar ''FIREWALL_ENABLED_DISABLING_IT_SHOOTS_YOU_IN_YOUR_FOOT'' ''on'',
      envVar ''FIREWALL_INPUT_PORTS'' (fmtInt WireguardPort @ '','' @ fmtInt HTTPPort),
      envVar ''FIREWALL_OUTBOUND_SUBNETS'' (Join '','' localCIDRs),
      envVar ''HEALTH_SERVER_ADDRESS'' GluetunHealthAddress,
      envVar ''WIREGUARD_MTU'' (fmtInt TunnelMTU)]"

section \<open>The Deployment\<close>

text \<open>\<^verbatim>\<open>DeploymentBuilder\<close>: the agent image and its pull policy; the scheme is in \<open>setOwner\<close>.\<close>

record DeploymentBuilder =
  agentImage :: string
  agentImagePullPolicy :: string

definition agentContainer :: "DeploymentBuilder \<Rightarrow> Wireguard \<Rightarrow> bool \<Rightarrow> bool \<Rightarrow> Container" where
  "agentContainer b wg readOnlyRoot allowEscalation = emptyContainer\<lparr>
     ctSecurityContext := noSecurity\<lparr>scReadOnlyRootFilesystem := Some readOnlyRoot,
       scAllowPrivilegeEscalation := Some allowEscalation, scCapabilitiesAdd := [''NET_ADMIN'']\<rparr>,
     ctImage := agentImage b,
     ctImagePullPolicy := agentImagePullPolicy b,
     ctName := ''agent'',
     ctCommand := [''agent'', ''--v'', ''11'', ''--wg-iface'', WgInterface,
       ''--wg-listen-port'', fmtInt WireguardPort, ''--state'', ''/tmp/wireguard/state.json'',
       ''--wg-userspace-implementation-fallback'', UserspaceImplementation],
     ctPorts := [\<lparr>cpPort = WireguardPort, cpName = ''wireguard'', cpProtocol = ''UDP''\<rparr>,
                 \<lparr>cpPort = HTTPPort, cpName = ''http'', cpProtocol = ''TCP''\<rparr>],
     ctReadinessProbe := Some ((newProbe (HTTPGet HTTPPort ''/health''))\<lparr>prTimeoutSeconds := 5\<rparr>),
     ctLivenessProbe := Some ((newProbe (TCPSocket HTTPPort))\<lparr>prPeriodSeconds := 5\<rparr>),
     ctVolumeMounts := [\<lparr>vmName = ''socket'', vmMountPath = ''/var/run/wireguard/'', vmReadOnly = False\<rparr>,
                        \<lparr>vmName = ''config'', vmMountPath = ''/tmp/wireguard/'', vmReadOnly = False\<rparr>],
     ctResources := wg_AgentResources (wgSpec wg)\<rparr>"

definition gluetunContainer :: "Wireguard \<Rightarrow> Container" where
  "gluetunContainer wg = emptyContainer\<lparr>
     ctName := ''gluetun'',
     ctImage := GluetunImage,
     ctSecurityContext := noSecurity\<lparr>scCapabilitiesAdd := [''NET_ADMIN'']\<rparr>,
     ctEnv := ReservedGluetunEnv (wg_LocalCIDRs (wgSpec wg)) @ gl_Env (wg_Gluetun (wgSpec wg)),
     ctEnvFrom := gl_EnvFrom (wg_Gluetun (wgSpec wg)),
     ctResources := gl_Resources (wg_Gluetun (wgSpec wg)),
     ctPostStart := Some [''/bin/sh'', ''-c'',
       ''(ip rule del table '' @ fmtInt gluetunRuleTable @ ''; ip -6 rule del table ''
         @ fmtInt gluetunRuleTable @ '') || true'']\<rparr>"

definition ipForwardInitContainer :: "DeploymentBuilder \<Rightarrow> Container" where
  "ipForwardInitContainer b = emptyContainer\<lparr>
     ctSecurityContext := noSecurity\<lparr>scPrivileged := Some True\<rparr>,
     ctImage := agentImage b,
     ctImagePullPolicy := agentImagePullPolicy b,
     ctName := ''sysctl'',
     ctCommand := [''/bin/sh''],
     ctArgs := [''-c'', ''echo 1 > /proc/sys/net/ipv4/ip_forward'']\<rparr>"

definition DeploymentForWireguard ::
    "ownerSetter \<Rightarrow> DeploymentBuilder \<Rightarrow> Wireguard \<Rightarrow> goError + Deployment" where
  "DeploymentForWireguard setOwner b wg =
     (let ls = LabelsForWireguard (wgName wg);
          podLabels = ls(LabelComponent \<mapsto> ComponentGateway);
          m = (newMeta (wgName wg @ ''-dep'') (wgNamespace wg))\<lparr>Labels := ls\<rparr>
      in case setOwner (wgMeta wg) m of
           Inl e \<Rightarrow> Inl e
         | Inr m' \<Rightarrow> Inr \<lparr>depMeta = m', depReplicas = Some 1, depStrategyType = ''Recreate'',
             depRollingUpdate = None, depSelector = ls, depTemplateLabels = podLabels,
             depNodeSelector = wg_NodeSelector (wgSpec wg),
             depTolerations = wg_Tolerations (wgSpec wg),
             depSeccompProfile = ''RuntimeDefault'', depAutomountToken = Some False,
             depVolumes = [\<lparr>volName = ''socket'', volSource = EmptyDir []\<rparr>,
                           \<lparr>volName = ''config'', volSource = SecretVolume (wgName wg)\<rparr>],
             depInitContainers = [ipForwardInitContainer b],
             depContainers = [agentContainer b wg True False, gluetunContainer wg],
             depObservedGeneration = 0, depReadyReplicas = 0, depUpdatedReplicas = 0\<rparr>)"

section \<open>Properties of the rendered objects\<close>

text \<open>
  The value a container variable ends up with: Kubernetes takes the last entry of \<open>env\<close> with a
  name, and any entry of \<open>env\<close> over \<open>envFrom\<close>.
\<close>

definition effectiveEnv :: "EnvVar list \<Rightarrow> string \<rightharpoonup> EnvVar" where
  "effectiveEnv env name = map_of (rev (map (\<lambda>e. (ev_Name e, e)) env)) name"

lemma effectiveEnv_append:
  "effectiveEnv (xs @ ys) name = (case effectiveEnv ys name of None \<Rightarrow> effectiveEnv xs name | Some e \<Rightarrow> Some e)"
  unfolding effectiveEnv_def by (simp add: map_add_def)

lemma effectiveEnv_None: "effectiveEnv env name = None \<longleftrightarrow> (\<forall>e \<in> set env. ev_Name e \<noteq> name)"
  unfolding effectiveEnv_def map_of_eq_None_iff by (auto simp: image_iff)

lemma ReservedGluetunEnv_names:
  "map ev_Name (ReservedGluetunEnv a) = map ev_Name (ReservedGluetunEnv b)"
  by (simp add: ReservedGluetunEnv_def envVar_def)

lemma Deployment_selector:
  assumes "DeploymentForWireguard setOwner b wg = Inr d"
  shows "depSelector d \<subseteq>\<^sub>m depTemplateLabels d" and "LabelComponent \<notin> dom (depSelector d)"
    and "depTemplateLabels d LabelComponent = Some ComponentGateway"
  using assms
  by (auto simp: DeploymentForWireguard_def Let_def LabelsForWireguard_def LabelComponent_def
      map_le_def split: sum.splits)

end
