(* ===== verification/Gateway.thy ===== *)
theory Gateway
  imports Peers Resources
begin

text \<open>
  What makes a Wireguard's spec renderable, \<open>src/internal/controller/gateway.go\<close> and
  \<^verbatim>\<open>specProblem\<close> of \<open>wireguard_controller.go\<close>: the checks on the peer range, the local ranges and the
  gluetun variables, and whether a Deployment has rolled out. An error that names a range is a value
  of \<^typ>\<open>goError\<close>, not its text.
\<close>

section \<open>Reasons\<close>

definition ReasonInvalidPeerCIDR :: string where "ReasonInvalidPeerCIDR = ''InvalidPeerCIDR''"
definition ReasonProbeAddressInPeerCIDR :: string where
  "ReasonProbeAddressInPeerCIDR = ''ProbeAddressInPeerCIDR''"
definition ReasonInvalidLocalCIDRs :: string where "ReasonInvalidLocalCIDRs = ''InvalidLocalCIDRs''"
definition ReasonPeerCIDROverlapsLocalCIDRs :: string where
  "ReasonPeerCIDROverlapsLocalCIDRs = ''PeerCIDROverlapsLocalCIDRs''"
definition ReasonProbeAddressInLocalCIDRs :: string where
  "ReasonProbeAddressInLocalCIDRs = ''ProbeAddressInLocalCIDRs''"
definition ReasonClusterIPOutsideLocalCIDRs :: string where
  "ReasonClusterIPOutsideLocalCIDRs = ''ClusterIPOutsideLocalCIDRs''"
definition ReasonReservedGluetunEnv :: string where "ReasonReservedGluetunEnv = ''ReservedGluetunEnv''"
definition ReasonDeploymentNotReady :: string where "ReasonDeploymentNotReady = ''DeploymentNotReady''"

lemmas reason_defs = ReasonInvalidPeerCIDR_def ReasonProbeAddressInPeerCIDR_def
  ReasonInvalidLocalCIDRs_def ReasonPeerCIDROverlapsLocalCIDRs_def
  ReasonProbeAddressInLocalCIDRs_def ReasonClusterIPOutsideLocalCIDRs_def
  ReasonReservedGluetunEnv_def ReasonDeploymentNotReady_def

section \<open>Ranges\<close>

text \<open>A loop over a slice with its index that returns the first error.\<close>

fun firstError :: "(nat \<Rightarrow> 'a \<Rightarrow> 'e option) \<Rightarrow> nat \<Rightarrow> 'a list \<Rightarrow> 'e option" where
  "firstError f i [] = None"
| "firstError f i (x # xs) = (case f i x of Some e \<Rightarrow> Some e | None \<Rightarrow> firstError f (Suc i) xs)"

lemma firstError_None: "firstError f i xs = None \<longleftrightarrow> (\<forall>j < length xs. f (i + j) (xs ! j) = None)"
proof (induction xs arbitrary: i)
  case (Cons x xs)
  show ?case
    by (auto simp: Cons.IH less_Suc_eq_0_disj split: option.splits)
qed simp

definition localCIDRError :: "nat \<Rightarrow> string \<Rightarrow> goError option" where
  "localCIDRError i c =
     (case ParsePrefix c of
        Inl e \<Rightarrow> Some (CidrErr (LocalCIDRField i) c (NotACIDR e))
      | Inr p \<Rightarrow>
        if \<not> Is4 (pAddr p) then Some (CidrErr (LocalCIDRField i) c NotIPv4Prefix)
        else if p \<noteq> Masked p then Some (CidrErr (LocalCIDRField i) c (HostBitsSet (Masked p)))
        else None)"

definition validateLocalCIDRs :: "string list \<Rightarrow> goError option" where
  "validateLocalCIDRs cidrs = firstError localCIDRError 0 cidrs"

definition peerCIDROverlap :: "string \<Rightarrow> string list \<Rightarrow> goError option" where
  "peerCIDROverlap peerCIDR localCIDRs =
     (let peer = ParsePrefixOrZero peerCIDR in
      firstError (\<lambda>i c. if Overlaps peer (ParsePrefixOrZero c)
                        then Some (CidrErr PeerCIDRField peerCIDR (OverlapsLocalCIDR i c)) else None)
        0 localCIDRs)"

text \<open>\<^verbatim>\<open>netip.MustParseAddr(resources.PeerProbeAddress)\<close>.\<close>

definition probeAddr :: Addr where
  "probeAddr = (case ParseAddr PeerProbeAddress of Inr a \<Rightarrow> a | Inl _ \<Rightarrow> zeroAddr)"

definition probeAddressInLocalCIDRs :: "string list \<Rightarrow> goError option" where
  "probeAddressInLocalCIDRs localCIDRs =
     firstError (\<lambda>i c. if Contains (ParsePrefixOrZero c) probeAddr
                       then Some (CidrErr (LocalCIDRField i) c ContainsProbeAddress) else None)
       0 localCIDRs"

definition probeAddressInPeerCIDR :: "string \<Rightarrow> goError option" where
  "probeAddressInPeerCIDR peerCIDR =
     (if Contains (ParsePrefixOrZero peerCIDR) probeAddr
      then Some (CidrErr PeerCIDRField peerCIDR ContainsProbeAddress) else None)"

definition clusterIPOutside :: "string \<Rightarrow> string \<Rightarrow> string list \<Rightarrow> goError option" where
  "clusterIPOutside service clusterIP localCIDRs =
     (if (case ParseAddr clusterIP of
            Inl _ \<Rightarrow> False
          | Inr ip \<Rightarrow> \<exists>c \<in> set localCIDRs.
              (case ParsePrefix c of Inl _ \<Rightarrow> False | Inr p \<Rightarrow> Contains p ip))
      then None
      else Some (ErrorText (''Service '' @ service @ '' has ClusterIP '' @ clusterIP
        @ '', which is in no localCIDRs entry; add the cluster'' @ [CHR 0x27]
        @ ''s Service CIDR to localCIDRs'')))"

section \<open>Reserved variables\<close>

definition isReservedGluetunEnv :: "string \<Rightarrow> bool" where
  "isReservedGluetunEnv name \<longleftrightarrow> (\<exists>e \<in> set (ReservedGluetunEnv []). ev_Name e = name)"

fun reservedInEnv :: "EnvVar list \<Rightarrow> string" where
  "reservedInEnv [] = []"
| "reservedInEnv (e # env) = (if isReservedGluetunEnv (ev_Name e) then ev_Name e else reservedInEnv env)"

fun firstReserved :: "string \<Rightarrow> string list \<Rightarrow> string" where
  "firstReserved pre [] = []"
| "firstReserved pre (k # ks) = (if isReservedGluetunEnv (pre @ k) then pre @ k else firstReserved pre ks)"

definition reservedInKeys :: "string \<Rightarrow> string list \<Rightarrow> string" where
  "reservedInKeys pre ks = firstReserved pre (sort ks)"

section \<open>Rollout\<close>

definition rolloutProblem :: "Deployment \<Rightarrow> string" where
  "rolloutProblem dep =
     (if depObservedGeneration dep < Generation (depMeta dep)
      then ''Deployment '' @ Name (depMeta dep) @ '' is not rolled out: generation ''
           @ fmtInt (Generation (depMeta dep)) @ '' not yet observed''
      else let want = (case depReplicas dep of None \<Rightarrow> 1 | Some n \<Rightarrow> n);
               ready = depReadyReplicas dep; updated = depUpdatedReplicas dep in
           if ready \<noteq> want \<or> updated \<noteq> want
           then ''Deployment '' @ Name (depMeta dep) @ '' is not rolled out: '' @ fmtInt ready @ ''/''
                @ fmtInt want @ '' ready, '' @ fmtInt updated @ ''/'' @ fmtInt want @ '' updated''
           else [])"

section \<open>The checks in order\<close>

text \<open>
  \<^verbatim>\<open>specProblem\<close>: the reason, empty when the spec can be rendered, and the message. The loop over
  \<^verbatim>\<open>spec.gluetun.envFrom\<close> reads each referenced Secret with \<open>getSecret\<close>.
\<close>

fun envFromProblem ::
    "(NamespacedName \<Rightarrow> ('w, apiError, Secret) io) \<Rightarrow> string \<Rightarrow> nat \<Rightarrow> EnvFromSource list
     \<Rightarrow> ('w, goError, string \<times> goError) io" where
  "envFromProblem getSecret ns i [] = ret (Inr ([], ErrorText []))"
| "envFromProblem getSecret ns i (src # srcs) =
     (case ef_SecretRef src of
        None \<Rightarrow> envFromProblem getSecret ns (Suc i) srcs
      | Some name \<Rightarrow> do {
          r \<leftarrow> getSecret (NamespacedName ns name);
          case r of
            Inl e \<Rightarrow>
              if e = NotFound then envFromProblem getSecret ns (Suc i) srcs
              else ret (Inl (WrapErr (''read Secret '' @ name @ '' referenced by spec.gluetun.envFrom[''
                     @ Itoa i @ '']'') (ApiErr e)))
          | Inr secret \<Rightarrow>
              let var = reservedInKeys (ef_Prefix src) (map fst (secData secret)) in
              if var \<noteq> [] then
                ret (Inr (ReasonReservedGluetunEnv, ErrorText (''Secret '' @ name
                  @ '', referenced by spec.gluetun.envFrom['' @ Itoa i @ ''], sets '' @ var
                  @ '', which the operator renders'')))
              else envFromProblem getSecret ns (Suc i) srcs
        })"

definition specProblem ::
    "(NamespacedName \<Rightarrow> ('w, apiError, Secret) io) \<Rightarrow> Wireguard
     \<Rightarrow> ('w, goError, string \<times> goError) io" where
  "specProblem getSecret wg =
     (case validatePeerCIDR (effectivePeerCIDR4 wg) of
        Some e \<Rightarrow> ret (Inr (ReasonInvalidPeerCIDR, e))
      | None \<Rightarrow>
     (case probeAddressInPeerCIDR (effectivePeerCIDR4 wg) of
        Some e \<Rightarrow> ret (Inr (ReasonProbeAddressInPeerCIDR, e))
      | None \<Rightarrow>
     (case validateLocalCIDRs (wg_LocalCIDRs (wgSpec wg)) of
        Some e \<Rightarrow> ret (Inr (ReasonInvalidLocalCIDRs, e))
      | None \<Rightarrow>
     (case peerCIDROverlap (effectivePeerCIDR4 wg) (wg_LocalCIDRs (wgSpec wg)) of
        Some e \<Rightarrow> ret (Inr (ReasonPeerCIDROverlapsLocalCIDRs, e))
      | None \<Rightarrow>
     (case probeAddressInLocalCIDRs (wg_LocalCIDRs (wgSpec wg)) of
        Some e \<Rightarrow> ret (Inr (ReasonProbeAddressInLocalCIDRs, e))
      | None \<Rightarrow>
        let name = reservedInEnv (gl_Env (wg_Gluetun (wgSpec wg))) in
        if name \<noteq> [] then
          ret (Inr (ReasonReservedGluetunEnv, ErrorText (''spec.gluetun.env sets '' @ name
            @ '', which the operator renders'')))
        else envFromProblem getSecret (wgNamespace wg) 0 (gl_EnvFrom (wg_Gluetun (wgSpec wg))))))))"


section \<open>What an accepted spec guarantees\<close>

text \<open>An address lies in the range a string denotes.\<close>

definition inCIDR :: "string \<Rightarrow> Addr \<Rightarrow> bool" where
  "inCIDR c a = Contains (ParsePrefixOrZero c) a"

lemma inCIDR_cases: "inCIDR c a \<longleftrightarrow> (case ParsePrefix c of Inl _ \<Rightarrow> False | Inr p \<Rightarrow> Contains p a)"
  by (cases "ParsePrefix c")
    (simp_all add: inCIDR_def ParsePrefixOrZero_def zeroPrefix_def Contains_def PrefixIsValid_def)

lemma ParsePrefixOrZero_cidr4 [simp]:
  "n \<le> 32 \<Longrightarrow> ParsePrefixOrZero (cidr4 w n) = Prefix (Addr4 w) (int n)"
  by (simp add: ParsePrefixOrZero_def)

lemma firstError_guard:
  "firstError (\<lambda>i c. if P c then Some (g i c) else None) i xs = None \<longleftrightarrow> (\<forall>c \<in> set xs. \<not> P c)"
  by (induction xs arbitrary: i) auto

definition canonicalNet :: "string \<Rightarrow> bool" where
  "canonicalNet c \<longleftrightarrow> (\<exists>w n. n \<le> 32 \<and> c = cidr4 w n \<and> net4 w n = w)"

lemma localCIDRError_None: "localCIDRError i c = None \<longleftrightarrow> canonicalNet c" (is "?l \<longleftrightarrow> ?r")
proof
  assume ?l
  then obtain p where p: "ParsePrefix c = Inr p" and is4: "Is4 (pAddr p)" and m: "p = Masked p"
    by (auto simp: localCIDRError_def split: sum.splits if_splits)
  obtain w n where "p = Prefix (Addr4 w) (int n)" "n \<le> 32" "c = cidr4 w n"
    using ParsePrefix_4 [OF p is4] by blast
  moreover from this m have "net4 w n = w" by simp
  ultimately show ?r unfolding canonicalNet_def by blast
next
  assume ?r
  then show ?l by (auto simp: canonicalNet_def localCIDRError_def)
qed

lemma validateLocalCIDRs_None: "validateLocalCIDRs cidrs = None \<longleftrightarrow> (\<forall>c \<in> set cidrs. canonicalNet c)"
  by (simp add: validateLocalCIDRs_def firstError_None localCIDRError_None all_set_conv_all_nth)

lemma validatePeerCIDR_canonical: "validatePeerCIDR c = None \<Longrightarrow> canonicalNet c"
proof -
  assume "validatePeerCIDR c = None"
  then obtain w n where "c = cidr4 w n" "n \<le> 30" "net4 w n = w" by (rule validatePeerCIDR_None)
  then have "n \<le> 32 \<and> c = cidr4 w n \<and> net4 w n = w" by simp
  then show ?thesis unfolding canonicalNet_def by blast
qed

lemma inCIDR_4: "canonicalNet c \<Longrightarrow> inCIDR c a \<Longrightarrow> \<exists>v. a = Addr4 v"
  by (auto simp: canonicalNet_def inCIDR_def dest: Contains_only_4)

lemma Overlaps_inCIDR:
  assumes "canonicalNet c" and "canonicalNet d"
  shows "Overlaps (ParsePrefixOrZero c) (ParsePrefixOrZero d) \<longleftrightarrow> (\<exists>a. inCIDR c a \<and> inCIDR d a)"
  using assms unfolding canonicalNet_def inCIDR_def by (elim exE conjE) (simp add: Overlaps_4)

lemma peerCIDROverlap_None:
  assumes "validatePeerCIDR peer = None" and "validateLocalCIDRs local = None"
  shows "peerCIDROverlap peer local = None \<longleftrightarrow> (\<forall>c \<in> set local. \<forall>a. \<not> (inCIDR peer a \<and> inCIDR c a))"
proof -
  have "peerCIDROverlap peer local = None \<longleftrightarrow>
    (\<forall>c \<in> set local. \<not> Overlaps (ParsePrefixOrZero peer) (ParsePrefixOrZero c))"
    by (simp add: peerCIDROverlap_def Let_def firstError_guard)
  then show ?thesis
    using Overlaps_inCIDR [OF validatePeerCIDR_canonical [OF assms(1)]] assms(2)
    by (simp add: validateLocalCIDRs_None)
qed

lemma probeAddressInLocalCIDRs_None:
  "probeAddressInLocalCIDRs local = None \<longleftrightarrow> (\<forall>c \<in> set local. \<not> inCIDR c probeAddr)"
  by (simp add: probeAddressInLocalCIDRs_def firstError_guard inCIDR_def)

lemma probeAddressInPeerCIDR_None: "probeAddressInPeerCIDR peer = None \<longleftrightarrow> \<not> inCIDR peer probeAddr"
  by (simp add: probeAddressInPeerCIDR_def inCIDR_def)

lemma probeAddr_4: "probeAddr = Addr4 0xC0000201"
  by code_simp

text \<open>The whole address space contains the probe address, so no accepted range is \<open>0.0.0.0/0\<close>.\<close>

lemma default_route_holds_probe: "inCIDR (cidr4 w 0) probeAddr"
  by (simp add: inCIDR_def probeAddr_4 Contains_net4 [where n = 0, simplified])

lemma clusterIPOutside_None:
  "clusterIPOutside svc ip local = None \<longleftrightarrow>
   (\<exists>a. ParseAddr ip = Inr a \<and> (\<exists>c \<in> set local. inCIDR c a))"
  unfolding clusterIPOutside_def inCIDR_cases by (cases "ParseAddr ip") simp_all

section \<open>Reserved variables stay the operator's\<close>

lemma reserved_names: "isReservedGluetunEnv n \<longleftrightarrow> n \<in> ev_Name ` set (ReservedGluetunEnv l)"
proof -
  have "ev_Name ` set (ReservedGluetunEnv []) = ev_Name ` set (ReservedGluetunEnv l)"
    by (metis ReservedGluetunEnv_names set_map)
  then show ?thesis unfolding isReservedGluetunEnv_def by (metis (no_types, lifting) image_iff)
qed

lemma reserved_nonempty: "\<not> isReservedGluetunEnv []"
  by (simp add: isReservedGluetunEnv_def ReservedGluetunEnv_def envVar_def)

lemma reservedInEnv_empty: "reservedInEnv env = [] \<longleftrightarrow> (\<forall>e \<in> set env. \<not> isReservedGluetunEnv (ev_Name e))"
  using reserved_nonempty by (induction env) auto

lemma reservedInKeys_empty: "reservedInKeys pre ks = [] \<longleftrightarrow> (\<forall>k \<in> set ks. \<not> isReservedGluetunEnv (pre @ k))"
proof -
  have "firstReserved pre l = [] \<longleftrightarrow> (\<forall>k \<in> set l. \<not> isReservedGluetunEnv (pre @ k))" for l
    by (induction l) (use reserved_nonempty in auto)
  then show ?thesis by (simp add: reservedInKeys_def)
qed

lemma reserved_distinct: "distinct (map ev_Name (ReservedGluetunEnv l))"
  by (simp add: ReservedGluetunEnv_def envVar_def)

lemma reserved_wins:
  assumes "reservedInEnv env = []" and "e \<in> set (ReservedGluetunEnv l)"
  shows "effectiveEnv (ReservedGluetunEnv l @ env) (ev_Name e) = Some e"
proof -
  have "isReservedGluetunEnv (ev_Name e)" using assms(2) reserved_names by blast
  then have "effectiveEnv env (ev_Name e) = None"
    using assms(1) by (auto simp: effectiveEnv_None reservedInEnv_empty)
  moreover have "effectiveEnv (ReservedGluetunEnv l) (ev_Name e) = Some e"
    unfolding effectiveEnv_def using assms(2) reserved_distinct [of l]
    by (intro map_of_is_SomeI) (auto simp: rev_map comp_def simp flip: rev_map)
  ultimately show ?thesis by (simp add: effectiveEnv_append)
qed

section \<open>Acceptance\<close>

text \<open>
  The contract of an accepted spec, in terms of addresses: a range with room for a peer, canonical
  local ranges it does not meet, the probe address outside all of them, and no variable of the
  operator's set by the user.
\<close>

definition renderable :: "Wireguard \<Rightarrow> bool" where
  "renderable wg \<longleftrightarrow>
     (let peer = effectivePeerCIDR4 wg; local = wg_LocalCIDRs (wgSpec wg) in
      (\<exists>w n. n \<le> 30 \<and> peer = cidr4 w n \<and> net4 w n = w)
      \<and> (\<forall>c \<in> set local. canonicalNet c)
      \<and> (\<forall>c \<in> set local. \<forall>a. \<not> (inCIDR peer a \<and> inCIDR c a))
      \<and> \<not> inCIDR peer probeAddr \<and> (\<forall>c \<in> set local. \<not> inCIDR c probeAddr)
      \<and> (\<forall>e \<in> set (gl_Env (wg_Gluetun (wgSpec wg))). \<not> isReservedGluetunEnv (ev_Name e)))"

lemma renderable_iff:
  "renderable wg \<longleftrightarrow> validatePeerCIDR (effectivePeerCIDR4 wg) = None
     \<and> probeAddressInPeerCIDR (effectivePeerCIDR4 wg) = None
     \<and> validateLocalCIDRs (wg_LocalCIDRs (wgSpec wg)) = None
     \<and> peerCIDROverlap (effectivePeerCIDR4 wg) (wg_LocalCIDRs (wgSpec wg)) = None
     \<and> probeAddressInLocalCIDRs (wg_LocalCIDRs (wgSpec wg)) = None
     \<and> reservedInEnv (gl_Env (wg_Gluetun (wgSpec wg))) = []"
proof -
  have v: "validatePeerCIDR c = None \<longleftrightarrow> (\<exists>w n. n \<le> 30 \<and> c = cidr4 w n \<and> net4 w n = w)" for c
    by (rule iffI, erule validatePeerCIDR_None, force, elim exE conjE, simp add: validatePeerCIDR_cidr4)
  show ?thesis
    unfolding renderable_def Let_def v [symmetric] probeAddressInPeerCIDR_None
      validateLocalCIDRs_None [symmetric] probeAddressInLocalCIDRs_None reservedInEnv_empty
    using peerCIDROverlap_None [of "effectivePeerCIDR4 wg" "wg_LocalCIDRs (wgSpec wg)"] by argo
qed

lemma renderable_valid: "renderable wg \<Longrightarrow> validatePeerCIDR (effectivePeerCIDR4 wg) = None"
  by (simp add: renderable_iff)

lemma specProblem_renderable_eq:
  "renderable wg \<Longrightarrow> specProblem getSecret wg
     = envFromProblem getSecret (wgNamespace wg) 0 (gl_EnvFrom (wg_Gluetun (wgSpec wg)))"
  unfolding renderable_iff specProblem_def Let_def by simp

lemma specProblem_refuses:
  assumes "\<not> renderable wg"
  shows "\<exists>reason e. reason \<noteq> [] \<and> specProblem getSecret wg = ret (Inr (reason, e))"
proof (cases "validatePeerCIDR (effectivePeerCIDR4 wg)")
  case (Some e)
  then show ?thesis by (auto simp: specProblem_def reason_defs)
next
  case v: None
  show ?thesis
  proof (cases "probeAddressInPeerCIDR (effectivePeerCIDR4 wg)")
    case (Some e)
    then show ?thesis using v by (auto simp: specProblem_def reason_defs)
  next
    case p: None
    show ?thesis
    proof (cases "validateLocalCIDRs (wg_LocalCIDRs (wgSpec wg))")
      case (Some e)
      then show ?thesis using v p by (auto simp: specProblem_def reason_defs)
    next
      case l: None
      show ?thesis
      proof (cases "peerCIDROverlap (effectivePeerCIDR4 wg) (wg_LocalCIDRs (wgSpec wg))")
        case (Some e)
        then show ?thesis using v p l by (auto simp: specProblem_def reason_defs)
      next
        case o: None
        show ?thesis
        proof (cases "probeAddressInLocalCIDRs (wg_LocalCIDRs (wgSpec wg))")
          case (Some e)
          then show ?thesis using v p l o by (auto simp: specProblem_def reason_defs)
        next
          case q: None
          then have "reservedInEnv (gl_Env (wg_Gluetun (wgSpec wg))) \<noteq> []"
            using assms v p l o by (simp add: renderable_iff)
          then show ?thesis using v p l o q by (auto simp: specProblem_def Let_def reason_defs)
        qed
      qed
    qed
  qed
qed

lemma specProblem_renderable:
  assumes "run_state (specProblem getSecret wg) w = (Inr ([], m), w')"
  shows "renderable wg"
  using assms specProblem_refuses [of wg getSecret] by (cases "renderable wg") auto

text \<open>Against a cluster that holds still, acceptance also covers the Secrets \<^verbatim>\<open>envFrom\<close> names.\<close>

lemma envFromProblem_still:
  assumes "\<And>k. run_state (getSecret k) w = (secrets k, w)"
  shows "(\<exists>m. run_state (envFromProblem getSecret ns i srcs) w = (Inr ([], m), w)) \<longleftrightarrow>
    (\<forall>src \<in> set srcs. \<forall>name. ef_SecretRef src = Some name \<longrightarrow>
       (case secrets (NamespacedName ns name) of
          Inl e \<Rightarrow> e = NotFound
        | Inr s \<Rightarrow> \<forall>k \<in> fst ` set (secData s). \<not> isReservedGluetunEnv (ef_Prefix src @ k)))"
proof (induction srcs arbitrary: i)
  case (Cons src srcs)
  note IH = Cons.IH [of "Suc i"]
  show ?case
  proof (cases "ef_SecretRef src")
    case None
    then show ?thesis using IH by simp
  next
    case name: (Some name)
    show ?thesis
    proof (cases "secrets (NamespacedName ns name)")
      case (Inl e)
      then show ?thesis using IH name by (cases "e = NotFound") (simp_all add: assms)
    next
      case (Inr s)
      then show ?thesis
        using IH name by (cases "reservedInKeys (ef_Prefix src) (map fst (secData s)) = []")
          (simp_all add: assms Let_def reservedInKeys_empty reason_defs)
    qed
  qed
qed simp

section \<open>Properties\<close>

text \<open>
  C10. A spec that \<^verbatim>\<open>specProblem\<close> accepts, whatever the Secrets it reads: the peer range is a canonical
  IPv4 network with room for a peer; every local range is a canonical IPv4 network that shares no
  address with it and is not the default route; and the address the readiness check routes lies
  outside all of them.
\<close>

theorem specProblem_accepts:
  assumes "run_state (specProblem getSecret wg) w = (Inr ([], m), w')"
  shows "(\<exists>v n. n \<le> 30 \<and> effectivePeerCIDR4 wg = cidr4 v n \<and> net4 v n = v)
    \<and> \<not> inCIDR (effectivePeerCIDR4 wg) probeAddr
    \<and> (\<forall>c \<in> set (wg_LocalCIDRs (wgSpec wg)).
         (\<exists>v n. 0 < n \<and> n \<le> 32 \<and> c = cidr4 v n \<and> net4 v n = v)
         \<and> \<not> inCIDR c probeAddr
         \<and> (\<forall>a. \<not> (inCIDR (effectivePeerCIDR4 wg) a \<and> inCIDR c a)))"
proof -
  note r = specProblem_renderable [OF assms]
  have "\<exists>v n. 0 < n \<and> n \<le> 32 \<and> c = cidr4 v n \<and> net4 v n = v"
    if c: "canonicalNet c" and p: "\<not> inCIDR c probeAddr" for c
  proof -
    obtain v n where vn: "n \<le> 32" "c = cidr4 v n" "net4 v n = v" using c by (auto simp: canonicalNet_def)
    then have "n \<noteq> 0" using p default_route_holds_probe by (intro notI) simp
    then show ?thesis using vn by blast
  qed
  then show ?thesis using r by (simp add: renderable_def Let_def)
qed

definition exampleWireguard :: Wireguard where
  "exampleWireguard = \<lparr>wgMeta = newMeta ''gw'' ''vpn'',
     wgSpec = \<lparr>wg_PeerCIDR = ''10.9.0.0/29'', wg_LocalCIDRs = [''10.96.0.0/12''],
       wg_Gluetun = emptyGluetun\<lparr>gl_Env := [envVar ''VPN_SERVICE_PROVIDER'' ''custom''],
         gl_EnvFrom := [\<lparr>ef_Prefix = [], ef_SecretRef = Some ''creds'', ef_ConfigMapRef = None\<rparr>]\<rparr>,
       wg_NodeSelector = Map.empty, wg_Tolerations = [], wg_AgentResources = emptyResources,
       wg_AllowedNamespaces = None\<rparr>,
     wgStatus = emptyWgStatus\<lparr>ws_Status := Pending\<rparr>\<rparr>"

definition exampleSecrets :: "NamespacedName \<Rightarrow> (unit, apiError, Secret) io" where
  "exampleSecrets k = ret (if k = NamespacedName ''vpn'' ''creds''
     then Inr \<lparr>secMeta = newMeta ''creds'' ''vpn'', secData = [(''WIREGUARD_PRIVATE_KEY'', ''k'')]\<rparr> else Inl NotFound)"

lemma exampleWireguard_accepted:
  "run_state (specProblem exampleSecrets exampleWireguard) () = (Inr ([], ErrorText []), ())"
  by code_simp

theorem specProblem_accepts_witness:
  "\<not> inCIDR (effectivePeerCIDR4 exampleWireguard) probeAddr \<and> \<not> inCIDR ''10.96.0.0/12'' probeAddr
   \<and> (\<forall>a. \<not> (inCIDR (effectivePeerCIDR4 exampleWireguard) a \<and> inCIDR ''10.96.0.0/12'' a))"
proof -
  have "wg_LocalCIDRs (wgSpec exampleWireguard) = [''10.96.0.0/12'']" by (simp add: exampleWireguard_def)
  then show ?thesis using specProblem_accepts [OF exampleWireguard_accepted] by simp
qed

text \<open>
  C11. In the Deployment of an accepted spec the operator's gluetun variables have the operator's
  values, whatever \<^verbatim>\<open>spec.gluetun\<close> says: the last entry of the gluetun container's \<^verbatim>\<open>env\<close> with a
  reserved name, which decides its value, is the rendered one.
\<close>

theorem gluetun_env_reserved:
  assumes "run_state (specProblem getSecret wg) w = (Inr ([], m), w')"
    and "DeploymentForWireguard own b wg = Inr dep"
    and "e \<in> set (ReservedGluetunEnv (wg_LocalCIDRs (wgSpec wg)))"
  shows "\<exists>c \<in> set (depContainers dep). ctName c = ''gluetun''
    \<and> effectiveEnv (ctEnv c) (ev_Name e) = Some e"
proof -
  have "reservedInEnv (gl_Env (wg_Gluetun (wgSpec wg))) = []"
    using specProblem_renderable [OF assms(1)] by (simp add: renderable_iff)
  then have "effectiveEnv (ctEnv (gluetunContainer wg)) (ev_Name e) = Some e"
    using reserved_wins [OF _ assms(3)] by (simp add: gluetunContainer_def)
  moreover have "gluetunContainer wg \<in> set (depContainers dep)"
    using assms(2) by (auto simp: DeploymentForWireguard_def Let_def split: sum.splits)
  ultimately show ?thesis by (auto simp: gluetunContainer_def intro!: bexI)
qed

theorem gluetun_env_reserved_witness:
  "\<exists>dep. DeploymentForWireguard (\<lambda>_ m. Inr m) \<lparr>agentImage = ''a'', agentImagePullPolicy = ''Always''\<rparr> exampleWireguard = Inr dep
    \<and> (\<exists>c \<in> set (depContainers dep). ctName c = ''gluetun''
        \<and> effectiveEnv (ctEnv c) ''VPN_TYPE'' = Some (envVar ''VPN_TYPE'' ''wireguard''))"
proof -
  let ?b = "\<lparr>agentImage = ''a'', agentImagePullPolicy = ''Always''\<rparr>"
  obtain dep where dep: "DeploymentForWireguard (\<lambda>_ m. Inr m) ?b exampleWireguard = Inr dep"
    by (simp add: DeploymentForWireguard_def Let_def)
  have "ev_Name (envVar ''VPN_TYPE'' ''wireguard'') = ''VPN_TYPE''" by (simp add: envVar_def)
  then show ?thesis
    using gluetun_env_reserved [OF exampleWireguard_accepted dep, of "envVar ''VPN_TYPE'' ''wireguard''"] dep
    by (auto simp: ReservedGluetunEnv_def)
qed

text \<open>
  C18. Against Secrets that hold still, \<^verbatim>\<open>specProblem\<close> accepts exactly the renderable specs whose
  \<^verbatim>\<open>envFrom\<close> Secrets, prefix included, set no variable of the operator's; a Secret that does not exist is
  no obstacle.
\<close>

theorem specProblem_exact:
  assumes "\<And>k. run_state (getSecret k) w = (secrets k, w)"
  shows "(\<exists>m. run_state (specProblem getSecret wg) w = (Inr ([], m), w)) \<longleftrightarrow>
    renderable wg \<and> (\<forall>src \<in> set (gl_EnvFrom (wg_Gluetun (wgSpec wg))). \<forall>name. ef_SecretRef src = Some name \<longrightarrow>
       (case secrets (NamespacedName (wgNamespace wg) name) of
          Inl e \<Rightarrow> e = NotFound
        | Inr s \<Rightarrow> \<forall>k \<in> fst ` set (secData s). \<not> isReservedGluetunEnv (ef_Prefix src @ k)))"
proof (cases "renderable wg")
  case True
  then show ?thesis
    using envFromProblem_still [of getSecret w secrets, OF assms] by (simp add: specProblem_renderable_eq)
next
  case False
  then show ?thesis using specProblem_renderable [of getSecret wg w] by auto
qed

theorem specProblem_exact_witness:
  "renderable exampleWireguard"
proof -
  have "\<exists>m. run_state (specProblem exampleSecrets exampleWireguard) () = (Inr ([], m), ())"
    using exampleWireguard_accepted by blast
  moreover have "run_state (exampleSecrets k) () = (fst (run_state (exampleSecrets k) ()), ())" for k
    by (simp add: prod_eq_iff)
  ultimately show ?thesis
    using specProblem_exact [of exampleSecrets "()" "\<lambda>k. fst (run_state (exampleSecrets k) ())" exampleWireguard]
    by simp
qed

end
