(* ===== verification/Reconcile.thy ===== *)
theory Reconcile
  imports Gateway "HOL-Library.Sublist"
begin

text \<open>
  The Wireguard reconciler, \<open>src/internal/controller/wireguard_controller.go\<close> and \<open>apply.go\<close>: how a
  Wireguard and the peers that name it become a Service, a Secret and a Deployment, and what is
  recorded on their statuses.

  The API server is the world, of any type \<open>'w\<close>. Every call of the client, a read too, is a
  computation that may change it, because other writers do; \<open>WireguardReconciler\<close> is the receiver of
  the Go methods with those calls and with the library functions the methods use. Logging is left
  out.
\<close>

section \<open>The client\<close>

record Pod =
  podMeta :: ObjectMeta

text \<open>
  The client for one kind of object that the operator applies: \<^verbatim>\<open>GVKForObject\<close>, \<^verbatim>\<open>Get\<close>, the
  field-manager migration of \<open>csaupgrade\<close>, \<^verbatim>\<open>Patch\<close>, the two conversions of
  \<^verbatim>\<open>DefaultUnstructuredConverter\<close> and \<^verbatim>\<open>Apply\<close>, which returns the object as the server stored it.
\<close>

record ('w, 'o, 'u) objClient =
  objKind :: "'o \<Rightarrow> string + string"
  objGet :: "NamespacedName \<Rightarrow> ('w, apiError, 'o) io"
  UpgradeManagedFieldsPatch :: "'o \<Rightarrow> string + string option"
  objPatch :: "'o \<Rightarrow> string \<Rightarrow> ('w, apiError, unit) io"
  ToUnstructured :: "'o \<Rightarrow> string + 'u"
  objApply :: "'u \<Rightarrow> ('w, apiError, 'u) io"
  FromUnstructured :: "'u \<Rightarrow> string + 'o"

record ('w, 'k, 'u) WireguardReconciler =
  getWireguard :: "NamespacedName \<Rightarrow> ('w, apiError, Wireguard) io"
  updateWireguardStatus :: "Wireguard \<Rightarrow> ('w, apiError, unit) io"
  listPeers :: "('w, apiError, WireguardPeer list) io"
  updatePeerStatus :: "WireguardPeer \<Rightarrow> ('w, apiError, WireguardPeer) io"
  getSecret :: "NamespacedName \<Rightarrow> ('w, apiError, Secret) io"
  createSecret :: "Secret \<Rightarrow> ('w, apiError, unit) io"
  updateSecret :: "Secret \<Rightarrow> ('w, apiError, unit) io"
  listGatewayPods :: "string \<Rightarrow> (string \<rightharpoonup> string) \<Rightarrow> ('w, apiError, Pod list) io"
  updatePod :: "Pod \<Rightarrow> ('w, apiError, unit) io"
  services :: "('w, Service, 'u) objClient"
  deployments :: "('w, Deployment, 'u) objClient"
  timeNow :: "('w, int) state"
  timeFormat :: "int \<Rightarrow> string"
  GeneratePrivateKey :: "('w, string, 'k) io"
  peerConditions :: "string condOps"
  wgConditions :: "goError condOps"
  keys :: "'k wgKeys"
  marshalState :: "State \<Rightarrow> string + string"
  unmarshalState :: "string \<Rightarrow> State option"
  ipGenerator :: ipGen
  setOwner :: ownerSetter
  deploymentBuilder :: DeploymentBuilder

section \<open>Applying owned objects\<close>

definition applyOwned ::
    "('w, 'o, 'u) objClient \<Rightarrow> ('o \<Rightarrow> ObjectMeta) \<Rightarrow> 'o \<Rightarrow> ('w, goError, 'o) io" where
  "applyOwned c metaOf obj =
     (case objKind c obj of
        Inl e \<Rightarrow> ret (Inl (WrapErr ''resolve GVK'' (ErrorText e)))
      | Inr kind \<Rightarrow>
        let key = metaKey (metaOf obj); what = kind @ '' '' @ nnString key in
        bindE
          (do { live \<leftarrow> objGet c key;
                case live of
                  Inl NotFound \<Rightarrow> ret (Inr ())
                | Inl e \<Rightarrow> ret (Inl (WrapErr (''read '' @ what @ '' for field-manager migration'') (ApiErr e)))
                | Inr l \<Rightarrow>
                  (case UpgradeManagedFieldsPatch c l of
                     Inl e \<Rightarrow> ret (Inl (WrapErr (''compute field-manager migration for '' @ what) (ErrorText e)))
                   | Inr None \<Rightarrow> ret (Inr ())
                   | Inr (Some patch) \<Rightarrow>
                       mapErr (\<lambda>e. WrapErr (''migrate field managers on '' @ what) (ApiErr e))
                         (objPatch c l patch)) })
          (\<lambda>_. case ToUnstructured c obj of
             Inl e \<Rightarrow> ret (Inl (WrapErr (''convert '' @ what) (ErrorText e)))
           | Inr u \<Rightarrow>
             bindE (mapErr (\<lambda>e. WrapErr (''apply '' @ what) (ApiErr e)) (objApply c u))
               (\<lambda>u'. ret (case FromUnstructured c u' of
                  Inl e \<Rightarrow> Inl (WrapErr (''decode applied '' @ what) (ErrorText e))
                | Inr obj' \<Rightarrow> Inr obj'))))"

definition recreatePatch :: string where
  "recreatePatch =
     ''{\"spec\":{\"strategy\":{\"type\":\"Recreate\",\"rollingUpdate\":null}}}''"

definition applyDeployment :: "('w, 'k, 'u) WireguardReconciler \<Rightarrow> Deployment \<Rightarrow> ('w, goError, Deployment) io" where
  "applyDeployment r dep =
     (let key = metaKey (depMeta dep) in
      bindE
        (do { live \<leftarrow> objGet (deployments r) key;
              case live of
                Inl NotFound \<Rightarrow> ret (Inr ())
              | Inl e \<Rightarrow> ret (Inl (WrapErr (''read Deployment '' @ nnString key
                    @ '' for the strategy migration'') (ApiErr e)))
              | Inr l \<Rightarrow>
                if depRollingUpdate l \<noteq> None
                then mapErr (\<lambda>e. WrapErr (''clear rollingUpdate on Deployment '' @ nnString key) (ApiErr e))
                       (objPatch (deployments r) l recreatePatch)
                else ret (Inr ()) })
        (\<lambda>_. applyOwned (deployments r) depMeta dep))"

section \<open>Wireguard status\<close>

record serverIdentity =
  idEndpoint :: string
  idPublicKey :: string

text \<open>
  The status fields \<^verbatim>\<open>updateStatus\<close> computes before its one write: the condition, the cleared
  Degraded, the summary and the identity. \<open>ws\<close> is the status of the copy that was read back.
\<close>

definition nextStatus ::
    "goError condOps \<Rightarrow> WireguardStatus \<Rightarrow> goError Condition \<Rightarrow> serverIdentity option \<Rightarrow> WireguardStatus" where
  "nextStatus C ws cond identity =
     (let conds = SetStatusCondition C (ws_Conditions ws) cond;
          conds' = (if condType cond = ConditionReady
                    then SetStatusCondition C conds
                      \<lparr>condType = ConditionDegraded, condStatus = ConditionFalse,
                       condReason = ''Reconciled'', condMessage = ErrorText ''All owned resources applied'',
                       condObservedGeneration = condObservedGeneration cond,
                       condLastTransitionTime = 0\<rparr>
                    else conds);
          summary = (if condType cond = ConditionReady
                     then (if condStatus cond = ConditionTrue then Ready else Pending)
                     else if condType cond = ConditionDegraded then Error
                     else Pending);
          ws' = ws\<lparr>ws_Conditions := conds', ws_Status := summary, ws_Message := condMessage cond\<rparr>
      in case identity of
           None \<Rightarrow> ws'
         | Some i \<Rightarrow> ws'\<lparr>ws_Endpoint := idEndpoint i, ws_PublicKey := idPublicKey i\<rparr>)"

definition updateStatus ::
    "('w, 'k, 'u) WireguardReconciler \<Rightarrow> Wireguard \<Rightarrow> goError Condition \<Rightarrow> serverIdentity option
     \<Rightarrow> ('w, apiError, unit) io" where
  "updateStatus r wg cond identity = do {
     got \<leftarrow> getWireguard r (metaKey (wgMeta wg));
     case got of
       Inl e \<Rightarrow> ret (if e = NotFound then Inr () else Inl e)
     | Inr latest \<Rightarrow> do {
         t \<leftarrow> (if condLastTransitionTime cond = 0 then timeNow r else ret (condLastTransitionTime cond));
         let cond' = cond\<lparr>condLastTransitionTime := t, condObservedGeneration := Generation (wgMeta wg)\<rparr>;
         let latest' = latest\<lparr>wgStatus := nextStatus (wgConditions r) (wgStatus latest) cond' identity\<rparr>;
         res \<leftarrow> updateWireguardStatus r latest';
         ret (case res of
                Inl e \<Rightarrow> if e = NotFound \<or> e = Conflict then Inr () else Inl e
              | Inr _ \<Rightarrow> Inr ())
       }
   }"

definition newCondition :: "string \<Rightarrow> string \<Rightarrow> string \<Rightarrow> 'm \<Rightarrow> 'm Condition" where
  "newCondition t s reason msg = \<lparr>condType = t, condStatus = s, condReason = reason, condMessage = msg,
     condObservedGeneration = 0, condLastTransitionTime = 0\<rparr>"

text \<open>\<^verbatim>\<open>ctrl.Result\<close> is the delay, in seconds, after which the request is queued again (0: not).\<close>

type_synonym reconcileResult = "nat \<times> goError option"

definition failDegraded ::
    "('w, 'k, 'u) WireguardReconciler \<Rightarrow> Wireguard \<Rightarrow> goError \<Rightarrow> string \<Rightarrow> ('w, reconcileResult) state" where
  "failDegraded r wg err reason = do {
     _ \<leftarrow> updateStatus r wg (newCondition ConditionDegraded ConditionTrue reason err) None;
     ret (0, Some err)
   }"

text \<open>\<^verbatim>\<open>return ctrl.Result{...}, r.updateStatus(...)\<close>.\<close>

definition finishWith ::
    "('w, 'k, 'u) WireguardReconciler \<Rightarrow> nat \<Rightarrow> Wireguard \<Rightarrow> goError Condition \<Rightarrow> serverIdentity option
     \<Rightarrow> ('w, reconcileResult) state" where
  "finishWith r delay wg cond identity = do {
     res \<leftarrow> updateStatus r wg cond identity;
     ret (delay, case res of Inl e \<Rightarrow> Some (ApiErr e) | Inr _ \<Rightarrow> None)
   }"

section \<open>Peers of a server\<close>

definition getWireguardPeers ::
    "('w, 'k, 'u) WireguardReconciler \<Rightarrow> NamespacedName \<Rightarrow> ('w, apiError, WireguardPeer list) io" where
  "getWireguardPeers r req =
     bindE (listPeers r) (\<lambda>peers. ret (Inr (filter (\<lambda>peer. gatewayKey peer = req) peers)))"

definition admittedKeys ::
    "('w, 'k, 'u) WireguardReconciler \<Rightarrow> Wireguard \<Rightarrow> ('w, apiError, NamespacedName \<rightharpoonup> string) io" where
  "admittedKeys r wg = do {
     got \<leftarrow> getSecret r (metaKey (wgMeta wg));
     ret (case got of
            Inl e \<Rightarrow> if e = NotFound then Inr Map.empty else Inl e
          | Inr secret \<Rightarrow>
            (case unmarshalState r (secretEntry secret ''state.json'') of
               None \<Rightarrow> Inr Map.empty
             | Some state \<Rightarrow> Inr (map_of (rev (map (\<lambda>p. (peerKey p, publicKey p)) (Peers state))))))
   }"

definition notReadyPeer :: "string condOps \<Rightarrow> WireguardPeer \<Rightarrow> notReady \<Rightarrow> WireguardPeer" where
  "notReadyPeer C peer nr = peer\<lparr>peerStatus := (peerStatus peer)\<lparr>
     st_Status := nr_Status nr, st_Message := nr_Message nr, st_Address := [], st_Endpoint := [],
     st_ServerPublicKey := [], st_LocalCIDRs := [],
     st_Conditions := SetStatusCondition C (st_Conditions (peerStatus peer))
       \<lparr>condType = ConditionReady, condStatus = ConditionFalse, condReason = nr_Reason nr,
        condMessage = nr_ConditionMessage nr,
        condObservedGeneration = Generation (peerMeta peer), condLastTransitionTime = 0\<rparr>\<rparr>\<rparr>"

definition markPeerNotReady ::
    "('w, 'k, 'u) WireguardReconciler \<Rightarrow> WireguardPeer \<Rightarrow> notReady \<Rightarrow> ('w, apiError, unit) io" where
  "markPeerNotReady r peer nr =
     (if peerStatusMatches (peerConditions r) peer nr then ret (Inr ())
      else do {
        res \<leftarrow> updatePeerStatus r (notReadyPeer (peerConditions r) peer nr);
        ret (case res of Inl e \<Rightarrow> if e = Invalid then Inr () else Inl e | Inr _ \<Rightarrow> Inr ())
      })"

text \<open>The idiom \<^verbatim>\<open>if err := ...; err != nil && !skipPeerWrite(err) { return err }\<close>.\<close>

definition unlessSkipped :: "('w, apiError, unit) io \<Rightarrow> ('w, apiError, 'a) io \<Rightarrow> ('w, apiError, 'a) io" where
  "unlessSkipped m k = do {
     res \<leftarrow> m;
     case res of
       Inl e \<Rightarrow> if skipPeerWrite e then k else ret (Inl e)
     | Inr _ \<Rightarrow> k
   }"

fun markAllNotReady ::
    "('w, 'k, 'u) WireguardReconciler \<Rightarrow> notReady \<Rightarrow> WireguardPeer list \<Rightarrow> ('w, apiError, unit) io" where
  "markAllNotReady r nr [] = ret (Inr ())"
| "markAllNotReady r nr (p # ps) = unlessSkipped (markPeerNotReady r p nr) (markAllNotReady r nr ps)"

definition markPeersWireguardNotFound ::
    "('w, 'k, 'u) WireguardReconciler \<Rightarrow> NamespacedName \<Rightarrow> ('w, apiError, unit) io" where
  "markPeersWireguardNotFound r req =
     bindE (getWireguardPeers r req)
       (markAllNotReady r (wireguardNotFound (nnName req) (nnNamespace req)))"

text \<open>The admission decision of the loop body of \<^verbatim>\<open>admitPeers\<close>.\<close>

definition peerProblem :: "'k wgKeys \<Rightarrow> Wireguard \<Rightarrow> WireguardPeer \<Rightarrow> notReady option" where
  "peerProblem K wg peer =
     (case namespaceNotAllowed wg peer of Some nr \<Rightarrow> Some nr | None \<Rightarrow> admissionProblem K peer)"

fun admitPeers ::
    "('w, 'k, 'u) WireguardReconciler \<Rightarrow> Wireguard \<Rightarrow> WireguardPeer list
     \<Rightarrow> ('w, apiError, WireguardPeer list) io" where
  "admitPeers r wg [] = ret (Inr [])"
| "admitPeers r wg (peer # peers) =
     (case peerProblem (keys r) wg peer of
        None \<Rightarrow> bindE (admitPeers r wg peers) (\<lambda>admitted. ret (Inr (peer # admitted)))
      | Some nr \<Rightarrow> unlessSkipped (markPeerNotReady r peer nr) (admitPeers r wg peers))"

fun releaseLosers ::
    "('w, 'k, 'u) WireguardReconciler \<Rightarrow> (conflictLoser \<Rightarrow> notReady) \<Rightarrow> conflictLoser list
     \<Rightarrow> ('w, apiError, unit) io" where
  "releaseLosers r conflict [] = ret (Inr ())"
| "releaseLosers r conflict (l # ls) =
     unlessSkipped (markPeerNotReady r (loserPeer l) (conflict l)) (releaseLosers r conflict ls)"

definition clearUnusable :: "string \<Rightarrow> WireguardPeer \<Rightarrow> WireguardPeer" where
  "clearUnusable cidr p =
     (if address p \<noteq> [] \<and> \<not> addressUsable (address p) cidr
      then p\<lparr>peerStatus := (peerStatus p)\<lparr>st_Address := []\<rparr>\<rparr> else p)"

section \<open>Allocation\<close>

definition readyPeer :: "string condOps \<Rightarrow> WireguardPeer \<Rightarrow> WireguardPeer" where
  "readyPeer C p = p\<lparr>peerStatus := (peerStatus p)\<lparr>st_Status := Ready,
     st_Message := ''Peer configured'',
     st_Conditions := RemoveStatusCondition C (st_Conditions (peerStatus p)) ConditionReady\<rparr>\<rparr>"

definition setAddress :: "string \<Rightarrow> WireguardPeer \<Rightarrow> WireguardPeer" where
  "setAddress ip p = p\<lparr>peerStatus := (peerStatus p)\<lparr>st_Address := ip\<rparr>\<rparr>"

definition alreadyReady :: "string condOps \<Rightarrow> WireguardPeer \<Rightarrow> bool" where
  "alreadyReady C p \<longleftrightarrow> st_Status (peerStatus p) = Ready
     \<and> FindStatusCondition C (st_Conditions (peerStatus p)) ConditionReady = None"

text \<open>The status write that ends the loop body, and what it appends to the result.\<close>

definition writeReady ::
    "('w, 'k, 'u) WireguardReconciler \<Rightarrow> bool \<Rightarrow> WireguardPeer \<Rightarrow> ('w, apiError, WireguardPeer list) io" where
  "writeReady r isNew peer = do {
     let peer' = readyPeer (peerConditions r) peer;
     res \<leftarrow> updatePeerStatus r peer';
     ret (case res of
            Inr stored \<Rightarrow> Inr [stored]
          | Inl e \<Rightarrow> if \<not> skipPeerWrite e then Inl e else Inr (if isNew then [] else [peer']))
   }"

text \<open>
  The loop of \<^verbatim>\<open>allocatePeers\<close>; \<open>used\<close> is \<^verbatim>\<open>usedIps4\<close>, and \<open>alloc\<close> the allocator's \<^verbatim>\<open>AllocateIP\<close>.
\<close>

fun allocateLoop ::
    "('w, 'k, 'u) WireguardReconciler \<Rightarrow> (string \<Rightarrow> string list \<Rightarrow> 'e + string) \<Rightarrow> string
     \<Rightarrow> string list \<Rightarrow> WireguardPeer list \<Rightarrow> ('w, apiError, WireguardPeer list) io" where
  "allocateLoop r alloc cidr used [] = ret (Inr [])"
| "allocateLoop r alloc cidr used (peer # peers) =
     (if address peer = [] then
        (case alloc cidr used of
           Inl _ \<Rightarrow> unlessSkipped (markPeerNotReady r peer (addressPoolExhausted cidr))
                      (allocateLoop r alloc cidr used peers)
         | Inr ip \<Rightarrow>
           bindE (writeReady r True (setAddress ip peer)) (\<lambda>done.
             bindE (allocateLoop r alloc cidr (used @ [ip]) peers) (\<lambda>rest. ret (Inr (done @ rest)))))
      else if alreadyReady (peerConditions r) peer then
        bindE (allocateLoop r alloc cidr used peers) (\<lambda>rest. ret (Inr (peer # rest)))
      else
        bindE (writeReady r False peer) (\<lambda>done.
          bindE (allocateLoop r alloc cidr used peers) (\<lambda>rest. ret (Inr (done @ rest)))))"

definition allocatePeers ::
    "('w, 'k, 'u) WireguardReconciler \<Rightarrow> (string \<Rightarrow> string list \<Rightarrow> 'e + string)
     \<Rightarrow> (string \<Rightarrow> WireguardPeer list \<Rightarrow> string list) \<Rightarrow> string \<Rightarrow> WireguardPeer list
     \<Rightarrow> ('w, apiError, WireguardPeer list) io" where
  "allocatePeers r alloc usedOf cidr peers = allocateLoop r alloc cidr (usedOf cidr peers) peers"

definition reconcilePeers ::
    "('w, 'k, 'u) WireguardReconciler \<Rightarrow> NamespacedName \<Rightarrow> Wireguard
     \<Rightarrow> ('w, apiError, WireguardPeer list) io" where
  "reconcilePeers r req wg =
     bindE (admittedKeys r wg) (\<lambda>current.
     bindE (getWireguardPeers r req) (\<lambda>peers.
     bindE (admitPeers r wg peers) (\<lambda>admitted.
     let (keep, keyLosers) = dedupePublicKeys admitted current in
     bindE (releaseLosers r (\<lambda>l. publicKeyConflict (loserWinner l)) keyLosers) (\<lambda>_.
     let cidr = effectivePeerCIDR4 wg;
         (kept, losers) = dedupeAddresses (map (clearUnusable cidr) keep) in
     bindE (releaseLosers r (\<lambda>l. addressConflict (address (loserPeer l)) (loserWinner l)) losers) (\<lambda>_.
       allocatePeers r (AllocateIP (ipGenerator r)) GetUsedIPs cidr kept)))))"

fun syncPeerIdentity ::
    "('w, 'k, 'u) WireguardReconciler \<Rightarrow> Wireguard \<Rightarrow> serverIdentity \<Rightarrow> WireguardPeer list
     \<Rightarrow> ('w, apiError, unit) io" where
  "syncPeerIdentity r wg i [] = ret (Inr ())"
| "syncPeerIdentity r wg i (peer # peers) =
     (if st_Endpoint (peerStatus peer) = idEndpoint i \<and> st_ServerPublicKey (peerStatus peer) = idPublicKey i
         \<and> st_LocalCIDRs (peerStatus peer) = wg_LocalCIDRs (wgSpec wg)
      then syncPeerIdentity r wg i peers
      else unlessSkipped
        (bindE (updatePeerStatus r (peer\<lparr>peerStatus := (peerStatus peer)\<lparr>st_Endpoint := idEndpoint i,
            st_ServerPublicKey := idPublicKey i, st_LocalCIDRs := wg_LocalCIDRs (wgSpec wg)\<rparr>\<rparr>))
          (\<lambda>_. ret (Inr ())))
        (syncPeerIdentity r wg i peers))"

section \<open>The Secret\<close>

text \<open>The loop that annotates the gateway's pods, so that the kubelet refreshes their Secret volume.\<close>

fun annotatePods :: "('w, 'k, 'u) WireguardReconciler \<Rightarrow> Pod list \<Rightarrow> ('w, apiError, unit) io" where
  "annotatePods r [] = ret (Inr ())"
| "annotatePods r (pod # pods) = do {
     t \<leftarrow> timeNow r;
     res \<leftarrow> updatePod r (pod\<lparr>podMeta := (podMeta pod)\<lparr>
       Annotations := (Annotations (podMeta pod))(''wgConfigLastUpdated'' \<mapsto> timeFormat r t)\<rparr>\<rparr>);
     case res of
       Inl e \<Rightarrow> if e = Conflict then annotatePods r pods else ret (Inl e)
     | Inr _ \<Rightarrow> annotatePods r pods
   }"

definition syncSecret ::
    "('w, 'k, 'u) WireguardReconciler \<Rightarrow> Wireguard \<Rightarrow> Secret \<Rightarrow> WireguardPeer list
     \<Rightarrow> ('w, goError, unit) io" where
  "syncSecret r wg secret admitted =
     (let privKey = secretEntry secret ''privateKey'';
          state = desiredState wg privKey admitted
      in case marshalState r state of
           Inl e \<Rightarrow> ret (Inl (ErrorText e))
         | Inr b \<Rightarrow>
           if b = secretEntry secret ''state.json'' then ret (Inr ())
           else case SecretForWireguard (setOwner r) wg b privKey (secretEntry secret ''publicKey'') of
                  Inl e \<Rightarrow> ret (Inl e)
                | Inr updated \<Rightarrow>
                    bindE (mapErr ApiErr (updateSecret r updated)) (\<lambda>_.
                    bindE (mapErr ApiErr (listGatewayPods r (wgNamespace wg) (LabelsForWireguard (wgName wg))))
                      (\<lambda>pods. mapErr ApiErr (annotatePods r pods))))"

definition createServerSecret ::
    "('w, 'k, 'u) WireguardReconciler \<Rightarrow> Wireguard \<Rightarrow> WireguardPeer list \<Rightarrow> ('w, goError, unit) io" where
  "createServerSecret r wg admitted =
     bindE (mapErr ErrorText (GeneratePrivateKey r)) (\<lambda>key.
       let privKey = KeyString (keys r) key;
           pubKey = KeyString (keys r) (PublicKeyOf (keys r) key);
           state = desiredState wg privKey admitted
       in case marshalState r state of
            Inl e \<Rightarrow> ret (Inl (ErrorText e))
          | Inr b \<Rightarrow>
            (case SecretForWireguard (setOwner r) wg b privKey pubKey of
               Inl e \<Rightarrow> ret (Inl e)
             | Inr secret \<Rightarrow> mapErr ApiErr (createSecret r secret)))"

section \<open>Reconcile\<close>

definition failWith :: "goError \<Rightarrow> ('w, reconcileResult) state" where
  "failWith e = ret (0, Some e)"

text \<open>Everything after the Secret is known to exist.\<close>

definition reconcileDeployment ::
    "('w, 'k, 'u) WireguardReconciler \<Rightarrow> Wireguard \<Rightarrow> Service \<Rightarrow> Secret \<Rightarrow> WireguardPeer list
     \<Rightarrow> ('w, reconcileResult) state" where
  "reconcileDeployment r wg svc secret admitted =
     (case DeploymentForWireguard (setOwner r) (deploymentBuilder r) wg of
        Inl e \<Rightarrow> failDegraded r wg e ''DeploymentBuildFailed''
      | Inr desired \<Rightarrow> do {
          applied \<leftarrow> applyDeployment r desired;
          case applied of
            Inl e \<Rightarrow> failDegraded r wg e ''DeploymentApplyFailed''
          | Inr dep \<Rightarrow> do {
              let identity = \<lparr>idEndpoint = JoinHostPort (svcClusterIP svc) (fmtInt WireguardPort),
                              idPublicKey = secretEntry secret ''publicKey''\<rparr>;
              synced \<leftarrow> syncPeerIdentity r wg identity admitted;
              case synced of
                Inl e \<Rightarrow> failWith (ApiErr e)
              | Inr _ \<Rightarrow>
                let msg = rolloutProblem dep in
                if msg \<noteq> [] then
                  finishWith r 0 wg (newCondition ConditionReady ConditionFalse ReasonDeploymentNotReady
                    (ErrorText msg)) (Some identity)
                else
                  finishWith r 0 wg (newCondition ConditionReady ConditionTrue ''Active''
                    (ErrorText ''VPN is active!'')) (Some identity)
            }
        })"

text \<open>Everything after the peers are reconciled.\<close>

definition reconcileSecret ::
    "('w, 'k, 'u) WireguardReconciler \<Rightarrow> Wireguard \<Rightarrow> Service \<Rightarrow> WireguardPeer list
     \<Rightarrow> ('w, reconcileResult) state" where
  "reconcileSecret r wg svc admitted = do {
     got \<leftarrow> getSecret r (metaKey (wgMeta wg));
     case got of
       Inr secret \<Rightarrow> do {
         synced \<leftarrow> syncSecret r wg secret admitted;
         case synced of
           Inl e \<Rightarrow> failWith e
         | Inr _ \<Rightarrow> reconcileDeployment r wg svc secret admitted
       }
     | Inl e \<Rightarrow>
       if e = NotFound then do {
         created \<leftarrow> createServerSecret r wg admitted;
         ret (0, case created of Inl e \<Rightarrow> Some e | Inr _ \<Rightarrow> None)
       }
       else failWith (ApiErr e)
   }"

text \<open>Everything after the Service is applied.\<close>

definition reconcileServer ::
    "('w, 'k, 'u) WireguardReconciler \<Rightarrow> NamespacedName \<Rightarrow> Wireguard \<Rightarrow> Service
     \<Rightarrow> ('w, reconcileResult) state" where
  "reconcileServer r req wg svc = do {
     res \<leftarrow> reconcilePeers r req wg;
     case res of
       Inl e \<Rightarrow> failWith (ApiErr e)
     | Inr admitted \<Rightarrow> reconcileSecret r wg svc admitted
   }"

text \<open>Everything after the spec is accepted.\<close>

definition reconcileAccepted ::
    "('w, 'k, 'u) WireguardReconciler \<Rightarrow> NamespacedName \<Rightarrow> Wireguard \<Rightarrow> ('w, reconcileResult) state" where
  "reconcileAccepted r req wg =
     (case ServiceForWireguard (setOwner r) wg of
        Inl e \<Rightarrow> failDegraded r wg e ''ServiceBuildFailed''
      | Inr desired \<Rightarrow> do {
          applied \<leftarrow> applyOwned (services r) svcMeta desired;
          case applied of
            Inl e \<Rightarrow> failDegraded r wg e ''ServiceApplyFailed''
          | Inr svc \<Rightarrow>
            (case clusterIPOutside (Name (svcMeta svc)) (svcClusterIP svc) (wg_LocalCIDRs (wgSpec wg)) of
               Some e \<Rightarrow> finishWith r 60 wg (newCondition ConditionDegraded ConditionTrue
                 ReasonClusterIPOutsideLocalCIDRs e) None
             | None \<Rightarrow> reconcileServer r req wg svc)
        })"

definition Reconcile ::
    "('w, 'k, 'u) WireguardReconciler \<Rightarrow> NamespacedName \<Rightarrow> ('w, reconcileResult) state" where
  "Reconcile r req = do {
     got \<leftarrow> getWireguard r req;
     case got of
       Inl e \<Rightarrow>
         if e = NotFound then do {
           res \<leftarrow> markPeersWireguardNotFound r req;
           ret (0, case res of Inl e \<Rightarrow> Some (ApiErr e) | Inr _ \<Rightarrow> None)
         }
         else failWith (ApiErr e)
     | Inr wg \<Rightarrow>
       if ws_Status (wgStatus wg) = [] then
         finishWith r 0 wg (newCondition ConditionProgressing ConditionTrue ''FetchingStatus''
           (ErrorText ''Fetching Wireguard status'')) None
       else do {
         problem \<leftarrow> specProblem (getSecret r) wg;
         case problem of
           Inl e \<Rightarrow> failWith e
         | Inr (reason, msg) \<Rightarrow>
           if reason \<noteq> [] then
             finishWith r 60 wg (newCondition ConditionDegraded ConditionTrue reason msg) None
           else reconcileAccepted r req wg
       }
   }"

section \<open>What a pass admits\<close>

text \<open>
  The documented behaviour of a status update: on success the server returns the object that was
  sent, with its name, spec and status; only server-side metadata differs.
\<close>

definition echoes :: "('w, 'k, 'u) WireguardReconciler \<Rightarrow> bool" where
  "echoes r \<longleftrightarrow> (\<forall>p w q w'. run_state (updatePeerStatus r p) w = (Inr q, w') \<longrightarrow>
     peerKey q = peerKey p \<and> peerSpec q = peerSpec p \<and> peerStatus q = peerStatus p)"

text \<open>What identifies a peer for the server: its name and its spec.\<close>

definition ident :: "WireguardPeer \<Rightarrow> NamespacedName \<times> WireguardPeerSpec" where
  "ident p = (peerKey p, peerSpec p)"

lemma ident_update [simp]:
  "ident (setAddress ip p) = ident p" "ident (readyPeer C p) = ident p" "ident (clearUnusable c p) = ident p"
  by (simp_all add: ident_def setAddress_def readyPeer_def clearUnusable_def)

lemma address_update [simp]:
  "address (setAddress ip p) = ip" "address (readyPeer C p) = address p"
  by (simp_all add: setAddress_def readyPeer_def)

lemma unlessSkipped_run:
  assumes "run_state (unlessSkipped m k) w = (Inr x, w')"
  obtains w'' where "run_state k w'' = (Inr x, w')"
  using assms by (auto simp: unlessSkipped_def split: prod.splits sum.splits if_splits)

lemma echoes_run:
  assumes "echoes r" and "run_state (updatePeerStatus r p) w = (Inr q, w')"
  shows "ident q = ident p" and "peerStatus q = peerStatus p"
  using assms unfolding echoes_def ident_def by blast+

lemma writeReady_run:
  assumes "echoes r" and "run_state (writeReady r isNew p) w = (Inr out, w')"
  shows "out = [] \<or> (\<exists>q. out = [q] \<and> ident q = ident p \<and> address q = address p)"
proof (cases "run_state (updatePeerStatus r (readyPeer (peerConditions r) p)) w")
  case (Pair res w1)
  show ?thesis
  proof (cases res)
    case (Inl e)
    then show ?thesis using assms(2) Pair by (auto simp: writeReady_def Let_def split: if_splits)
  next
    case (Inr q)
    then show ?thesis
      using assms(2) Pair echoes_run [OF assms(1) Pair [unfolded Inr]] by (auto simp: writeReady_def Let_def)
  qed
qed

lemma admitPeers_run:
  assumes "run_state (admitPeers r wg peers) w = (Inr admitted, w')"
  shows "admitted = filter (\<lambda>p. peerProblem (keys r) wg p = None) peers"
  using assms
proof (induction peers arbitrary: w admitted w')
  case (Cons p ps)
  show ?case
  proof (cases "peerProblem (keys r) wg p")
    case None
    then show ?thesis using Cons by (auto split: prod.splits sum.splits)
  next
    case (Some nr)
    then show ?thesis using Cons by (auto elim: unlessSkipped_run)
  qed
qed simp

text \<open>A peer that held its address is returned even when its write is skipped.\<close>

lemma writeReady_held:
  assumes "echoes r" and "run_state (writeReady r False p) w = (Inr out, w')"
  shows "\<exists>q. out = [q] \<and> ident q = ident p \<and> address q = address p"
proof (cases "run_state (updatePeerStatus r (readyPeer (peerConditions r) p)) w")
  case (Pair res w2)
  then show ?thesis
    using assms(2) echoes_run [OF assms(1), of "readyPeer (peerConditions r) p" w]
    by (cases res) (auto simp: writeReady_def Let_def split: if_splits)
qed

text \<open>One turn of the loop, by what the peer holds.\<close>

lemma allocateLoop_Cons:
  assumes "echoes r" and "run_state (allocateLoop r alloc cidr used (p # ps)) w = (Inr out, w')"
  obtains (full) e w1 where "address p = []" "alloc cidr used = Inl e"
      "run_state (allocateLoop r alloc cidr used ps) w1 = (Inr out, w')"
  | (fresh) ip d rest w1 where "address p = []" "alloc cidr used = Inr ip"
      "d = [] \<or> (\<exists>q. d = [q] \<and> ident q = ident p \<and> address q = ip)"
      "run_state (allocateLoop r alloc cidr (used @ [ip]) ps) w1 = (Inr rest, w')" "out = d @ rest"
  | (held) q rest w1 where "address p \<noteq> []" "ident q = ident p" "address q = address p"
      "run_state (allocateLoop r alloc cidr used ps) w1 = (Inr rest, w')" "out = q # rest"
proof (cases "address p = []")
  case True
  show thesis
  proof (cases "alloc cidr used")
    case (Inl e)
    then show thesis using assms(2) True full by (auto elim: unlessSkipped_run)
  next
    case (Inr ip)
    then obtain d rest w1 where d: "run_state (writeReady r True (setAddress ip p)) w = (Inr d, w1)"
      and rest: "run_state (allocateLoop r alloc cidr (used @ [ip]) ps) w1 = (Inr rest, w')" "out = d @ rest"
      using assms(2) True by (auto split: prod.splits sum.splits)
    have "d = [] \<or> (\<exists>q. d = [q] \<and> ident q = ident p \<and> address q = ip)"
      using writeReady_run [OF assms(1) d] by simp
    then show thesis by (rule fresh [OF True Inr _ rest])
  qed
next
  case False
  show thesis
  proof (cases "alreadyReady (peerConditions r) p")
    case True
    then obtain rest where "run_state (allocateLoop r alloc cidr used ps) w = (Inr rest, w')" "out = p # rest"
      using assms(2) False by (auto split: prod.splits sum.splits)
    then show thesis by (rule held [OF False refl refl])
  next
    case nr: False
    then obtain d rest w1 where d: "run_state (writeReady r False p) w = (Inr d, w1)"
      and rest: "run_state (allocateLoop r alloc cidr used ps) w1 = (Inr rest, w')" and out: "out = d @ rest"
      using assms(2) False by (auto split: prod.splits sum.splits)
    obtain q where q: "d = [q]" "ident q = ident p" "address q = address p"
      using writeReady_held [OF assms(1) d] by blast
    show thesis by (rule held [OF False q(2,3) rest]) (simp add: out q(1))
  qed
qed

lemma allocateLoop_keeps:
  assumes "echoes r" and "run_state (allocateLoop r alloc cidr used peers) w = (Inr out, w')"
    and "p \<in> set peers" and "address p \<noteq> []"
  shows "\<exists>q \<in> set out. ident q = ident p \<and> address q = address p"
  using assms(2-)
proof (induction peers arbitrary: used w out w')
  case (Cons x xs)
  from assms(1) Cons.prems(1) show ?case
    by (cases rule: allocateLoop_Cons) (use Cons.IH Cons.prems(2,3) in fastforce)+
qed simp

context allocator
begin

text \<open>
  The loop returns a subsequence of its input; an address it returns is one the peer held or one
  that was free; and no two are the same.
\<close>

lemma allocateLoop_run:
  assumes "echoes r" and "distinct (filter (\<lambda>a. a \<noteq> []) (map address peers))"
    and "\<forall>p \<in> set peers. address p \<noteq> [] \<longrightarrow> address p \<in> set used"
    and "run_state (allocateLoop r alloc cidr used peers) w = (Inr out, w')"
  shows "subseq (map ident out) (map ident peers) \<and> distinct (map address out)
    \<and> (\<forall>q \<in> set out. (\<exists>p \<in> set peers. address q = address p \<and> address p \<noteq> []) \<or> address q \<notin> set used)"
  using assms(2-)
proof (induction peers arbitrary: used w out w')
  case (Cons p ps)
  note IH = Cons.IH and prems = Cons.prems
  from assms(1) prems(3) show ?case
  proof (cases rule: allocateLoop_Cons)
    case (full e w1)
    from IH [OF _ _ full(3)] show ?thesis using prems(1,2) full(1) by fastforce
  next
    case (fresh ip d rest w1)
    have *: "subseq (map ident rest) (map ident ps) \<and> distinct (map address rest)
      \<and> (\<forall>q \<in> set rest. (\<exists>p \<in> set ps. address q = address p \<and> address p \<noteq> []) \<or> address q \<notin> set (used @ [ip]))"
      by (rule IH [OF _ _ fresh(4)]) (use prems(1,2) fresh(1) in auto)
    have "ip \<notin> set used" by (rule alloc_fresh [OF fresh(2)])
    moreover from this have "ip \<notin> address ` set rest" using * prems(2) by fastforce
    ultimately show ?thesis using * fresh(3,5) by auto
  next
    case (held q rest w1)
    have *: "subseq (map ident rest) (map ident ps) \<and> distinct (map address rest)
      \<and> (\<forall>q \<in> set rest. (\<exists>p \<in> set ps. address q = address p \<and> address p \<noteq> []) \<or> address q \<notin> set used)"
      by (rule IH [OF _ _ held(4)]) (use prems(1,2) held(1) in auto)
    moreover have "address p \<notin> address ` set rest" using * prems(1,2) held(1) by fastforce
    ultimately show ?thesis using held by auto
  qed
qed simp

end

context pool_allocator
begin

text \<open>In a valid range every address the loop returns is usable.\<close>

lemma allocateLoop_usable:
  assumes "echoes r" and valid: "validatePeerCIDR cidr = None"
    and "set (usedOf cidr ps0) \<subseteq> set used"
    and "\<forall>p \<in> set peers. address p \<noteq> [] \<longrightarrow> addressUsable (address p) cidr"
    and "run_state (allocateLoop r alloc cidr used peers) w = (Inr out, w')"
  shows "\<forall>q \<in> set out. addressUsable (address q) cidr"
  using assms(3-)
proof (induction peers arbitrary: used w out w')
  case (Cons p ps)
  note IH = Cons.IH and prems = Cons.prems
  from assms(1) prems(3) show ?case
  proof (cases rule: allocateLoop_Cons)
    case (full e w1)
    from IH [OF _ _ full(3)] show ?thesis using prems(1,2) by simp
  next
    case (fresh ip d rest w1)
    have "\<forall>q \<in> set rest. addressUsable (address q) cidr"
      by (rule IH [OF _ _ fresh(4)]) (use prems(1,2) in auto)
    moreover have "addressUsable ip cidr" by (rule alloc_usable [OF valid prems(1) fresh(2)])
    ultimately show ?thesis using fresh(3,5) by auto
  next
    case (held q rest w1)
    have "\<forall>q \<in> set rest. addressUsable (address q) cidr"
      by (rule IH [OF _ _ held(4)]) (use prems(1,2) in auto)
    then show ?thesis using held prems(2) by auto
  qed
qed simp

end

section \<open>The peers of one pass\<close>

text \<open>The peers that reach allocation: admissible, one per public key, one per address.\<close>

definition contenders ::
    "'k wgKeys \<Rightarrow> Wireguard \<Rightarrow> (NamespacedName \<rightharpoonup> string) \<Rightarrow> WireguardPeer list \<Rightarrow> WireguardPeer list" where
  "contenders K wg current peers =
     fst (dedupeAddresses (map (clearUnusable (effectivePeerCIDR4 wg))
       (fst (dedupePublicKeys (filter (\<lambda>p. peerProblem K wg p = None) peers) current))))"

lemma map_nth_filter_distinct:
  assumes "distinct (map f xs)"
  shows "distinct (map (\<lambda>i. f (xs ! i)) (filter P [0..<length xs]))"
proof -
  have "map (\<lambda>i. f (xs ! i)) [0..<length xs] = map f xs"
    by (rule nth_equalityI) simp_all
  then show ?thesis using assms distinct_map_filter by metis
qed

lemma splitHolders_distinct: "distinct (map f xs) \<Longrightarrow> distinct (map f (fst (splitHolders key xs H)))"
  by (simp add: splitHolders_def comp_def map_nth_filter_distinct)

lemma reconcilePeers_run:
  assumes "run_state (reconcilePeers r req wg) w = (Inr out, w')"
  obtains current peers w1 where "\<forall>p \<in> set peers. gatewayKey p = req"
    "run_state (allocatePeers r (AllocateIP (ipGenerator r)) GetUsedIPs (effectivePeerCIDR4 wg)
       (contenders (keys r) wg current peers)) w1 = (Inr out, w')"
proof -
  obtain current peers admitted keep kl kept ls w1 w2 w3 where
    a: "run_state (admitPeers r wg (filter (\<lambda>p. gatewayKey p = req) peers)) w1 = (Inr admitted, w2)"
    and d: "dedupePublicKeys admitted current = (keep, kl)"
      "dedupeAddresses (map (clearUnusable (effectivePeerCIDR4 wg)) keep) = (kept, ls)"
    and o: "run_state (allocatePeers r (AllocateIP (ipGenerator r)) GetUsedIPs (effectivePeerCIDR4 wg) kept) w3
      = (Inr out, w')"
    using assms unfolding reconcilePeers_def Let_def getWireguardPeers_def
    by (auto split: prod.splits sum.splits)
  have "kept = contenders (keys r) wg current (filter (\<lambda>p. gatewayKey p = req) peers)"
    using admitPeers_run [OF a] d by (simp add: contenders_def)
  then show thesis
    using that [of "filter (\<lambda>p. gatewayKey p = req) peers" current w3] o by simp
qed

lemma dedupe_subset:
  "set (fst (splitHolders key peers H)) \<subseteq> set peers"
  "set (fst (dedupePublicKeys peers current)) \<subseteq> set peers"
  "set (fst (dedupeAddresses peers)) \<subseteq> set peers"
  by (auto simp: splitHolders_def dedupePublicKeys_def dedupeAddresses_def)

lemma distinct_nonempty:
  "\<forall>x \<in> set xs. f x \<noteq> [] \<Longrightarrow> distinct (map f (filter (\<lambda>x. f x \<noteq> []) xs)) \<Longrightarrow> distinct (map f xs)"
  using filter_True [of xs "\<lambda>x. f x \<noteq> []"] by simp

lemma contenders_admissible:
  assumes "p \<in> set (contenders K wg current peers)"
  obtains p0 where "p0 \<in> set peers" "p = clearUnusable (effectivePeerCIDR4 wg) p0"
    "peerProblem K wg p0 = None"
proof -
  have "p \<in> clearUnusable (effectivePeerCIDR4 wg) ` set (fst (dedupePublicKeys
    (filter (\<lambda>p. peerProblem K wg p = None) peers) current))"
    using assms dedupe_subset(3) unfolding contenders_def by fastforce
  then obtain p0 where "p = clearUnusable (effectivePeerCIDR4 wg) p0"
    "p0 \<in> set (filter (\<lambda>p. peerProblem K wg p = None) peers)"
    using dedupe_subset(2) by blast
  then show thesis using that [of p0] by simp
qed

lemma namespaceNotAllowed_None:
  "namespaceNotAllowed wg p = None \<longleftrightarrow>
     (\<forall>a. wg_AllowedNamespaces (wgSpec wg) = Some a \<longrightarrow> From a = FromSame \<longrightarrow> peerNamespace p = wgNamespace wg)"
  by (auto simp: namespaceNotAllowed_def Let_def split: option.splits)

lemma peerProblem_None:
  "peerProblem K wg p = None \<longleftrightarrow>
     namespaceNotAllowed wg p = None \<and> publicKey p \<noteq> [] \<and> canonicalKey K (publicKey p)"
  by (auto simp: peerProblem_def admissionProblem_None split: option.splits)

lemma clearUnusable_simps [simp]:
  "publicKey (clearUnusable c p) = publicKey p" "peerMeta (clearUnusable c p) = peerMeta p"
  "peerSpec (clearUnusable c p) = peerSpec p"
  by (simp_all add: clearUnusable_def)

lemma clearUnusable_address: "address (clearUnusable c p) \<noteq> [] \<Longrightarrow> addressUsable (address (clearUnusable c p)) c"
  by (auto simp: clearUnusable_def split: if_splits)

lemma contenders_distinct:
  "distinct (map publicKey (contenders K wg current peers))"
  "distinct (filter (\<lambda>a. a \<noteq> []) (map address (contenders K wg current peers)))"
proof -
  let ?A = "filter (\<lambda>p. peerProblem K wg p = None) peers"
  let ?k = "fst (dedupePublicKeys ?A current)"
  let ?m = "map (clearUnusable (effectivePeerCIDR4 wg)) ?k"
  have "\<forall>p \<in> set ?k. publicKey p \<noteq> []"
    using dedupe_subset(2) [of ?A current] by (auto simp: peerProblem_None)
  then have "distinct (map publicKey ?k)"
    using pkey.keep_distinct [of ?A current] unfolding dedupePublicKeys_def by (rule distinct_nonempty)
  then have "distinct (map publicKey ?m)" by (simp add: comp_def)
  then show "distinct (map publicKey (contenders K wg current peers))"
    unfolding contenders_def dedupeAddresses_def by (rule splitHolders_distinct)
  show "distinct (filter (\<lambda>a. a \<noteq> []) (map address (contenders K wg current peers)))"
    using addr.keep_distinct [of ?m] unfolding contenders_def dedupeAddresses_def
    by (simp add: filter_map comp_def)
qed

text \<open>What identifies the peers returned is what identified them when they were listed.\<close>

lemma subseq_ident_distinct:
  "subseq (map ident xs) (map ident ys) \<Longrightarrow> distinct (map publicKey ys) \<Longrightarrow> distinct (map publicKey xs)"
proof -
  assume s: "subseq (map ident xs) (map ident ys)" and d: "distinct (map publicKey ys)"
  have "map publicKey zs = map (\<lambda>x. spec_PublicKey (snd x)) (map ident zs)" for zs
    by (simp add: ident_def)
  then have "subseq (map publicKey xs) (map publicKey ys)" using subseq_map [OF s] by metis
  then show ?thesis using d by (metis distinct_nthsI subseq_conv_nths)
qed

lemma subseq_ident_mem:
  assumes "subseq (map ident xs) (map ident ys)" and "x \<in> set xs"
  obtains y where "y \<in> set ys" "ident x = ident y"
proof -
  have "ident x \<in> set (map ident ys)"
    using assms set_nths_subset unfolding subseq_conv_nths by (metis imageI list.set_map subsetD)
  then show thesis using that by auto
qed

text \<open>Everything a pass promises about the peers it returns.\<close>

definition servable :: "'k wgKeys \<Rightarrow> NamespacedName \<Rightarrow> Wireguard \<Rightarrow> WireguardPeer \<Rightarrow> bool" where
  "servable K req wg p \<longleftrightarrow> gatewayKey p = req \<and> namespaceNotAllowed wg p = None
     \<and> canonicalKey K (publicKey p) \<and> addressUsable (address p) (effectivePeerCIDR4 wg)"

lemma ident_eqD: 
  "ident p = ident q \<Longrightarrow> peerKey p = peerKey q \<and> peerSpec p = peerSpec q
     \<and> peerName p = peerName q \<and> peerNamespace p = peerNamespace q"
  by (simp add: ident_def metaKey_def)

lemma contenders_servable:
  assumes g: "\<forall>p \<in> set peers. gatewayKey p = req" and p: "p \<in> set (contenders K wg current peers)"
  shows "gatewayKey p = req" "namespaceNotAllowed wg p = None" "canonicalKey K (publicKey p)"
    "address p \<noteq> [] \<Longrightarrow> addressUsable (address p) (effectivePeerCIDR4 wg)"
proof -
  obtain p0 where p0: "p0 \<in> set peers" "p = clearUnusable (effectivePeerCIDR4 wg) p0"
    "peerProblem K wg p0 = None"
    using p by (rule contenders_admissible)
  then show "gatewayKey p = req" "namespaceNotAllowed wg p = None" "canonicalKey K (publicKey p)"
    using g by (simp_all add: peerProblem_None gatewayKey_def namespaceNotAllowed_None)
  show "address p \<noteq> [] \<Longrightarrow> addressUsable (address p) (effectivePeerCIDR4 wg)"
    using p0(2) clearUnusable_address by simp
qed

lemma reconcilePeers_servable:
  assumes echo: "echoes r" and gen: "genLaw (ipGenerator r)"
    and valid: "validatePeerCIDR (effectivePeerCIDR4 wg) = None"
    and run: "run_state (reconcilePeers r req wg) w = (Inr out, w')"
  shows "distinct (map publicKey out) \<and> distinct (map address out) \<and> (\<forall>p \<in> set out. servable (keys r) req wg p)"
  using run
proof (rule reconcilePeers_run)
  let ?c = "effectivePeerCIDR4 wg"
  fix current peers w1
  let ?k = "contenders (keys r) wg current peers"
  assume g: "\<forall>p \<in> set peers. gatewayKey p = req"
    and "run_state (allocatePeers r (AllocateIP (ipGenerator r)) GetUsedIPs ?c ?k) w1 = (Inr out, w')"
  then have alloc: "run_state (allocateLoop r (AllocateIP (ipGenerator r)) ?c (GetUsedIPs ?c ?k) ?k) w1 = (Inr out, w')"
    by (simp only: allocatePeers_def)
  have "\<forall>p \<in> set ?k. address p \<noteq> [] \<longrightarrow> address p \<in> set (GetUsedIPs ?c ?k)"
    by (simp add: GetUsedIPs_covers)
  note 1 = ipam.allocateLoop_run [OF echo contenders_distinct(2) this alloc]
  note adm = contenders_servable [OF g]
  have "\<forall>p \<in> set ?k. address p \<noteq> [] \<longrightarrow> addressUsable (address p) ?c" by (simp add: adm)
  note 2 = pool_allocator.allocateLoop_usable [OF pool_allocator_gen [OF gen] echo valid order.refl this alloc]
  have "servable (keys r) req wg q" if q: "q \<in> set out" for q
  proof (rule subseq_ident_mem [OF conjunct1 [OF 1] q])
    fix p assume p: "p \<in> set ?k" "ident q = ident p"
    then show ?thesis using adm(1-3) [OF p(1)] 2 q ident_eqD [of q p]
      by (simp add: servable_def gatewayKey_def namespaceNotAllowed_None)
  qed
  then show ?thesis using 1 subseq_ident_distinct [OF conjunct1 [OF 1] contenders_distinct(1)] by simp
qed

end
