(* ===== verification/Simulation.thy ===== *)
theory Simulation
  imports Reconcile
begin

text \<open>
  A concrete API server that keeps its objects in lists, accepts every write and records it. It
  satisfies what the theorems about the reconciler assume of the client, of the condition helpers, of
  the key library and of the address generator, and the witnesses run the reconciler against it.
\<close>

section \<open>The server\<close>

record simWorld =
  simWireguards :: "Wireguard list"
  simPeers :: "WireguardPeer list"
  simSecrets :: "Secret list"
  simPeerWrites :: "WireguardPeer list"
  simSecretWrites :: "Secret list"
  simStatusWrites :: "Wireguard list"
  simApplied :: "(Service + Deployment) list"

definition findBy :: "('a \<Rightarrow> ObjectMeta) \<Rightarrow> NamespacedName \<Rightarrow> 'a list \<Rightarrow> apiError + 'a" where
  "findBy m k xs = (case List.find (\<lambda>x. metaKey (m x) = k) xs of None \<Rightarrow> Inl NotFound | Some x \<Rightarrow> Inr x)"

definition storeBy :: "('a \<Rightarrow> ObjectMeta) \<Rightarrow> 'a \<Rightarrow> 'a list \<Rightarrow> 'a list" where
  "storeBy m x xs = x # filter (\<lambda>y. metaKey (m y) \<noteq> metaKey (m x)) xs"

definition simServices :: "(simWorld, Service, Service + Deployment) objClient" where
  "simServices = \<lparr>
     objKind = (\<lambda>_. Inr ''Service''),
     objGet = (\<lambda>_. readSim (\<lambda>_. Inl NotFound)),
     UpgradeManagedFieldsPatch = (\<lambda>_. Inr None),
     objPatch = (\<lambda>_ _. readSim (\<lambda>_. Inr ())),
     ToUnstructured = (\<lambda>s. Inr (Inl s)),
     objApply = (\<lambda>u. writeSim (\<lambda>w. w\<lparr>simApplied := u # simApplied w\<rparr>) (Inr (case u of
        Inl s \<Rightarrow> Inl (s\<lparr>svcClusterIP := ''10.96.0.10''\<rparr>) | Inr d \<Rightarrow> Inr d))),
     FromUnstructured = (\<lambda>u. case u of Inl s \<Rightarrow> Inr s | Inr _ \<Rightarrow> Inl ''not a Service'')\<rparr>"

definition simDeployments :: "(simWorld, Deployment, Service + Deployment) objClient" where
  "simDeployments = \<lparr>
     objKind = (\<lambda>_. Inr ''Deployment''),
     objGet = (\<lambda>_. readSim (\<lambda>_. Inl NotFound)),
     UpgradeManagedFieldsPatch = (\<lambda>_. Inr None),
     objPatch = (\<lambda>_ _. readSim (\<lambda>_. Inr ())),
     ToUnstructured = (\<lambda>d. Inr (Inr d)),
     objApply = (\<lambda>u. writeSim (\<lambda>w. w\<lparr>simApplied := u # simApplied w\<rparr>) (Inr (case u of
        Inl s \<Rightarrow> Inl s | Inr d \<Rightarrow> Inr (d\<lparr>depReadyReplicas := 1, depUpdatedReplicas := 1\<rparr>)))),
     FromUnstructured = (\<lambda>u. case u of Inr d \<Rightarrow> Inr d | Inl _ \<Rightarrow> Inl ''not a Deployment'')\<rparr>"

definition simReconciler :: "(simWorld, 8 word, Service + Deployment) WireguardReconciler" where
  "simReconciler = \<lparr>
     getWireguard = (\<lambda>k. readSim (\<lambda>w. findBy wgMeta k (simWireguards w))),
     updateWireguardStatus = (\<lambda>wg. writeSim (\<lambda>w. w\<lparr>simWireguards := storeBy wgMeta wg (simWireguards w),
        simStatusWrites := wg # simStatusWrites w\<rparr>) (Inr ())),
     listPeers = readSim (\<lambda>w. Inr (simPeers w)),
     updatePeerStatus = (\<lambda>p. writeSim (\<lambda>w. w\<lparr>simPeers := storeBy peerMeta p (simPeers w),
        simPeerWrites := p # simPeerWrites w\<rparr>) (Inr p)),
     getSecret = (\<lambda>k. readSim (\<lambda>w. findBy secMeta k (simSecrets w))),
     createSecret = (\<lambda>s. writeSim (\<lambda>w. w\<lparr>simSecrets := storeBy secMeta s (simSecrets w),
        simSecretWrites := s # simSecretWrites w\<rparr>) (Inr ())),
     updateSecret = (\<lambda>s. writeSim (\<lambda>w. w\<lparr>simSecrets := storeBy secMeta s (simSecrets w),
        simSecretWrites := s # simSecretWrites w\<rparr>) (Inr ())),
     listGatewayPods = (\<lambda>_ _. readSim (\<lambda>_. Inr [])),
     updatePod = (\<lambda>_. readSim (\<lambda>_. Inr ())),
     services = simServices,
     deployments = simDeployments,
     timeNow = readSim (\<lambda>_. 1),
     timeFormat = (\<lambda>_. ''2026-01-01T00-00-00''),
     GeneratePrivateKey = readSim (\<lambda>_. Inr 65),
     peerConditions = listConditions,
     wgConditions = listConditions,
     keys = byteKeys,
     marshalState = (\<lambda>s. Inr (Join '','' (map publicKey (Peers s)))),
     unmarshalState = (\<lambda>_. None),
     ipGenerator = prefixGen,
     setOwner = (\<lambda>_ m. Inr m),
     deploymentBuilder = \<lparr>agentImage = ''agent'', agentImagePullPolicy = ''Always''\<rparr>\<rparr>"

lemma echoes_sim: "echoes simReconciler"
  by (simp add: echoes_def simReconciler_def)

lemma sim_laws:
  "condLaws (peerConditions simReconciler)" "condLaws (wgConditions simReconciler)"
  "genLaw (ipGenerator simReconciler)" "keyLaws (keys simReconciler)"
  by (simp_all add: simReconciler_def condLaws_listConditions genLaw_prefixGen keyLaws_byteKeys)

section \<open>A gateway and its peers\<close>

definition simInitial :: simWorld where
  "simInitial = \<lparr>simWireguards = [exampleWireguard],
     simPeers = [examplePeer ''a'' (simKey CHR ''a'') 1 ''10.9.0.2'', examplePeer ''b'' (simKey CHR ''b'') 2 ''10.9.0.2'',
       examplePeer ''c'' (simKey CHR ''a'') 3 [], examplePeer ''d'' (simKey CHR ''d'') 4 [], examplePeer ''e'' [] 5 []],
     simSecrets = [], simPeerWrites = [], simSecretWrites = [], simStatusWrites = [], simApplied = []\<rparr>"

abbreviation simRequest :: NamespacedName where
  "simRequest \<equiv> NamespacedName ''vpn'' ''gw''"

end
