(* ===== verification/Discipline.thy ===== *)
theory Discipline
  imports Simulation
begin

text \<open>
  What the reconciler writes. The world is any state and the client's answers are arbitrary; a
  predicate \<open>I\<close> that survives the reads and the writes of a given shape survives the whole
  operation, so the operation makes no write of another shape. Writes by others are covered, because
  a read may change the world.
\<close>

section \<open>Peer status writes\<close>

text \<open>A write that takes a peer out of service: no address, no identity, and Ready is False.\<close>

definition notReadyWrite :: "string condOps \<Rightarrow> WireguardPeer \<Rightarrow> bool" where
  "notReadyWrite C p \<longleftrightarrow> address p = [] \<and> st_Endpoint (peerStatus p) = []
     \<and> st_ServerPublicKey (peerStatus p) = [] \<and> st_LocalCIDRs (peerStatus p) = []
     \<and> (\<exists>c. FindStatusCondition C (st_Conditions (peerStatus p)) ConditionReady = Some c
          \<and> condStatus c = ConditionFalse \<and> condObservedGeneration c = Generation (peerMeta p))"

text \<open>A write that puts a peer into service.\<close>

definition readyWrite :: "string condOps \<Rightarrow> WireguardPeer \<Rightarrow> bool" where
  "readyWrite C p \<longleftrightarrow> st_Status (peerStatus p) = Ready
     \<and> FindStatusCondition C (st_Conditions (peerStatus p)) ConditionReady = None"

lemma notReadyPeer_matches:
  assumes "condLaws C"
  shows "peerStatusMatches C (notReadyPeer C p nr) nr"
proof -
  let ?c = "\<lparr>condType = ConditionReady, condStatus = ConditionFalse, condReason = nr_Reason nr,
     condMessage = nr_ConditionMessage nr,
     condObservedGeneration = Generation (peerMeta p), condLastTransitionTime = 0\<rparr>"
  obtain d where "FindStatusCondition C (SetStatusCondition C (st_Conditions (peerStatus p)) ?c) (condType ?c) = Some d"
    "sameCondition d ?c"
    using assms unfolding condLaws_def by blast
  then show ?thesis by (simp add: peerStatusMatches_def notReadyPeer_def Let_def sameCondition_def)
qed

lemma notReadyPeer_write: "condLaws C \<Longrightarrow> notReadyWrite C (notReadyPeer C p nr)"
  using notReadyPeer_matches [of C p nr]
  by (auto simp: notReadyWrite_def peerStatusMatches_def Let_def split: option.splits)

lemma readyPeer_write: "condLaws C \<Longrightarrow> readyWrite C (readyPeer C p)"
  by (simp add: readyWrite_def readyPeer_def condLaws_def)

definition takesNotReady :: "('w, 'k, 'u) WireguardReconciler \<Rightarrow> ('w \<Rightarrow> bool) \<Rightarrow> bool" where
  "takesNotReady r I \<longleftrightarrow> (\<forall>p. notReadyWrite (peerConditions r) p \<longrightarrow> maintains I (updatePeerStatus r p))"

lemma maintains_unlessSkipped [triple_rules]:
  "maintains I m \<Longrightarrow> maintains I k \<Longrightarrow> maintains I (unlessSkipped m k)"
  unfolding unlessSkipped_def by (intro triple_rules)

lemma markPeerNotReady_maintains:
  assumes "condLaws (peerConditions r)" and "takesNotReady r I"
  shows "maintains I (markPeerNotReady r p nr)"
  using assms unfolding markPeerNotReady_def takesNotReady_def
  by (intro triple_rules) (auto intro: notReadyPeer_write)

lemma admitPeers_maintains:
  assumes "condLaws (peerConditions r)" and "takesNotReady r I"
  shows "maintains I (admitPeers r wg ps)"
proof (induction ps)
  case (Cons p ps)
  then show ?case
    by (auto intro!: triple_rules markPeerNotReady_maintains assms)
qed (simp add: triple_rules)

lemma releaseLosers_maintains:
  assumes "condLaws (peerConditions r)" and "takesNotReady r I"
  shows "maintains I (releaseLosers r f ls)"
  by (induction ls) (auto intro!: triple_rules markPeerNotReady_maintains assms)

lemma markAllNotReady_maintains:
  assumes "condLaws (peerConditions r)" and "takesNotReady r I"
  shows "maintains I (markAllNotReady r nr ps)"
  by (induction ps) (auto intro!: triple_rules markPeerNotReady_maintains assms)

lemma writeReady_maintains:
  "maintains I (updatePeerStatus r (readyPeer (peerConditions r) p)) \<Longrightarrow> maintains I (writeReady r isNew p)"
  unfolding writeReady_def Let_def by (intro triple_rules)

context pool_allocator
begin

lemma allocateLoop_maintains:
  assumes laws: "condLaws (peerConditions r)" "takesNotReady r I" and valid: "validatePeerCIDR cidr = None"
    and "set (usedOf cidr ps0) \<subseteq> set used"
    and "\<And>p ip. p \<in> set peers \<Longrightarrow> addressUsable ip cidr \<Longrightarrow>
      maintains I (updatePeerStatus r (readyPeer (peerConditions r) (setAddress ip p)))"
    and "\<And>p. p \<in> set peers \<Longrightarrow> address p \<noteq> [] \<Longrightarrow>
      maintains I (updatePeerStatus r (readyPeer (peerConditions r) p))"
  shows "maintains I (allocateLoop r alloc cidr used peers)"
  using assms(4-)
proof (induction peers arbitrary: used)
  case (Cons p ps)
  have rest: "maintains I (allocateLoop r alloc cidr used' ps)" if "set used \<subseteq> set used'" for used'
    using Cons.IH [of used'] Cons.prems that by (meson list.set_intros(2) order.trans)
  show ?case
  proof (cases "address p = []")
    case True
    have "maintains I (writeReady r True (setAddress ip p))" if "alloc cidr used = Inr ip" for ip
      using alloc_usable [OF valid Cons.prems(1) that] Cons.prems(2) by (intro writeReady_maintains) simp
    moreover have "maintains I (allocateLoop r alloc cidr (used @ [ip]) ps)" for ip by (rule rest) auto
    ultimately show ?thesis using True rest
      by (auto intro!: triple_rules markPeerNotReady_maintains laws split: sum.split)
  next
    case False
    then have "maintains I (writeReady r False p)"
      using Cons.prems(3) by (intro writeReady_maintains) simp
    then show ?thesis using False rest by (auto intro!: triple_rules)
  qed
qed (simp add: triple_rules)

end

text \<open>The shape of every peer write of a pass.\<close>

definition soundWrite :: "string condOps \<Rightarrow> 'k wgKeys \<Rightarrow> NamespacedName \<Rightarrow> Wireguard \<Rightarrow> WireguardPeer \<Rightarrow> bool" where
  "soundWrite C K req wg p \<longleftrightarrow> notReadyWrite C p \<or> (readyWrite C p \<and> servable K req wg p)"

definition readsKeep :: "('w, 'k, 'u) WireguardReconciler \<Rightarrow> ('w \<Rightarrow> bool) \<Rightarrow> bool" where
  "readsKeep r I \<longleftrightarrow> (\<forall>k. maintains I (getWireguard r k)) \<and> maintains I (listPeers r)
     \<and> (\<forall>k. maintains I (getSecret r k)) \<and> maintains I (timeNow r)
     \<and> (\<forall>n l. maintains I (listGatewayPods r n l)) \<and> maintains I (GeneratePrivateKey r)
     \<and> (\<forall>k. maintains I (objGet (services r) k)) \<and> (\<forall>k. maintains I (objGet (deployments r) k))"

lemma readyPeer_servable:
  assumes "gatewayKey p = req" "namespaceNotAllowed wg p = None" "canonicalKey K (publicKey p)"
    "addressUsable (address p) (effectivePeerCIDR4 wg)"
  shows "servable K req wg (readyPeer C p)"
  using assms by (simp add: servable_def readyPeer_def gatewayKey_def namespaceNotAllowed_None)

lemma setAddress_simps [simp]:
  "publicKey (setAddress ip p) = publicKey p" "peerMeta (setAddress ip p) = peerMeta p"
  "gatewayKey (setAddress ip p) = gatewayKey p"
  by (simp_all add: setAddress_def gatewayKey_def)

lemma reconcilePeers_maintains:
  assumes laws: "condLaws (peerConditions r)" and gen: "genLaw (ipGenerator r)"
    and valid: "validatePeerCIDR (effectivePeerCIDR4 wg) = None"
    and reads: "readsKeep r I"
    and writes: "\<And>p. soundWrite (peerConditions r) (keys r) req wg p \<Longrightarrow> maintains I (updatePeerStatus r p)"
  shows "maintains I (reconcilePeers r req wg)"
proof -
  let ?c = "effectivePeerCIDR4 wg"
  have nr: "takesNotReady r I" using writes by (simp add: takesNotReady_def soundWrite_def)
  have alloc: "maintains I (allocatePeers r (AllocateIP (ipGenerator r)) GetUsedIPs ?c
      (contenders (keys r) wg current peers))"
    if g: "\<forall>p \<in> set peers. gatewayKey p = req" for current peers
    unfolding allocatePeers_def
  proof (rule pool_allocator.allocateLoop_maintains [OF pool_allocator_gen [OF gen] laws nr valid order.refl])
    fix p ip
    assume p: "p \<in> set (contenders (keys r) wg current peers)" and ip: "addressUsable ip ?c"
    have "servable (keys r) req wg (readyPeer (peerConditions r) (setAddress ip p))"
      using contenders_servable [OF g p] ip by (intro readyPeer_servable) (simp_all add: namespaceNotAllowed_None)
    then show "maintains I (updatePeerStatus r (readyPeer (peerConditions r) (setAddress ip p)))"
      by (intro writes) (simp add: soundWrite_def readyPeer_write laws)
  next
    fix p
    assume p: "p \<in> set (contenders (keys r) wg current peers)" "address p \<noteq> []"
    have "servable (keys r) req wg (readyPeer (peerConditions r) p)"
      using contenders_servable [OF g p(1)] p(2) by (intro readyPeer_servable) simp_all
    then show "maintains I (updatePeerStatus r (readyPeer (peerConditions r) p))"
      by (intro writes) (simp add: soundWrite_def readyPeer_write laws)
  qed
  have keys: "maintains I (admittedKeys r wg)"
    using reads unfolding admittedKeys_def readsKeep_def by (intro triple_rules) simp
  have lst: "maintains I (getWireguardPeers r req)"
    using reads unfolding getWireguardPeers_def readsKeep_def by (intro triple_rules) simp
  show ?thesis
    unfolding reconcilePeers_def Let_def
  proof (intro maintains_bindE [OF keys] maintains_bindE_result [OF lst,
      where P = "\<lambda>ps. \<forall>p \<in> set ps. gatewayKey p = req"])
    fix current peers admitted
    show "\<forall>p \<in> set ps. gatewayKey p = req" if "run_state (getWireguardPeers r req) w = (Inr ps, w')" for ps w w'
      using that by (auto simp: getWireguardPeers_def split: prod.splits sum.splits)
    assume g: "\<forall>p \<in> set peers. gatewayKey p = req"
    show "maintains I (bindE (admitPeers r wg peers) (\<lambda>admitted.
      case dedupePublicKeys admitted current of (keep, keyLosers) \<Rightarrow>
        bindE (releaseLosers r (\<lambda>l. publicKeyConflict (loserWinner l)) keyLosers) (\<lambda>_.
          case dedupeAddresses (map (clearUnusable ?c) keep) of (kept, losers) \<Rightarrow>
            bindE (releaseLosers r (\<lambda>l. addressConflict (address (loserPeer l)) (loserWinner l)) losers) (\<lambda>_.
              allocatePeers r (AllocateIP (ipGenerator r)) GetUsedIPs ?c kept))))"
      by (rule maintains_bindE_result [OF admitPeers_maintains [OF laws nr] admitPeers_run],
          assumption, intro triple_rules releaseLosers_maintains laws nr)
        (use alloc [OF g, of current] in \<open>simp add: contenders_def\<close>)
  qed
qed

section \<open>Everything Reconcile writes\<close>

definition othersKeep :: "('w, 'k, 'u) WireguardReconciler \<Rightarrow> ('w \<Rightarrow> bool) \<Rightarrow> bool" where
  "othersKeep r I \<longleftrightarrow> (\<forall>p. maintains I (updatePod r p))
     \<and> (\<forall>x p. maintains I (objPatch (services r) x p)) \<and> (\<forall>u. maintains I (objApply (services r) u))
     \<and> (\<forall>x p. maintains I (objPatch (deployments r) x p)) \<and> (\<forall>u. maintains I (objApply (deployments r) u))"

text \<open>A Secret that lists only servable peers, no two of them under one key or at one address.\<close>

definition soundSecret :: "('w, 'k, 'u) WireguardReconciler \<Rightarrow> NamespacedName \<Rightarrow> Secret \<Rightarrow> bool" where
  "soundSecret r req s \<longleftrightarrow> (\<exists>wg peers. renderable wg
     \<and> marshalState r (desiredState wg (secretEntry s ''privateKey'') peers) = Inr (secretEntry s ''state.json'')
     \<and> distinct (map publicKey peers) \<and> distinct (map address peers)
     \<and> (\<forall>p \<in> set peers. servable (keys r) req wg p))"

text \<open>A peer that is written is taken out of service, or a renderable server can serve it.\<close>

definition soundPeer :: "('w, 'k, 'u) WireguardReconciler \<Rightarrow> NamespacedName \<Rightarrow> WireguardPeer \<Rightarrow> bool" where
  "soundPeer r req p \<longleftrightarrow> notReadyWrite (peerConditions r) p
     \<or> (\<exists>wg. renderable wg \<and> servable (keys r) req wg p)"

definition writesKeep :: "('w, 'k, 'u) WireguardReconciler \<Rightarrow> NamespacedName \<Rightarrow> ('w \<Rightarrow> bool) \<Rightarrow> bool" where
  "writesKeep r req I \<longleftrightarrow> (\<forall>p. soundPeer r req p \<longrightarrow> maintains I (updatePeerStatus r p))
     \<and> (\<forall>s. soundSecret r req s \<longrightarrow> maintains I (createSecret r s) \<and> maintains I (updateSecret r s))"

lemma SecretForWireguard_entries:
  assumes "SecretForWireguard own wg st priv pub = Inr s"
  shows "secretEntry s ''state.json'' = st" "secretEntry s ''privateKey'' = priv" "secretEntry s ''publicKey'' = pub"
  using assms by (auto simp: SecretForWireguard_def Let_def secretEntry_def split: sum.splits)

text \<open>
  Status writes of a Wireguard are classified by the summary they carry: \<open>S\<close> is the set of summaries
  whose writes are allowed.
\<close>

definition statusKeep :: "('w, 'k, 'u) WireguardReconciler \<Rightarrow> ('w \<Rightarrow> bool) \<Rightarrow> (string \<Rightarrow> bool) \<Rightarrow> bool" where
  "statusKeep r I S \<longleftrightarrow> (\<forall>wg. S (ws_Status (wgStatus wg)) \<longrightarrow> maintains I (updateWireguardStatus r wg))"

definition summaryOf :: "string \<Rightarrow> string \<Rightarrow> string" where
  "summaryOf t s = (if t = ConditionReady then (if s = ConditionTrue then Ready else Pending)
     else if t = ConditionDegraded then Error else Pending)"

lemma nextStatus_summary [simp]:
  "ws_Status (nextStatus C ws cond i) = summaryOf (condType cond) (condStatus cond)"
  by (simp add: nextStatus_def Let_def summaryOf_def split: option.split)

lemma newCondition_simps [simp]:
  "condType (newCondition t s r m) = t" "condStatus (newCondition t s r m) = s"
  by (simp_all add: newCondition_def)

lemma summaryOf_simps [simp]:
  "summaryOf ConditionReady ConditionTrue = Ready" "summaryOf ConditionReady ConditionFalse = Pending"
  "summaryOf ConditionDegraded s = Error" "summaryOf ConditionProgressing s = Pending"
  by (simp_all add: summaryOf_def ConditionReady_def ConditionDegraded_def ConditionProgressing_def
      ConditionTrue_def ConditionFalse_def)

lemma updateStatus_maintains:
  assumes "readsKeep r I" and "statusKeep r I S" and "S (summaryOf (condType c) (condStatus c))"
  shows "maintains I (updateStatus r wg c i)"
  using assms unfolding updateStatus_def readsKeep_def statusKeep_def Let_def
  by (intro triple_rules) simp_all

lemma finish_maintains:
  assumes "readsKeep r I" and "statusKeep r I S"
  shows "S (summaryOf (condType c) (condStatus c)) \<Longrightarrow> maintains I (finishWith r d wg c i)"
    and "S Error \<Longrightarrow> maintains I (failDegraded r wg e reason)"
  unfolding finishWith_def failDegraded_def
  by (auto intro!: triple_rules updateStatus_maintains [OF assms])

lemma applyOwned_maintains:
  assumes "\<And>k. maintains I (objGet c k)" "\<And>x p. maintains I (objPatch c x p)" "\<And>u. maintains I (objApply c u)"
  shows "maintains I (applyOwned c m obj)"
proof -
  show ?thesis
    unfolding applyOwned_def Let_def
    by (intro triple_rules assms) (auto intro!: triple_rules split: apiError.split)
qed

lemma applyDeployment_maintains:
  assumes "readsKeep r I" "othersKeep r I"
  shows "maintains I (applyDeployment r dep)"
  using assms unfolding applyDeployment_def Let_def readsKeep_def othersKeep_def
  by (intro triple_rules applyOwned_maintains) (auto intro!: triple_rules split: apiError.split)

lemma envFromProblem_maintains:
  assumes "\<And>k. maintains I (get k)"
  shows "maintains I (envFromProblem get ns i srcs)"
  by (induction srcs arbitrary: i) (auto simp: Let_def intro!: triple_rules assms split: sum.split)

lemma specProblem_maintains:
  assumes "\<And>k. maintains I (get k)"
  shows "maintains I (specProblem get wg)"
  unfolding specProblem_def Let_def by (intro triple_rules envFromProblem_maintains assms)

lemma annotatePods_maintains:
  assumes "readsKeep r I" "othersKeep r I"
  shows "maintains I (annotatePods r pods)"
  using assms by (induction pods) (auto simp: readsKeep_def othersKeep_def intro!: triple_rules split: sum.split)

lemma syncPeerIdentity_maintains:
  assumes "\<And>p. servable (keys r) req wg p \<Longrightarrow> maintains I (updatePeerStatus r p)"
    and "\<forall>p \<in> set peers. servable (keys r) req wg p"
  shows "maintains I (syncPeerIdentity r wg i peers)"
  using assms(2)
proof (induction peers)
  case (Cons p ps)
  let ?p = "p\<lparr>peerStatus := (peerStatus p)\<lparr>st_Endpoint := idEndpoint i,
            st_ServerPublicKey := idPublicKey i, st_LocalCIDRs := wg_LocalCIDRs (wgSpec wg)\<rparr>\<rparr>"
  have "servable (keys r) req wg ?p"
    using Cons.prems by (simp add: servable_def gatewayKey_def namespaceNotAllowed_None)
  then show ?case using Cons assms(1) by (auto intro!: triple_rules)
qed (simp add: triple_rules)

lemma syncSecret_maintains:
  assumes keep: "readsKeep r I" "othersKeep r I" "writesKeep r req I"
    and wg: "renderable wg" "distinct (map publicKey peers)" "distinct (map address peers)"
      "\<forall>p \<in> set peers. servable (keys r) req wg p"
  shows "maintains I (syncSecret r wg secret peers)" "maintains I (createServerSecret r wg peers)"
proof -
  have sound: "maintains I (createSecret r s) \<and> maintains I (updateSecret r s)"
    if "SecretForWireguard own wg b priv pub = Inr s" "marshalState r (desiredState wg priv peers) = Inr b"
    for own b priv pub s
  proof -
    have "soundSecret r req s"
      unfolding soundSecret_def using SecretForWireguard_entries [OF that(1)] that(2) wg by auto
    then show ?thesis using keep(3) by (simp add: writesKeep_def)
  qed
  show "maintains I (syncSecret r wg secret peers)"
    unfolding syncSecret_def Let_def using keep(1)
    by (intro triple_rules annotatePods_maintains keep) (auto simp: readsKeep_def dest: sound)
  show "maintains I (createServerSecret r wg peers)"
    unfolding createServerSecret_def Let_def using keep(1)
    by (intro triple_rules) (auto simp: readsKeep_def dest: sound)
qed

text \<open>
  What a full pass needs: the pieces above, and for the summary Ready either that it is allowed or
  that no Deployment the server returns has rolled out.
\<close>

definition passKeeps ::
    "('w, 'k, 'u) WireguardReconciler \<Rightarrow> NamespacedName \<Rightarrow> ('w \<Rightarrow> bool) \<Rightarrow> (string \<Rightarrow> bool) \<Rightarrow> bool" where
  "passKeeps r req I S \<longleftrightarrow> readsKeep r I \<and> othersKeep r I \<and> writesKeep r req I \<and> statusKeep r I S
     \<and> S Pending \<and> S Error
     \<and> (S Ready \<or> (\<forall>u d. FromUnstructured (deployments r) u = Inr d \<longrightarrow> rolloutProblem d \<noteq> []))"

lemma applyOwned_decoded:
  "run_state (applyOwned c m obj) w = (Inr x, w') \<Longrightarrow> \<exists>u. FromUnstructured c u = Inr x"
  by (auto simp: applyOwned_def Let_def split: sum.splits prod.splits)

lemma applyDeployment_decoded:
  "run_state (applyDeployment r d) w = (Inr x, w') \<Longrightarrow> \<exists>u. FromUnstructured (deployments r) u = Inr x"
  by (auto simp: applyDeployment_def Let_def split: sum.splits prod.splits dest: applyOwned_decoded)

lemma reconcileDeployment_maintains:
  assumes keep: "passKeeps r req I S" and wg: "renderable wg"
    and ps: "\<forall>p \<in> set ps. servable (keys r) req wg p"
  shows "maintains I (reconcileDeployment r wg svc secret ps)"
proof -
  note k = keep [unfolded passKeeps_def]
  have wr: "maintains I (updatePeerStatus r p)" if "servable (keys r) req wg p" for p
    using k that wg by (auto simp: writesKeep_def soundPeer_def)
  have fin: "maintains I (finishWith r 0 wg c i)" if "S (summaryOf (condType c) (condStatus c))" for c i
    using k that by (intro finish_maintains(1) [where S = S]) auto
  have bad: "maintains I (failDegraded r wg e reason)" for e reason
    using k by (intro finish_maintains(2) [where S = S]) auto
  have app: "maintains I (applyDeployment r d)" for d using k by (intro applyDeployment_maintains) auto
  have syn: "maintains I (syncPeerIdentity r wg i ps)" for i
    by (rule syncPeerIdentity_maintains [OF wr ps])
  show ?thesis
    unfolding reconcileDeployment_def Let_def failWith_def
  proof (intro maintains_sum bad)
    fix desired
    let ?P = "\<lambda>res. \<forall>d. res = Inr d \<longrightarrow> S Ready \<or> rolloutProblem d \<noteq> []"
    show "maintains I (applyDeployment r desired \<bind> (\<lambda>applied. case applied of
        Inl e \<Rightarrow> failDegraded r wg e ''DeploymentApplyFailed''
      | Inr dep \<Rightarrow> syncPeerIdentity r wg \<lparr>idEndpoint = JoinHostPort (svcClusterIP svc) (fmtInt WireguardPort),
            idPublicKey = secretEntry secret ''publicKey''\<rparr> ps \<bind> (\<lambda>synced. case synced of
          Inl e \<Rightarrow> ret (0, Some (ApiErr e))
        | Inr _ \<Rightarrow> if rolloutProblem dep \<noteq> [] then
            finishWith r 0 wg (newCondition ConditionReady ConditionFalse ReasonDeploymentNotReady
              (ErrorText (rolloutProblem dep))) (Some \<lparr>idEndpoint = JoinHostPort (svcClusterIP svc) (fmtInt WireguardPort),
            idPublicKey = secretEntry secret ''publicKey''\<rparr>)
          else finishWith r 0 wg (newCondition ConditionReady ConditionTrue ''Active''
              (ErrorText ''VPN is active!'')) (Some \<lparr>idEndpoint = JoinHostPort (svcClusterIP svc) (fmtInt WireguardPort),
            idPublicKey = secretEntry secret ''publicKey''\<rparr>))))"
      by (rule maintains_bind_result [OF app, where P = ?P])
        (use k in \<open>auto intro!: triple_rules bad syn fin dest!: applyDeployment_decoded split: sum.split\<close>)
  qed
qed

lemma reconcileServer_maintains:
  assumes laws: "condLaws (peerConditions r)" and gen: "genLaw (ipGenerator r)" and echo: "echoes r"
    and pass: "passKeeps r req I S" and wg: "renderable wg"
  shows "maintains I (reconcileServer r req wg svc)"
proof -
  have keep: "readsKeep r I" "othersKeep r I" "writesKeep r req I"
    using pass by (simp_all add: passKeeps_def)
  have get: "maintains I (getSecret r k)" for k using keep(1) by (simp add: readsKeep_def)
  have peers: "maintains I (reconcilePeers r req wg)"
    by (rule reconcilePeers_maintains [OF laws gen renderable_valid [OF wg] keep(1)])
      (use keep(3) wg in \<open>auto simp: soundWrite_def writesKeep_def soundPeer_def\<close>)
  note dep = reconcileDeployment_maintains [OF pass wg]
  show ?thesis
    unfolding reconcileServer_def failWith_def
  proof (rule maintains_bind_result [OF peers, where P = "\<lambda>res. \<forall>ps. res = Inr ps \<longrightarrow>
      distinct (map publicKey ps) \<and> distinct (map address ps) \<and> (\<forall>p \<in> set ps. servable (keys r) req wg p)"])
    fix w res w'
    assume "run_state (reconcilePeers r req wg) w = (res, w')"
    then show "\<forall>ps. res = Inr ps \<longrightarrow> distinct (map publicKey ps) \<and> distinct (map address ps)
        \<and> (\<forall>p \<in> set ps. servable (keys r) req wg p)"
      using reconcilePeers_servable [OF echo gen renderable_valid [OF wg]] by auto
  next
    fix res :: "apiError + WireguardPeer list"
    assume ok: "\<forall>ps. res = Inr ps \<longrightarrow> distinct (map publicKey ps) \<and> distinct (map address ps)
        \<and> (\<forall>p \<in> set ps. servable (keys r) req wg p)"
    then show "maintains I (case res of Inl e \<Rightarrow> ret (0, Some (ApiErr e))
        | Inr admitted \<Rightarrow> reconcileSecret r wg svc admitted)"
      unfolding reconcileSecret_def failWith_def
      by (intro triple_rules get syncSecret_maintains [OF keep(1-3) wg] dep) simp_all
  qed
qed

lemma markPeersWireguardNotFound_maintains:
  assumes "condLaws (peerConditions r)" "readsKeep r I" "takesNotReady r I"
  shows "maintains I (markPeersWireguardNotFound r req)"
  using assms unfolding markPeersWireguardNotFound_def getWireguardPeers_def readsKeep_def
  by (intro triple_rules markAllNotReady_maintains) simp_all

lemma Reconcile_maintains:
  assumes laws: "condLaws (peerConditions r)" and gen: "genLaw (ipGenerator r)" and echo: "echoes r"
    and pass: "passKeeps r req I S"
  shows "maintains I (Reconcile r req)"
proof -
  note k = pass [unfolded passKeeps_def]
  have nr: "takesNotReady r I" using k by (simp add: takesNotReady_def writesKeep_def soundPeer_def)
  have reads: "maintains I (getWireguard r k)" "maintains I (specProblem (getSecret r) wg)"
    "maintains I (applyOwned (services r) m svc)" for k wg m svc
    using k by (auto simp: readsKeep_def othersKeep_def intro!: specProblem_maintains applyOwned_maintains)
  have fin: "maintains I (finishWith r d wg c i)" if "S (summaryOf (condType c) (condStatus c))" for d wg c i
    using k that by (intro finish_maintains(1) [where S = S]) auto
  have bad: "maintains I (failDegraded r wg e reason)" for wg e reason
    using k by (intro finish_maintains(2) [where S = S]) auto
  have app: "maintains I (reconcileAccepted r req wg)" if "renderable wg" for wg
    unfolding reconcileAccepted_def
    by (intro triple_rules reads bad fin reconcileServer_maintains [OF laws gen echo pass that])
      (use k in simp)
  have gone: "maintains I (markPeersWireguardNotFound r req)"
    using k by (intro markPeersWireguardNotFound_maintains laws nr) auto
  show ?thesis
    unfolding Reconcile_def failWith_def
    by (intro maintains_bind reads maintains_sum maintains_if maintains_ret gone
        maintains_bind_result [OF reads(2), where P = "\<lambda>res. \<forall>m. res = Inr ([], m) \<longrightarrow> renderable wg" for wg]
        maintains_prod app fin)
      (use k in \<open>auto dest: specProblem_renderable\<close>)
qed

section \<open>Properties\<close>

text \<open>
  C3. The peers a pass admits, which are the ones the server is configured with: no two share a public
  key or an address, and each names this Wireguard, is in a namespace it allows, has a key in its
  canonical spelling, and holds an address of the peer range that is neither the network nor the
  gateway address. The API server may answer in any way, as long as a successful status update
  returns the object it was given.
\<close>

theorem reconcilePeers_correct:
  assumes "echoes r" and "genLaw (ipGenerator r)" and "validatePeerCIDR (effectivePeerCIDR4 wg) = None"
    and "run_state (reconcilePeers r req wg) w = (Inr admitted, w')"
  shows "distinct (map publicKey admitted) \<and> distinct (map address admitted)
    \<and> (\<forall>p \<in> set admitted. gatewayKey p = req \<and> namespaceNotAllowed wg p = None
         \<and> canonicalKey (keys r) (publicKey p) \<and> addressUsable (address p) (effectivePeerCIDR4 wg))"
  using reconcilePeers_servable [OF assms] by (simp add: servable_def)

text \<open>Five peers: \<open>b\<close> shares \<open>a\<close>'s address, \<open>c\<close> its key, and \<open>e\<close> has no key.\<close>

lemma sim_admitted:
  obtains admitted w' where "run_state (reconcilePeers simReconciler simRequest exampleWireguard) simInitial = (Inr admitted, w')"
    and "map peerName admitted = [''a'', ''d'']" and "map address admitted = [''10.9.0.2'', ''10.9.0.3'']"
proof -
  let ?run = "run_state (reconcilePeers simReconciler simRequest exampleWireguard) simInitial"
  have "(case fst ?run of Inr ps \<Rightarrow> Some (map (\<lambda>p. (peerName p, address p)) ps) | Inl _ \<Rightarrow> None)
      = Some [(''a'', ''10.9.0.2''), (''d'', ''10.9.0.3'')]"
    by code_simp
  then obtain out where out: "fst ?run = Inr out" and names: "map peerName out = [''a'', ''d'']" and addresses: "map address out = [''10.9.0.2'', ''10.9.0.3'']"
    by (cases "fst ?run") auto
  then obtain w' where run: "?run = (Inr out, w')" by (cases ?run) simp
  show ?thesis by (rule that [OF run names addresses])
qed

theorem reconcilePeers_correct_witness:
  "\<exists>admitted w'. run_state (reconcilePeers simReconciler simRequest exampleWireguard) simInitial = (Inr admitted, w')
    \<and> map peerName admitted = [''a'', ''d''] \<and> map address admitted = [''10.9.0.2'', ''10.9.0.3'']
    \<and> list_all (\<lambda>p. addressUsable (address p) ''10.9.0.0/29'') admitted"
proof -
  let ?run = "run_state (reconcilePeers simReconciler simRequest exampleWireguard) simInitial"
  obtain out w' where run: "?run = (Inr out, w')"
    and "map peerName out = [''a'', ''d'']" "map address out = [''10.9.0.2'', ''10.9.0.3'']"
    by (rule sim_admitted)
  moreover have "validatePeerCIDR (effectivePeerCIDR4 exampleWireguard) = None" by code_simp
  moreover have "effectivePeerCIDR4 exampleWireguard = ''10.9.0.0/29''" by code_simp
  ultimately show ?thesis
    using reconcilePeers_correct [OF echoes_sim sim_laws(3) _ run] run by (auto simp: list_all_iff)
qed

text \<open>
  C2. Everything a reconcile writes, against any API server and any concurrent writers: a WireguardPeer
  status is written only to take the peer out of service, or for a peer that a renderable server can
  serve; and a Secret is written only with a state of servable peers, no two of them under one public
  key or at one address, for a spec that passed every check.
\<close>

theorem Reconcile_writes_sound:
  assumes "condLaws (peerConditions r)" and "genLaw (ipGenerator r)" and "echoes r"
    and "readsKeep r I" and "othersKeep r I" and "\<And>wg. maintains I (updateWireguardStatus r wg)"
    and "\<And>p. soundPeer r req p \<Longrightarrow> maintains I (updatePeerStatus r p)"
    and "\<And>s. soundSecret r req s \<Longrightarrow> maintains I (createSecret r s) \<and> maintains I (updateSecret r s)"
  shows "maintains I (Reconcile r req)"
  by (rule Reconcile_maintains [OF assms(1-3), where S = "\<lambda>_. True"])
    (use assms in \<open>simp add: passKeeps_def writesKeep_def statusKeep_def\<close>)

definition soundLog :: "simWorld \<Rightarrow> bool" where
  "soundLog w \<longleftrightarrow> (\<forall>p \<in> set (simPeerWrites w). soundPeer simReconciler simRequest p)
     \<and> (\<forall>s \<in> set (simSecretWrites w). soundSecret simReconciler simRequest s)"

lemma sim_keep:
  assumes "\<And>w u. I w \<Longrightarrow> I (w\<lparr>simApplied := u\<rparr>)"
  shows "readsKeep simReconciler I" and "othersKeep simReconciler I"
  using assms
  by (auto simp: readsKeep_def othersKeep_def simReconciler_def simServices_def simDeployments_def
      intro!: triple_rules maintains_writeSim)

theorem Reconcile_writes_sound_witness:
  "soundLog (snd (run_state (Reconcile simReconciler simRequest) simInitial))"
proof -
  have "maintains soundLog (Reconcile simReconciler simRequest)"
  proof (rule Reconcile_writes_sound [OF sim_laws(1,3) echoes_sim])
    show "readsKeep simReconciler soundLog" "othersKeep simReconciler soundLog"
      by (rule sim_keep, simp add: soundLog_def)+
    show "maintains soundLog (updateWireguardStatus simReconciler wg)" for wg
      by (auto simp: simReconciler_def soundLog_def intro!: maintains_writeSim)
    show "maintains soundLog (updatePeerStatus simReconciler p)" if "soundPeer simReconciler simRequest p" for p
      using that unfolding simReconciler_def [THEN arg_cong [of _ _ updatePeerStatus]]
      by (auto simp: soundLog_def intro!: maintains_writeSim)
    show "maintains soundLog (createSecret simReconciler s) \<and> maintains soundLog (updateSecret simReconciler s)"
      if "soundSecret simReconciler simRequest s" for s
      using that unfolding simReconciler_def [THEN arg_cong [of _ _ createSecret]]
        simReconciler_def [THEN arg_cong [of _ _ updateSecret]]
      by (auto simp: soundLog_def intro!: maintains_writeSim)
  qed
  moreover have "soundLog simInitial" by (simp add: soundLog_def simInitial_def)
  ultimately show ?thesis
    using maintains_run [of soundLog _ simInitial] by (metis prod.collapse)
qed


text \<open>The concrete server with Deployments that never become ready.\<close>

definition stuckReconciler :: "(simWorld, 8 word, Service + Deployment) WireguardReconciler" where
  "stuckReconciler = simReconciler\<lparr>deployments := simDeployments\<lparr>
     FromUnstructured := (\<lambda>u. case u of Inr d \<Rightarrow> Inr (d\<lparr>depReplicas := Some 1, depReadyReplicas := 0\<rparr>)
                                      | Inl _ \<Rightarrow> Inl ''not a Deployment'')\<rparr>\<rparr>"

definition neverReady :: "simWorld \<Rightarrow> bool" where
  "neverReady w \<longleftrightarrow> (\<forall>wg \<in> set (simStatusWrites w). ws_Status (wgStatus wg) \<noteq> Ready)"



definition refusedWireguard :: Wireguard where
  "refusedWireguard = exampleWireguard\<lparr>wgSpec := (wgSpec exampleWireguard)\<lparr>wg_PeerCIDR := ''10.96.0.0/29''\<rparr>\<rparr>"

definition refusingReconciler :: "(simWorld, 8 word, Service + Deployment) WireguardReconciler" where
  "refusingReconciler = simReconciler\<lparr>getWireguard := (\<lambda>_. ret (Inr refusedWireguard))\<rparr>"

definition untouched :: "simWorld \<Rightarrow> bool" where
  "untouched w \<longleftrightarrow> simPeerWrites w = [] \<and> simSecretWrites w = [] \<and> simApplied w = []"


text \<open>
  C19. Recording that a peer is not ready settles: the record written is the one the next pass looks
  for, so marking the written peer again for the same reason makes no call and changes nothing.
\<close>

theorem markPeerNotReady_settles:
  assumes "condLaws (peerConditions r)"
  shows "run_state (markPeerNotReady r (notReadyPeer (peerConditions r) p nr) nr) w = (Inr (), w)"
  using notReadyPeer_matches [OF assms] by (simp add: markPeerNotReady_def)

theorem markPeerNotReady_settles_witness:
  "run_state (markPeerNotReady simReconciler (notReadyPeer listConditions (examplePeer ''e'' [] 5 []) publicKeyMissing)
     publicKeyMissing) simInitial = (Inr (), simInitial)"
proof -
  have "peerConditions simReconciler = listConditions" by (simp add: simReconciler_def)
  then show ?thesis
    using markPeerNotReady_settles [OF sim_laws(1), of "examplePeer ''e'' [] 5 []" publicKeyMissing simInitial]
    by simp
qed

text \<open>
  What \<^verbatim>\<open>updateStatus\<close> writes: the condition it was given, observed at the generation of the object
  the reconcile fetched, whatever generation the copy read back has; and with a Ready condition of
  either status, Degraded turned off at the same generation, in the same write.
\<close>

definition recordsCondition :: "goError condOps \<Rightarrow> int \<Rightarrow> goError Condition \<Rightarrow> WireguardStatus \<Rightarrow> bool" where
  "recordsCondition C gen cond ws \<longleftrightarrow>
     (\<exists>c. FindStatusCondition C (ws_Conditions ws) (condType cond) = Some c \<and> condStatus c = condStatus cond
        \<and> condReason c = condReason cond \<and> condMessage c = condMessage cond \<and> condObservedGeneration c = gen)
     \<and> (condType cond = ConditionReady \<longrightarrow>
          (\<exists>d. FindStatusCondition C (ws_Conditions ws) ConditionDegraded = Some d
             \<and> condStatus d = ConditionFalse \<and> condObservedGeneration d = gen))"

lemma SetStatusCondition_found:
  assumes "condLaws C"
  obtains d where "FindStatusCondition C (SetStatusCondition C cs c) (condType c) = Some d" "sameCondition d c"
  using assms unfolding condLaws_def by blast

lemma nextStatus_records:
  assumes "condLaws C"
  shows "recordsCondition C (condObservedGeneration cond) cond (nextStatus C ws cond i)"
proof -
  have ne: "ConditionReady \<noteq> ConditionDegraded" by (simp add: ConditionReady_def ConditionDegraded_def)
  let ?off = "\<lparr>condType = ConditionDegraded, condStatus = ConditionFalse, condReason = ''Reconciled'',
    condMessage = ErrorText ''All owned resources applied'',
    condObservedGeneration = condObservedGeneration cond, condLastTransitionTime = 0\<rparr>"
  obtain c where c: "FindStatusCondition C (SetStatusCondition C (ws_Conditions ws) cond) (condType cond) = Some c"
    "sameCondition c cond" by (rule SetStatusCondition_found [OF assms])
  obtain d where d: "FindStatusCondition C (SetStatusCondition C (SetStatusCondition C (ws_Conditions ws) cond) ?off)
      (condType ?off) = Some d" "sameCondition d ?off" by (rule SetStatusCondition_found [OF assms])
  have other: "FindStatusCondition C (SetStatusCondition C cs ?off) ConditionReady = FindStatusCondition C cs ConditionReady" for cs
    using assms ne unfolding condLaws_def by simp
  show ?thesis
    using c d other ne by (cases i) (auto simp: recordsCondition_def nextStatus_def Let_def sameCondition_def)
qed

theorem updateStatus_records:
  assumes "condLaws (wgConditions r)" and "\<And>k. maintains I (getWireguard r k)" and "maintains I (timeNow r)"
    and "\<And>latest. recordsCondition (wgConditions r) (Generation (wgMeta wg)) cond (wgStatus latest) \<Longrightarrow>
      maintains I (updateWireguardStatus r latest)"
  shows "maintains I (updateStatus r wg cond identity)"
proof -
  have "recordsCondition (wgConditions r) g cond
      (nextStatus (wgConditions r) ws (cond\<lparr>condLastTransitionTime := t, condObservedGeneration := g\<rparr>) identity)" for ws t g
    using nextStatus_records [OF assms(1), of "cond\<lparr>condLastTransitionTime := t, condObservedGeneration := g\<rparr>" ws identity]
    by (simp add: recordsCondition_def)
  then show ?thesis
    unfolding updateStatus_def Let_def using assms(2-) by (intro triple_rules) simp_all
qed

theorem updateStatus_records_witness:
  "list_all (\<lambda>wg. recordsCondition listConditions 7
       (newCondition ConditionReady ConditionTrue ''Active'' (ErrorText ''VPN is active!'')) (wgStatus wg))
     (simStatusWrites (snd (run_state (updateStatus simReconciler
       (exampleWireguard\<lparr>wgMeta := (wgMeta exampleWireguard)\<lparr>Generation := 7\<rparr>\<rparr>)
       (newCondition ConditionReady ConditionTrue ''Active'' (ErrorText ''VPN is active!'')) None) simInitial)))"
proof -
  let ?c = "newCondition ConditionReady ConditionTrue ''Active'' (ErrorText ''VPN is active!'')"
  let ?wg = "exampleWireguard\<lparr>wgMeta := (wgMeta exampleWireguard)\<lparr>Generation := 7\<rparr>\<rparr>"
  let ?I = "\<lambda>w. list_all (\<lambda>wg. recordsCondition listConditions 7 ?c (wgStatus wg)) (simStatusWrites w)"
  have "maintains ?I (updateStatus simReconciler ?wg ?c None)"
  proof (rule updateStatus_records [OF sim_laws(2)])
    show "maintains ?I (updateWireguardStatus simReconciler latest)"
      if "recordsCondition (wgConditions simReconciler) (Generation (wgMeta ?wg)) ?c (wgStatus latest)" for latest
      using that by (auto simp: simReconciler_def intro!: maintains_writeSim)
  qed (simp_all add: simReconciler_def triple_rules)
  moreover have "?I simInitial" by (simp add: simInitial_def)
  ultimately show ?thesis
    using maintains_run [of ?I _ simInitial] by (metis (no_types, lifting) prod.collapse)
qed

end
