(* ===== verification/Kernel.thy ===== *)
theory Kernel
  imports Resources Ipam
begin

text \<open>
  What the agent and the sidecar use of the Linux kernel: links, addresses, routes and rules through
  \<open>vishvananda/netlink\<close>, and WireGuard devices through \<open>wgctrl\<close>. Neither package is part of the
  repository, so the calls are the fields of three records, parameters of the definitions that make
  them; every call may change the state of the network namespace, of any type \<open>'w\<close>.

  The types of \<^verbatim>\<open>net\<close> that cross this interface are modelled here: an IP address is an \<^typ>\<open>Addr\<close>,
  and an \<^verbatim>\<open>IPNet\<close> an address with the length of its mask, because every mask in the program comes
  from \<^verbatim>\<open>net.CIDRMask\<close> or from the kernel.
\<close>

section \<open>Networks\<close>

datatype IPNet = IPNet (netIP: Addr) (netOnes: nat) (netBits: nat)

text \<open>\<^verbatim>\<open>net.IP.Equal\<close>: an IPv4 address equals its IPv4-mapped form.\<close>

definition ipEqual :: "Addr \<Rightarrow> Addr \<Rightarrow> bool" where
  "ipEqual a b \<longleftrightarrow> Unmap a = Unmap b"

text \<open>The number and mask length \<^verbatim>\<open>IPNet.String\<close> prints.\<close>

definition IPNetString :: "IPNet \<Rightarrow> string" where
  "IPNetString n = ipString (netIP n) @ ''/''
     @ Itoa (if netBits n = 128 \<and> Is4 (Unmap (netIP n)) then netOnes n - 96 else netOnes n)"

text \<open>\<^verbatim>\<open>&net.IPNet{IP: p.Addr().AsSlice(), Mask: net.CIDRMask(p.Bits(), p.Addr().BitLen())}\<close>.\<close>

definition ipNet :: "Prefix \<Rightarrow> IPNet" where
  "ipNet p = IPNet (pAddr p) (nat (pBits p)) (BitLen (pAddr p))"

text \<open>
  \<^verbatim>\<open>net.ParseCIDR\<close>: the network, its address masked. The mask is decimal digits below
  \<^verbatim>\<open>0xFFFFFF\<close>, leading zeros allowed.
\<close>

fun dtoi :: "int \<Rightarrow> string \<Rightarrow> int option" where
  "dtoi n [] = Some n"
| "dtoi n (c # cs) =
     (if \<not> isDigit c then None
      else let m = n * 10 + int (digitVal c) in if 16777215 \<le> m then None else dtoi m cs)"

definition ParseCIDR :: "string \<Rightarrow> IPNet option" where
  "ParseCIDR s =
     (case Cut CHR ''/'' s of
        None \<Rightarrow> None
      | Some (addr, len) \<Rightarrow>
        (case ParseAddr addr of
           Inl _ \<Rightarrow> None
         | Inr a \<Rightarrow>
           if Zone a \<noteq> [] then None
           else case (if len = [] then None else dtoi 0 len) of
                  None \<Rightarrow> None
                | Some n \<Rightarrow>
                  if int (BitLen a) < n then None
                  else Some (IPNet (pAddr (Masked (Prefix a n))) (nat n) (BitLen a))))"

section \<open>Netlink\<close>

datatype errno = LinkNotFound | ESRCH | EINVAL | EOPNOTSUPP | EAFNOSUPPORT | OtherErrno string

fun errnoError :: "errno \<Rightarrow> goError" where
  "errnoError LinkNotFound = ErrorText ''Link not found''"
| "errnoError ESRCH = ErrorText ''no such process''"
| "errnoError EINVAL = ErrorText ''invalid argument''"
| "errnoError EOPNOTSUPP = ErrorText ''operation not supported''"
| "errnoError EAFNOSUPPORT = ErrorText ''address family not supported by protocol''"
| "errnoError (OtherErrno s) = ErrorText s"

record Link =
  lnIndex :: int
  lnName :: string
  lnMTU :: int

text \<open>\<^verbatim>\<open>netlink.Route\<close>, as far as the program reads or sets it.\<close>

record Route =
  rtDst :: "IPNet option"
  rtGw :: "Addr option"
  rtLinkIndex :: int
  rtPriority :: int
  rtProtocol :: int
  rtScope :: int
  rtTable :: int
  rtType :: int

definition noRoute :: Route where
  "noRoute = \<lparr>rtDst = None, rtGw = None, rtLinkIndex = 0, rtPriority = 0, rtProtocol = 0, rtScope = 0,
     rtTable = 0, rtType = 0\<rparr>"

definition SCOPE_LINK :: int where "SCOPE_LINK = 253"
definition RTN_BLACKHOLE :: int where "RTN_BLACKHOLE = 6"
definition RT_TABLE_MAIN :: int where "RT_TABLE_MAIN = 254"

text \<open>
  \<^verbatim>\<open>netlink.Rule\<close>; \<open>ruOther\<close> stands for the selectors the program neither sets nor compares (source
  prefix, mark, TOS and so on), empty in a rule made by \<^verbatim>\<open>NewRule\<close>.
\<close>

record Rule =
  ruPriority :: int
  ruTable :: int
  ruDst :: "IPNet option"
  ruIifName :: string
  ruOther :: string

datatype family = FAMILY_V4 | FAMILY_V6

record 'w netlink =
  LinkByName :: "string \<Rightarrow> ('w, errno, Link) io"
  LinkByIndex :: "int \<Rightarrow> ('w, errno, Link) io"
  LinkAdd :: "string \<Rightarrow> int \<Rightarrow> string \<Rightarrow> ('w, errno, unit) io"
  LinkSetMTU :: "Link \<Rightarrow> int \<Rightarrow> ('w, errno, unit) io"
  LinkSetUp :: "Link \<Rightarrow> ('w, errno, unit) io"
  AddrList :: "Link \<Rightarrow> ('w, errno, IPNet list) io"
  AddrAdd :: "Link \<Rightarrow> IPNet \<Rightarrow> ('w, errno, unit) io"
  AddrDel :: "Link \<Rightarrow> IPNet \<Rightarrow> ('w, errno, unit) io"
  RouteList :: "Link \<Rightarrow> ('w, errno, Route list) io"
  RouteListMain :: "family \<Rightarrow> ('w, errno, Route list) io"
  RouteAdd :: "Route \<Rightarrow> ('w, errno, unit) io"
  RouteReplace :: "Route \<Rightarrow> ('w, errno, unit) io"
  RouteDel :: "Route \<Rightarrow> ('w, errno, unit) io"
  RouteGet :: "Addr \<Rightarrow> ('w, errno, Route list) io"
  RouteGetFrom :: "Addr \<Rightarrow> string \<Rightarrow> Addr \<Rightarrow> ('w, errno, Route list) io"
  RuleList :: "('w, errno, Rule list) io"
  RuleAdd :: "Rule \<Rightarrow> ('w, errno, unit) io"
  RuleDel :: "Rule \<Rightarrow> ('w, errno, unit) io"

section \<open>WireGuard devices\<close>

record 'k DevicePeer =
  dpPublicKey :: 'k
  dpEndpoint :: "AddrPort option"
  dpKeepalive :: int
  dpAllowedIPs :: "IPNet list"
  dpLastHandshake :: int

record 'k Device =
  dvName :: string
  dvPrivateKey :: 'k
  dvPeers :: "'k DevicePeer list"

record 'k PeerConfig =
  pcPublicKey :: 'k
  pcRemove :: bool
  pcUpdateOnly :: bool
  pcEndpoint :: "AddrPort option"
  pcKeepalive :: "int option"
  pcReplaceAllowedIPs :: bool
  pcAllowedIPs :: "IPNet list"

record 'k WgConfig =
  cfPrivateKey :: "'k option"
  cfListenPort :: "int option"
  cfReplacePeers :: bool
  cfPeers :: "'k PeerConfig list"

definition newPeerConfig :: "'k \<Rightarrow> 'k PeerConfig" where
  "newPeerConfig k = \<lparr>pcPublicKey = k, pcRemove = False, pcUpdateOnly = False, pcEndpoint = None,
     pcKeepalive = None, pcReplaceAllowedIPs = False, pcAllowedIPs = []\<rparr>"

record ('w, 'k) wgctrl =
  wgNew :: "('w, string, unit) io"
  wgDevice :: "string \<Rightarrow> ('w, string, 'k Device) io"
  wgConfigureDevice :: "string \<Rightarrow> 'k WgConfig \<Rightarrow> ('w, string, unit) io"
  wgClose :: "('w, string, unit) io"

section \<open>What a WireGuard device does\<close>

text \<open>
  The documented behaviour of a device, on the view of it that matters here: the allowed networks of
  each peer. A peer configuration removes its peer, is ignored when it only updates and there is no such
  peer, and otherwise adds its networks to the peer's, or replaces them; a network belongs to one
  peer, so the others lose it.
\<close>

text \<open>An IPv4 address in four bytes, whichever way it is given.\<close>

definition canonNet :: "IPNet \<Rightarrow> IPNet" where
  "canonNet n = IPNet (Unmap (netIP n)) (netOnes n) (netBits n)"

type_synonym 'k devView = "'k \<rightharpoonup> IPNet set"

definition applyPeer :: "'k devView \<Rightarrow> 'k PeerConfig \<Rightarrow> 'k devView" where
  "applyPeer m c = (let k = pcPublicKey c; nets = canonNet ` set (pcAllowedIPs c) in
     if pcRemove c then m(k := None)
     else if pcUpdateOnly c \<and> m k = None then m
     else (\<lambda>j. if j = k then Some ((if pcReplaceAllowedIPs c then {} else case m k of None \<Rightarrow> {} | Some s \<Rightarrow> s) \<union> nets)
               else map_option (\<lambda>s. s - nets) (m j)))"

definition reportedView :: "'k Device \<Rightarrow> 'k devView" where
  "reportedView d = map_of (map (\<lambda>p. (dpPublicKey p, set (dpAllowedIPs p))) (dvPeers d))"

text \<open>A device reports each peer once and each of its networks once, IPv4 addresses in four bytes.\<close>

definition wellReported :: "'k Device \<Rightarrow> bool" where
  "wellReported d \<longleftrightarrow> distinct (map dpPublicKey (dvPeers d))
     \<and> (\<forall>p \<in> set (dvPeers d). distinct (dpAllowedIPs p) \<and> (\<forall>n \<in> set (dpAllowedIPs p). Unmap (netIP n) = netIP n))"

definition deviceLaws :: "('w \<Rightarrow> 'k devView) \<Rightarrow> ('w, 'k) wgctrl \<Rightarrow> string \<Rightarrow> bool" where
  "deviceLaws view c iface \<longleftrightarrow> (\<forall>m cfg.
     triple (\<lambda>w. view w = m) (wgNew c) (\<lambda>_ w. view w = m)
     \<and> triple (\<lambda>w. view w = m) (wgClose c) (\<lambda>_ w. view w = m)
     \<and> triple (\<lambda>w. view w = m) (wgDevice c iface)
          (\<lambda>r w. (\<forall>d. r = Inr d \<longrightarrow> wellReported d \<and> reportedView d = m) \<and> view w = m)
     \<and> triple (\<lambda>w. view w = m) (wgConfigureDevice c iface cfg)
          (\<lambda>r w. \<not> isl r \<longrightarrow> view w = foldl applyPeer (if cfReplacePeers cfg then Map.empty else m) (cfPeers cfg)))"

section \<open>The host\<close>

datatype statError = NotExist | StatError string

record fileMode =
  modeDevice :: bool
  modeCharDevice :: bool

record 'w host =
  MkdirAll :: "string \<Rightarrow> int \<Rightarrow> ('w, string, unit) io"
  Stat :: "string \<Rightarrow> ('w, statError, fileMode) io"
  Mknod :: "string \<Rightarrow> int \<Rightarrow> int \<Rightarrow> ('w, string, unit) io"
  Mkdev :: "int \<Rightarrow> int \<Rightarrow> int"
  StartProcess :: "string \<Rightarrow> string \<Rightarrow> ('w, string, unit) io"
  nowMillis :: "('w, int) state"
  SleepMillis :: "int \<Rightarrow> ('w, unit) state"

section \<open>Facts about networks\<close>

text \<open>An IPv4 network in the form the kernel reports it.\<close>

definition isNet4 :: "IPNet \<Rightarrow> bool" where
  "isNet4 n \<longleftrightarrow> Is4 (netIP n) \<and> netOnes n \<le> 32 \<and> netBits n = 32"

lemma isNet4_cases:
  assumes "isNet4 n"
  obtains v k where "n = IPNet (Addr4 v) k 32" "k \<le> 32"
  using assms by (cases n; cases "netIP n") (auto simp: isNet4_def)


lemma dtoi_Itoa:
  assumes "n < 16777215"
  shows "dtoi 0 (Itoa n) = Some (int n)"
proof -
  have "dtoi 0 (Itoa n @ cs) = dtoi (int n) cs" for cs
    using assms
  proof (induction n arbitrary: cs rule: Itoa.induct)
    case (1 n)
    show ?case
    proof (cases "n < 10")
      case True
      then show ?thesis by (simp add: Itoa_small Let_def)
    next
      case False
      then have "dtoi 0 (Itoa (n div 10) @ [digit (n mod 10)] @ cs) = dtoi (int (n div 10)) ([digit (n mod 10)] @ cs)"
        using 1 by (intro "1.IH") auto
      moreover have "int (n div 10) * 10 + int (n mod 10) = int n"
        using div_mult_mod_eq [of "int n" 10] by (simp add: zdiv_int zmod_int)
      ultimately show ?thesis
        using False 1 by (simp add: Itoa.simps [of n] Let_def)
    qed
  qed
  from this [of "[]"] show ?thesis by simp
qed

lemma Cut_cidr4: "Cut CHR ''/'' (cidr4 w n) = Some (string4 w, Itoa n)"
  using string4_chars [of w] by (auto simp: Cut_Some cidr4_def isDigit_def)

lemma ParseCIDR_cidr4 [simp]:
  assumes "n \<le> 32"
  shows "ParseCIDR (cidr4 w n) = Some (IPNet (Addr4 (net4 w n)) n 32)"
  using assms by (simp add: ParseCIDR_def Cut_cidr4 dtoi_Itoa)

lemma IPNetString_4: "IPNetString (IPNet (Addr4 w) k 32) = cidr4 w k"
  by (simp add: IPNetString_def ipString_def cidr4_def)

lemma cidr4_inject: "j \<le> 32 \<Longrightarrow> k \<le> 32 \<Longrightarrow> cidr4 v j = cidr4 w k \<longleftrightarrow> v = w \<and> j = k"
  by (metis ParsePrefix_cidr4 Inr_inject Prefix.inject Addr.inject(2) of_nat_eq_iff)

lemma IPNetString_inject: "isNet4 m \<Longrightarrow> isNet4 n \<Longrightarrow> IPNetString m = IPNetString n \<longleftrightarrow> m = n"
  by (elim isNet4_cases) (simp add: IPNetString_4 cidr4_inject)

lemma IPNetString_nonempty [simp]: "IPNetString n \<noteq> []"
  by (simp add: IPNetString_def)

end
