(* ===== verification/NetSim.thy ===== *)
theory NetSim
  imports Kernel Peers
begin

text \<open>
  A concrete network namespace with one WireGuard interface, which satisfies what the theorems about the
  agent and the sidecar assume of netlink, of \<open>wgctrl\<close> and of the clock. The witnesses run against it.
\<close>

record netSim =
  nsLinks :: "Link list"
  nsAddrs :: "IPNet list"
  nsRoutes :: "Route list"
  nsRules :: "Rule list"
  nsKey :: "8 word"
  nsPeers :: "8 word DevicePeer list"
  nsClock :: int
  nsDrop :: bool
  nsIptables :: "string list list"

definition newPeer :: "'k \<Rightarrow> 'k DevicePeer" where
  "newPeer k = \<lparr>dpPublicKey = k, dpEndpoint = None, dpKeepalive = 0, dpAllowedIPs = [], dpLastHandshake = 0\<rparr>"

definition configurePeer :: "'k DevicePeer list \<Rightarrow> 'k PeerConfig \<Rightarrow> 'k DevicePeer list" where
  "configurePeer ps c = (let k = pcPublicKey c; nets = map canonNet (pcAllowedIPs c);
       others = filter (\<lambda>p. dpPublicKey p \<noteq> k) ps; found = List.find (\<lambda>p. dpPublicKey p = k) ps in
     if pcRemove c then others
     else if pcUpdateOnly c \<and> found = None then ps
     else let base = (case found of None \<Rightarrow> newPeer k | Some p \<Rightarrow> p) in
       base\<lparr>dpAllowedIPs := remdups ((if pcReplaceAllowedIPs c then [] else dpAllowedIPs base) @ nets),
            dpEndpoint := (if pcEndpoint c = None then dpEndpoint base else pcEndpoint c),
            dpKeepalive := (case pcKeepalive c of None \<Rightarrow> dpKeepalive base | Some s \<Rightarrow> s)\<rparr>
       # map (\<lambda>p. p\<lparr>dpAllowedIPs := filter (\<lambda>n. n \<notin> set nets) (dpAllowedIPs p)\<rparr>) others)"

definition wellPeers :: "'k DevicePeer list \<Rightarrow> bool" where
  "wellPeers ps \<longleftrightarrow> distinct (map dpPublicKey ps)
     \<and> (\<forall>p \<in> set ps. distinct (dpAllowedIPs p) \<and> (\<forall>n \<in> set (dpAllowedIPs p). Unmap (netIP n) = netIP n))"

definition simWgctrl :: "(netSim, 8 word) wgctrl" where
  "simWgctrl = \<lparr>
     wgNew = ret (Inr ()),
     wgDevice = (\<lambda>name. readSim (\<lambda>w.
        if wellPeers (nsPeers w) then Inr \<lparr>dvName = name, dvPrivateKey = nsKey w, dvPeers = nsPeers w\<rparr>
        else Inl ''malformed device'')),
     wgConfigureDevice = (\<lambda>_ cfg. writeSim (\<lambda>w. w\<lparr>
        nsKey := (case cfPrivateKey cfg of None \<Rightarrow> nsKey w | Some k \<Rightarrow> k),
        nsPeers := foldl configurePeer (if cfReplacePeers cfg then [] else nsPeers w) (cfPeers cfg)\<rparr>) (Inr ())),
     wgClose = ret (Inr ())\<rparr>"

definition sameRoute :: "Route \<Rightarrow> Route \<Rightarrow> bool" where
  "sameRoute r x \<longleftrightarrow> rtDst x = rtDst r \<and> rtTable x = rtTable r \<and> rtPriority x = rtPriority r"

text \<open>Links are created with index 7, addresses and routes are kept in lists.\<close>

definition simNetlink :: "netSim netlink" where
  "simNetlink = \<lparr>
     LinkByName = (\<lambda>n. readSim (\<lambda>w. case List.find (\<lambda>l. lnName l = n) (nsLinks w) of None \<Rightarrow> Inl LinkNotFound | Some l \<Rightarrow> Inr l)),
     LinkByIndex = (\<lambda>i. readSim (\<lambda>w. case List.find (\<lambda>l. lnIndex l = i) (nsLinks w) of None \<Rightarrow> Inl LinkNotFound | Some l \<Rightarrow> Inr l)),
     LinkAdd = (\<lambda>n mtu _. writeSim (\<lambda>w. w\<lparr>nsLinks := \<lparr>lnIndex = 7, lnName = n, lnMTU = mtu\<rparr> # nsLinks w\<rparr>) (Inr ())),
     LinkSetMTU = (\<lambda>l mtu. writeSim (\<lambda>w. w\<lparr>nsLinks := map (\<lambda>x. if lnName x = lnName l then x\<lparr>lnMTU := mtu\<rparr> else x) (nsLinks w)\<rparr>) (Inr ())),
     LinkSetUp = (\<lambda>_. ret (Inr ())),
     AddrList = (\<lambda>_. readSim (\<lambda>w. if list_all isNet4 (nsAddrs w) then Inr (nsAddrs w) else Inl EINVAL)),
     AddrAdd = (\<lambda>_ a. writeSim (\<lambda>w. w\<lparr>nsAddrs := nsAddrs w @ [a]\<rparr>) (Inr ())),
     AddrDel = (\<lambda>_ a. writeSim (\<lambda>w. w\<lparr>nsAddrs := filter (\<lambda>x. x \<noteq> a) (nsAddrs w)\<rparr>) (Inr ())),
     RouteList = (\<lambda>l. readSim (\<lambda>w. Inr (filter (\<lambda>r. rtLinkIndex r = lnIndex l) (nsRoutes w)))),
     RouteListMain = (\<lambda>f. readSim (\<lambda>w. Inr (case f of FAMILY_V4 \<Rightarrow> nsRoutes w | FAMILY_V6 \<Rightarrow> []))),
     RouteAdd = (\<lambda>r. writeSim (\<lambda>w. w\<lparr>nsRoutes := nsRoutes w @ [r]\<rparr>) (Inr ())),
     RouteReplace = (\<lambda>r. writeSim (\<lambda>w. w\<lparr>nsRoutes := r # filter (\<lambda>x. \<not> sameRoute r x) (nsRoutes w)\<rparr>) (Inr ())),
     RouteDel = (\<lambda>r. writeSim (\<lambda>w. w\<lparr>nsRoutes := filter (\<lambda>x. x \<noteq> r) (nsRoutes w)\<rparr>) (Inr ())),
     RouteGet = (\<lambda>_. readSim (\<lambda>w. Inr (nsRoutes w))),
     RouteGetFrom = (\<lambda>_ _ _. ret (Inr [noRoute\<lparr>rtLinkIndex := 2\<rparr>])),
     RuleList = readSim (\<lambda>w. Inr (nsRules w)),
     RuleAdd = (\<lambda>r. writeSim (\<lambda>w. w\<lparr>nsRules := nsRules w @ [r]\<rparr>) (Inr ())),
     RuleDel = (\<lambda>r. writeSim (\<lambda>w. w\<lparr>nsRules := filter (\<lambda>x. x \<noteq> r) (nsRules w)\<rparr>) (Inr ()))\<rparr>"

definition simHost :: "netSim host" where
  "simHost = \<lparr>
     MkdirAll = (\<lambda>_ _. ret (Inr ())),
     Stat = (\<lambda>_. ret (Inl NotExist)),
     Mknod = (\<lambda>_ _ _. ret (Inr ())),
     Mkdev = (\<lambda>major minor. major * 256 + minor),
     StartProcess = (\<lambda>_ _. ret (Inr ())),
     nowMillis = readSim nsClock,
     SleepMillis = (\<lambda>ms. writeSim (\<lambda>w. w\<lparr>nsClock := nsClock w + ms\<rparr>) ())\<rparr>"

section \<open>The device obeys its laws\<close>

definition simView :: "'k DevicePeer list \<Rightarrow> 'k devView" where
  "simView ps k = map_option (\<lambda>p. set (dpAllowedIPs p)) (List.find (\<lambda>p. dpPublicKey p = k) ps)"

lemma map_of_find:
  "map_of (map (\<lambda>p. (dpPublicKey p, f p)) ps) k = map_option f (List.find (\<lambda>p. dpPublicKey p = k) ps)"
  by (induction ps) auto

lemma simView_reported: "simView (dvPeers d) = reportedView d"
  by (rule ext) (simp add: simView_def reportedView_def map_of_find)

lemma find_others:
  "List.find (\<lambda>p. dpPublicKey p = j) (filter (\<lambda>p. dpPublicKey p \<noteq> k) ps) =
     (if j = k then None else List.find (\<lambda>p. dpPublicKey p = j) ps)"
  by (induction ps) auto

lemma find_less:
  "List.find (\<lambda>p. dpPublicKey p = j) (map (\<lambda>p. p\<lparr>dpAllowedIPs := f p\<rparr>) ps) =
     map_option (\<lambda>p. p\<lparr>dpAllowedIPs := f p\<rparr>) (List.find (\<lambda>p. dpPublicKey p = j) ps)"
  by (induction ps) auto

lemma simView_configurePeer: "simView (configurePeer ps c) = applyPeer (simView ps) c"
proof (rule ext)
  fix j
  let ?found = "List.find (\<lambda>p. dpPublicKey p = pcPublicKey c) ps" and ?N = "canonNet ` set (pcAllowedIPs c)"
  have key: "dpPublicKey p = pcPublicKey c" if "?found = Some p" for p
    using that by (auto simp: find_Some_iff)
  have diff: "{n \<in> A. n \<notin> ?N} = A - ?N" for A by auto
  consider "pcRemove c" | "\<not> pcRemove c" "pcUpdateOnly c" "?found = None"
    | (new) "\<not> pcRemove c" "\<not> pcUpdateOnly c" "?found = None" | (old) p where "\<not> pcRemove c" "?found = Some p"
    by (cases ?found) auto
  then show "simView (configurePeer ps c) j = applyPeer (simView ps) c j"
  proof cases
    case new
    then show ?thesis
      by (simp add: configurePeer_def applyPeer_def simView_def Let_def find_others find_less newPeer_def
          option.map_comp comp_def diff)
  next
    case (old p)
    then show ?thesis
      by (simp add: configurePeer_def applyPeer_def simView_def Let_def find_others find_less key [OF old(2)]
          option.map_comp comp_def diff)
  qed (simp_all add: configurePeer_def applyPeer_def simView_def Let_def find_others)
qed

lemma wellPeers_configurePeer: "wellPeers ps \<Longrightarrow> wellPeers (configurePeer ps c)"
proof -
  assume w: "wellPeers ps"
  have canon: "Unmap (netIP (canonNet n)) = netIP (canonNet n)" for n
    by (cases "netIP n") (auto simp: canonNet_def)
  show ?thesis
  proof (cases "List.find (\<lambda>p. dpPublicKey p = pcPublicKey c) ps")
    case None
    then show ?thesis using w
      by (auto simp: wellPeers_def configurePeer_def Let_def newPeer_def comp_def canon distinct_map_filter)
  next
    case (Some p)
    then have "p \<in> set ps" "dpPublicKey p = pcPublicKey c" by (auto simp: find_Some_iff)
    then show ?thesis using w Some
      by (auto simp: wellPeers_def configurePeer_def Let_def comp_def canon distinct_map_filter)
  qed
qed

lemma foldl_configurePeer:
  "simView (foldl configurePeer ps cs) = foldl applyPeer (simView ps) cs"
  "wellPeers ps \<Longrightarrow> wellPeers (foldl configurePeer ps cs)"
  by (induction cs arbitrary: ps) (simp_all add: simView_configurePeer wellPeers_configurePeer)

lemma simView_Nil [simp]: "simView [] = Map.empty"
  by (auto simp: simView_def)

lemma deviceLaws_sim: "deviceLaws (\<lambda>w. simView (nsPeers w)) simWgctrl iface"
  using simView_reported [of "\<lparr>dvName = n, dvPrivateKey = k, dvPeers = ps\<rparr>" for n and k :: "8 word" and ps]
  by (auto simp: deviceLaws_def triple_def simWgctrl_def foldl_configurePeer(1) wellReported_def wellPeers_def split: if_splits)

end
