(* ===== verification/WgSync.thy ===== *)
theory WgSync
  imports NetSim "HOL-Library.AList"
begin

text \<open>
  The agent's WireGuard interface, \<open>src/internal/wireguard/wireguard.go\<close>: the link, its address and
  route, and the peers of the device. The sidecar uses the same code for its link and its address.
\<close>

section \<open>Link, address and route\<close>

definition MTU :: int where "MTU = 1420"

definition syncRoute :: "'w netlink \<Rightarrow> string \<Rightarrow> string \<Rightarrow> Addr \<Rightarrow> ('w, goError, unit) io" where
  "syncRoute nl iface cidr gw =
     bindE (mapErr errnoError (LinkByName nl iface)) (\<lambda>link.
     bindE (mapErr errnoError (RouteList nl link)) (\<lambda>routes.
       if \<exists>route \<in> set routes. rtLinkIndex route = lnIndex link then ret (Inr ())
       else case ParseCIDR cidr of
              None \<Rightarrow> ret (Inl (ErrorText (''invalid CIDR address: '' @ cidr)))
            | Some dst \<Rightarrow> mapErr errnoError
                (RouteAdd nl (noRoute\<lparr>rtLinkIndex := lnIndex link, rtDst := Some dst, rtGw := Some gw\<rparr>))))"

definition addressChanges :: "Prefix list \<Rightarrow> Prefix \<Rightarrow> Prefix list \<times> bool" where
  "addressChanges have want = (filter (\<lambda>p. p \<noteq> want) have, want \<notin> set have)"

definition netlinkAddr :: "Prefix \<Rightarrow> IPNet" where
  "netlinkAddr p = IPNet (pAddr p) (nat (pBits p)) 32"

text \<open>\<^verbatim>\<open>netip.PrefixFrom\<close> of the IPv4 form of an address and the size of its mask.\<close>

definition prefixOfIPNet :: "IPNet \<Rightarrow> Prefix" where
  "prefixOfIPNet n = PrefixFrom (case Unmap (netIP n) of Addr4 w \<Rightarrow> Addr4 w | _ \<Rightarrow> zeroAddr) (int (netOnes n))"

fun removeAddrs :: "'w netlink \<Rightarrow> Link \<Rightarrow> Prefix list \<Rightarrow> ('w, goError, unit) io" where
  "removeAddrs nl link [] = ret (Inr ())"
| "removeAddrs nl link (p # ps) =
     bindE (mapErr (\<lambda>e. WrapErr (''netlink addr del '' @ PrefixString p) (errnoError e))
             (AddrDel nl link (netlinkAddr p)))
       (\<lambda>_. removeAddrs nl link ps)"

definition SyncAddress :: "'w netlink \<Rightarrow> string \<Rightarrow> Prefix \<Rightarrow> ('w, goError, unit) io" where
  "SyncAddress nl iface want =
     bindE (mapErr errnoError (LinkByName nl iface)) (\<lambda>link.
     bindE (mapErr (\<lambda>e. WrapErr ''netlink addr list'' (errnoError e)) (AddrList nl link)) (\<lambda>addresses.
       let (rem, add) = addressChanges (map prefixOfIPNet addresses) want in
       bindE (removeAddrs nl link rem) (\<lambda>_.
       bindE (if add then mapErr (\<lambda>e. WrapErr ''netlink addr add'' (errnoError e))
                            (AddrAdd nl link (netlinkAddr want))
              else ret (Inr ()))
         (\<lambda>_. mapErr errnoError (LinkSetUp nl link)))))"

definition createLinkUsingUserspaceImpl :: "'w host \<Rightarrow> string \<Rightarrow> string \<Rightarrow> ('w, goError, unit) io" where
  "createLinkUsingUserspaceImpl h iface fallback =
     bindE (mapErr ErrorText (MkdirAll h ''/dev/net'' 493)) (\<lambda>_.
     bindE
       (do { fi \<leftarrow> Stat h ''/dev/net/tun'';
             case fi of
               Inl NotExist \<Rightarrow> mapErr (\<lambda>e. WrapErr ''mknod /dev/net/tun failed'' (ErrorText e))
                 (Mknod h ''/dev/net/tun'' 8630 (Mkdev h 10 200))
             | Inl (StatError e) \<Rightarrow> ret (Inl (ErrorText e))
             | Inr mode \<Rightarrow>
               if \<not> modeDevice mode \<or> \<not> modeCharDevice mode
               then ret (Inl (ErrorText ''/dev/net/tun exists but is not a character device''))
               else ret (Inr ()) })
       (\<lambda>_. mapErr (\<lambda>e. WrapErr (''starting userspace implementation '' @ fmtQ fallback @ '' failed'') (ErrorText e))
          (StartProcess h fallback iface)))"

definition userspaceLinkTimeout :: int where "userspaceLinkTimeout = 5000"

text \<open>
  Time is in milliseconds, and the file modes are the numbers \<^verbatim>\<open>0o755\<close> and \<^verbatim>\<open>S_IFCHR | 0o666\<close>.
  The polling loop of \<^verbatim>\<open>waitForLink\<close>, one unit of fuel per turn; \<open>None\<close> means that the fuel ran out
  before the loop returned.
\<close>

fun waitLoop :: "nat \<Rightarrow> 'w netlink \<Rightarrow> 'w host \<Rightarrow> string \<Rightarrow> int \<Rightarrow> int \<Rightarrow> ('w, (goError + unit) option) state" where
  "waitLoop 0 nl h iface timeout deadline = ret None"
| "waitLoop (Suc fuel) nl h iface timeout deadline = do {
     r \<leftarrow> LinkByName nl iface;
     case r of
       Inr _ \<Rightarrow> ret (Some (Inr ()))
     | Inl e \<Rightarrow> do {
         now \<leftarrow> nowMillis h;
         if deadline < now
         then ret (Some (Inl (WrapErr (''userspace WireGuard did not create link '' @ fmtQ iface @ '' within ''
             @ fmtInt (timeout div 1000) @ ''s'') (errnoError e))))
         else do { _ \<leftarrow> SleepMillis h 100; waitLoop fuel nl h iface timeout deadline }
       }
   }"

definition waitFuel :: "int \<Rightarrow> nat" where
  "waitFuel timeout = nat (timeout div 100) + 2"

definition waitForLink :: "'w netlink \<Rightarrow> 'w host \<Rightarrow> string \<Rightarrow> int \<Rightarrow> ('w, (goError + unit) option) state" where
  "waitForLink nl h iface timeout = do {
     now \<leftarrow> nowMillis h;
     waitLoop (waitFuel timeout) nl h iface timeout (now + timeout)
   }"

definition createLinkUsingKernelModule :: "'w netlink \<Rightarrow> string \<Rightarrow> int \<Rightarrow> ('w, goError, unit) io" where
  "createLinkUsingKernelModule nl iface mtu = mapErr errnoError (LinkAdd nl iface mtu ''wireguard'')"

definition outOfFuel :: goError where "outOfFuel = ErrorText ''waitForLink: out of fuel''"

text \<open>The creation of a missing link: the kernel module, or else the userspace implementation.\<close>

definition createLink :: "'w netlink \<Rightarrow> 'w host \<Rightarrow> string \<Rightarrow> int \<Rightarrow> string \<Rightarrow> ('w, goError, unit) io" where
  "createLink nl h iface mtu fallback = do {
     k \<leftarrow> createLinkUsingKernelModule nl iface mtu;
     case k of
       Inr _ \<Rightarrow> ret (Inr ())
     | Inl kernelErr \<Rightarrow> do {
         u \<leftarrow> createLinkUsingUserspaceImpl h iface fallback;
         case u of
           Inl userspaceErr \<Rightarrow> ret (Inl (JoinErr kernelErr userspaceErr))
         | Inr _ \<Rightarrow> do {
             w \<leftarrow> waitForLink nl h iface userspaceLinkTimeout;
             ret (case w of None \<Rightarrow> Inl outOfFuel | Some r \<Rightarrow> r)
           }
       }
   }"

definition SyncLink :: "'w netlink \<Rightarrow> 'w host \<Rightarrow> string \<Rightarrow> int \<Rightarrow> string \<Rightarrow> ('w, goError, unit) io" where
  "SyncLink nl h iface mtu fallback =
     bindE
       (do { found \<leftarrow> LinkByName nl iface;
             case found of
               Inr link \<Rightarrow> ret (Inr link)
             | Inl LinkNotFound \<Rightarrow>
                 bindE (createLink nl h iface mtu fallback) (\<lambda>_.
                   mapErr (\<lambda>e. WrapErr (''expected link '' @ fmtQ iface @ '' after creation, but not found'') (errnoError e))
                     (LinkByName nl iface))
             | Inl e \<Rightarrow> ret (Inl (errnoError e)) })
       (\<lambda>link.
         bindE (if lnMTU link \<noteq> mtu
                then mapErr (\<lambda>e. WrapErr (''set link '' @ fmtQ iface @ '' MTU to '' @ fmtInt mtu) (errnoError e))
                       (LinkSetMTU nl link mtu)
                else ret (Inr ()))
           (\<lambda>_. mapErr (\<lambda>e. WrapErr (''bringing link '' @ fmtQ iface @ '' up failed'') (errnoError e))
             (LinkSetUp nl link)))"

section \<open>The gateway's own address\<close>

definition gatewayIPFromPrefix :: "Prefix \<Rightarrow> goError + (IPNet \<times> Addr)" where
  "gatewayIPFromPrefix prefix =
     (let p = Masked prefix; addr = pAddr p in
      if \<not> Is4 addr then Inl (ErrorText (''unsupported address family for prefix '' @ fmtQ (PrefixString p)))
      else let gw = Next addr in
        if \<not> Is4 gw then Inl (ErrorText (''failed to derive IPv4 gateway for prefix '' @ fmtQ (PrefixString p)))
        else Inr (IPNet gw 32 32, gw))"

section \<open>The peers of the device\<close>

definition getIP :: "string \<Rightarrow> goError + IPNet list" where
  "getIP ip = (case ParseCIDR ip of
     None \<Rightarrow> Inl (WrapErr (''parse allowed IP '' @ fmtQ ip) (ErrorText (''invalid CIDR address: '' @ ip)))
   | Some n \<Rightarrow> Inr [n])"

definition allowedIPsEqual :: "IPNet list \<Rightarrow> IPNet list \<Rightarrow> bool" where
  "allowedIPsEqual a b \<longleftrightarrow> list_all2 (\<lambda>x y. ipEqual (netIP x) (netIP y)
     \<and> netOnes x = netOnes y \<and> netBits x = netBits y) a b"

text \<open>
  The configuration map of \<^verbatim>\<open>createPeersConfiguration\<close>, keyed by the printed public key, is an
  association list. The first loop goes over the peers the device has.
\<close>

type_synonym 'k peerConfigs = "(string \<times> 'k PeerConfig) list"

definition desiredAllowed :: "WireguardPeer \<Rightarrow> goError + IPNet list" where
  "desiredAllowed peer =
     (if address peer = [] then Inr []
      else case getIP (address peer @ ''/32'') of
             Inl e \<Rightarrow> Inl (WrapErr (''peer '' @ fmtQ (peerName peer)) e)
           | Inr allowed \<Rightarrow> Inr allowed)"

fun existingPeers ::
    "'k wgKeys \<Rightarrow> (string \<rightharpoonup> WireguardPeer) \<Rightarrow> 'k DevicePeer list \<Rightarrow> 'k peerConfigs \<Rightarrow> goError + 'k peerConfigs" where
  "existingPeers K peersState [] cfgs = Inr cfgs"
| "existingPeers K peersState (peer # peers) cfgs =
     (let key = KeyString K (dpPublicKey peer) in
      case peersState key of
        None \<Rightarrow> existingPeers K peersState peers
          (AList.update key ((newPeerConfig (dpPublicKey peer))\<lparr>pcRemove := True,
             pcAllowedIPs := dpAllowedIPs peer\<rparr>) cfgs)
      | Some peerState \<Rightarrow>
        (case desiredAllowed peerState of
           Inl e \<Rightarrow> Inl e
         | Inr allowed \<Rightarrow>
           existingPeers K peersState peers
             (if \<not> allowedIPsEqual allowed (dpAllowedIPs peer)
              then AList.update key ((newPeerConfig (dpPublicKey peer))\<lparr>pcUpdateOnly := True,
                     pcAllowedIPs := allowed, pcReplaceAllowedIPs := True\<rparr>) cfgs
              else cfgs)))"

text \<open>The second loop adds the peers of the state that the device does not have.\<close>

fun newPeers ::
    "'k wgKeys \<Rightarrow> string list \<Rightarrow> WireguardPeer list \<Rightarrow> 'k peerConfigs \<Rightarrow> goError + 'k peerConfigs" where
  "newPeers K existing [] cfgs = Inr cfgs"
| "newPeers K existing (peer # peers) cfgs =
     (if publicKey peer = [] \<or> address peer = [] then newPeers K existing peers cfgs
      else case ParseKey K (publicKey peer) of
             None \<Rightarrow> Inl (ErrorText ''wgtypes: failed to parse key'')
           | Some key \<Rightarrow>
             if KeyString K key \<in> set existing then newPeers K existing peers cfgs
             else case getIP (address peer @ ''/32'') of
                    Inl e \<Rightarrow> Inl (WrapErr (''peer '' @ fmtQ (peerName peer)) e)
                  | Inr allowed \<Rightarrow>
                      newPeers K existing peers
                        (AList.update (KeyString K key) ((newPeerConfig key)\<lparr>pcAllowedIPs := allowed\<rparr>) cfgs))"

text \<open>
  The peers to configure. Go does not specify the order in which the map is read out: \<open>iter\<close> is any
  function that permutes a list.
\<close>

definition peerChanges ::
    "'k wgKeys \<Rightarrow> ('k PeerConfig list \<Rightarrow> 'k PeerConfig list) \<Rightarrow> State \<Rightarrow> 'k Device \<Rightarrow> goError + 'k PeerConfig list" where
  "peerChanges K iter state device =
     (let peersState = map_of (rev (map (\<lambda>p. (publicKey p, p)) (Peers state))) in
      case existingPeers K peersState (dvPeers device) [] of
        Inl e \<Rightarrow> Inl e
      | Inr cfgs \<Rightarrow>
        (case newPeers K (map (\<lambda>p. KeyString K (dpPublicKey p)) (dvPeers device)) (Peers state) cfgs of
           Inl e \<Rightarrow> Inl e
         | Inr cfgs' \<Rightarrow> Inr (iter (map snd cfgs'))))"

record ('w, 'k) wgHost =
  netlinkOps :: "'w netlink"
  ctl :: "('w, 'k) wgctrl"
  hostOps :: "'w host"
  wkeys :: "'k wgKeys"
  mapOrder :: "'k PeerConfig list \<Rightarrow> 'k PeerConfig list"

definition createPeersConfiguration ::
    "('w, 'k) wgHost \<Rightarrow> State \<Rightarrow> string \<Rightarrow> ('w, goError, 'k PeerConfig list) io" where
  "createPeersConfiguration h state iface =
     bindE (mapErr ErrorText (wgDevice (ctl h) iface)) (\<lambda>device.
       ret (peerChanges (wkeys h) (mapOrder h) state device))"

definition CreateWireguardConfiguration ::
    "('w, 'k) wgHost \<Rightarrow> State \<Rightarrow> string \<Rightarrow> int \<Rightarrow> ('w, goError, 'k WgConfig) io" where
  "CreateWireguardConfiguration h state iface listenPort =
     (case ParseKey (wkeys h) (ServerPrivateKey state) of
        None \<Rightarrow> ret (Inl (ErrorText ''wgtypes: failed to parse key''))
      | Some key \<Rightarrow>
        bindE (createPeersConfiguration h state iface) (\<lambda>peers.
          ret (Inr \<lparr>cfPrivateKey = Some key, cfListenPort = Some listenPort, cfReplacePeers = False,
                    cfPeers = peers\<rparr>)))"

definition syncWireguard :: "('w, 'k) wgHost \<Rightarrow> State \<Rightarrow> string \<Rightarrow> int \<Rightarrow> ('w, goError, unit) io" where
  "syncWireguard h state iface listenPort =
     bindE (mapErr (\<lambda>e. WrapErr ''open wgctrl client'' (ErrorText e)) (wgNew (ctl h))) (\<lambda>_. do {
       r \<leftarrow> bindE (CreateWireguardConfiguration h state iface listenPort) (\<lambda>cfg.
              mapErr ErrorText (wgConfigureDevice (ctl h) iface cfg));
       c \<leftarrow> wgClose (ctl h);
       ret (case joinErr (case r of Inl e \<Rightarrow> Some e | Inr _ \<Rightarrow> None)
                         (case c of Inl e \<Rightarrow> Some (ErrorText e) | Inr _ \<Rightarrow> None) of
              None \<Rightarrow> Inr ()
            | Some e \<Rightarrow> Inl e)
     })"

text \<open>\<^verbatim>\<open>Wireguard\<close>, the receiver of \<^verbatim>\<open>Sync\<close>.\<close>

record wgAgent =
  wgIface :: string
  wgListenPort :: int
  wgFallback :: string

definition Sync :: "('w, 'k) wgHost \<Rightarrow> wgAgent \<Rightarrow> State \<Rightarrow> ('w, goError, unit) io" where
  "Sync h wg state =
     bindE (SyncLink (netlinkOps h) (hostOps h) (wgIface wg) MTU (wgFallback wg)) (\<lambda>_.
       let cidr = PeerCIDR state in
       case ParsePrefix cidr of
         Inl e \<Rightarrow> ret (Inl (WrapErr (''failed to parse IPv4 CIDR '' @ fmtQ cidr) (ParseError e)))
       | Inr prefix \<Rightarrow>
         (case gatewayIPFromPrefix prefix of
            Inl e \<Rightarrow> ret (Inl e)
          | Inr (_, gw) \<Rightarrow>
            bindE (SyncAddress (netlinkOps h) (wgIface wg) (PrefixFrom gw 32)) (\<lambda>_.
            bindE (syncRoute (netlinkOps h) (wgIface wg) cidr gw) (\<lambda>_.
              syncWireguard h state (wgIface wg) (wgListenPort wg)))))"

section \<open>The device a state describes\<close>

text \<open>Every peer with its own address and nothing else.\<close>

definition peerNet :: "WireguardPeer \<Rightarrow> IPNet" where
  "peerNet p = the (ParseCIDR (address p @ ''/32''))"

definition stateView :: "'k wgKeys \<Rightarrow> State \<Rightarrow> 'k devView" where
  "stateView K st k = map_option (\<lambda>p. {peerNet p}) (map_of (map (\<lambda>p. (publicKey p, p)) (Peers st)) (KeyString K k))"

text \<open>What the operator's admission guarantees of the peers of a state.\<close>

definition wellState :: "'k wgKeys \<Rightarrow> State \<Rightarrow> bool" where
  "wellState K st \<longleftrightarrow> distinct (map publicKey (Peers st)) \<and> distinct (map address (Peers st))
     \<and> (\<forall>p \<in> set (Peers st). publicKey p \<noteq> [] \<and> canonicalKey K (publicKey p) \<and> (\<exists>w. address p = string4 w))"

subsection \<open>Configuring towards a view\<close>

definition towards :: "'k devView \<Rightarrow> 'k devView \<Rightarrow> 'k PeerConfig \<Rightarrow> bool" where
  "towards T m c \<longleftrightarrow> (let k = pcPublicKey c in
     if pcRemove c then T k = None
     else T k = Some (canonNet ` set (pcAllowedIPs c)) \<and> (pcReplaceAllowedIPs c \<or> m k = None) \<and> (pcUpdateOnly c \<longrightarrow> m k \<noteq> None))"

definition disjointView :: "'k devView \<Rightarrow> bool" where
  "disjointView T \<longleftrightarrow> (\<forall>j k s t. j \<noteq> k \<longrightarrow> T j = Some s \<longrightarrow> T k = Some t \<longrightarrow> s \<inter> t = {})"

lemma applyPeer_at: "towards T m c \<Longrightarrow> applyPeer m c (pcPublicKey c) = T (pcPublicKey c)"
  by (auto simp: towards_def applyPeer_def Let_def split: if_splits)

lemma applyPeer_other:
  assumes "disjointView T" and "towards T m c" and "k \<noteq> pcPublicKey c"
  shows "m k = T k \<Longrightarrow> applyPeer m c k = T k" and "applyPeer m c k = None \<longleftrightarrow> m k = None"
proof -
  have "s - canonNet ` set (pcAllowedIPs c) = s" if "T k = Some s" "\<not> pcRemove c" for s
    using assms that by (fastforce simp: disjointView_def towards_def Let_def)
  then show "m k = T k \<Longrightarrow> applyPeer m c k = T k"
    using assms(3) by (cases "T k") (auto simp: applyPeer_def Let_def)
  show "applyPeer m c k = None \<longleftrightarrow> m k = None"
    using assms(3) by (auto simp: applyPeer_def Let_def)
qed

lemma foldl_applyPeer:
  assumes "disjointView T" and "distinct (map pcPublicKey cs)" and "\<forall>c \<in> set cs. towards T m c"
    and "\<forall>k. k \<notin> pcPublicKey ` set cs \<longrightarrow> m k = T k"
  shows "foldl applyPeer m cs = T"
  using assms(2-)
proof (induction cs arbitrary: m)
  case (Cons c cs)
  let ?m = "applyPeer m c"
  have c: "towards T m c" using Cons.prems by simp
  have new: "pcPublicKey d \<noteq> pcPublicKey c" if "d \<in> set cs" for d
    using Cons.prems(1) imageI [OF that, of pcPublicKey] by (intro notI) simp
  have "towards T ?m d" if "d \<in> set cs" for d
    using Cons.prems(2) that applyPeer_other(2) [OF assms(1) c new [OF that]] by (auto simp: towards_def Let_def)
  moreover have "?m k = T k" if "k \<notin> pcPublicKey ` set cs" for k
    using Cons.prems(3) that applyPeer_at [OF c] applyPeer_other(1) [OF assms(1) c, of k]
    by (cases "k = pcPublicKey c") auto
  ultimately show ?case using Cons.IH [of ?m] Cons.prems(1) by simp
qed auto

subsection \<open>The changes the agent computes\<close>

lemma net4_32 [simp]: "net4 w 32 = w"
  by simp

lemma getIP_string4: "getIP (string4 w @ ''/32'') = Inr [IPNet (Addr4 w) 32 32]"
proof -
  have "Itoa 32 = ''32''" by code_simp
  then have "string4 w @ ''/32'' = cidr4 w 32" by (simp add: cidr4_def)
  then show ?thesis by (simp add: getIP_def)
qed

lemma desiredAllowed_string4:
  assumes "address p = string4 w"
  shows "desiredAllowed p = Inr [peerNet p]" "getIP (address p @ ''/32'') = Inr [peerNet p]"
    "peerNet p = IPNet (Addr4 w) 32 32" "canonNet (peerNet p) = peerNet p"
  using getIP_string4 [of w] assms
  by (auto simp: desiredAllowed_def peerNet_def getIP_def canonNet_def split: option.splits)

lemma allowedIPsEqual_single:
  assumes "Unmap (netIP n) = netIP n" and "\<forall>x \<in> set l. Unmap (netIP x) = netIP x"
  shows "allowedIPsEqual [n] l \<longleftrightarrow> l = [n]"
  using assms by (cases l; cases "tl l") (auto simp: allowedIPsEqual_def ipEqual_def IPNet.expand)

lemma set_AList_update: "set (AList.update k v al) \<subseteq> insert (k, v) (set al)"
  by (induction al) auto

lemma fst_AList_update: "fst ` set (AList.update k v al) = insert k (fst ` set al)"
  using dom_update [of k v al] by (simp add: dom_map_of_conv_image_fst)

text \<open>
  The entries of the configuration map while it is filled: each is filed under its own key, leads
  towards the desired view, and changes something.
\<close>

definition goodEntries :: "'k wgKeys \<Rightarrow> 'k devView \<Rightarrow> 'k devView \<Rightarrow> 'k peerConfigs \<Rightarrow> bool" where
  "goodEntries K T m cfgs \<longleftrightarrow> distinct (map fst cfgs)
     \<and> (\<forall>(s, c) \<in> set cfgs. s = KeyString K (pcPublicKey c) \<and> towards T m c \<and> m (pcPublicKey c) \<noteq> T (pcPublicKey c))"

lemma goodEntries_update:
  assumes "goodEntries K T m cfgs" and "towards T m c" and "m (pcPublicKey c) \<noteq> T (pcPublicKey c)"
    and "s = KeyString K (pcPublicKey c)"
  shows "goodEntries K T m (AList.update s c cfgs)"
  using assms set_AList_update [of s c cfgs] by (auto simp: goodEntries_def distinct_update)

lemma existingPeers_good:
  assumes st: "wellState K st" and T: "T = stateView K st"
    and PS: "PS = map_of (map (\<lambda>p. (publicKey p, p)) (Peers st))"
    and m: "\<forall>p \<in> set devs. m (dpPublicKey p) = Some (set (dpAllowedIPs p)) \<and> distinct (dpAllowedIPs p)
        \<and> (\<forall>n \<in> set (dpAllowedIPs p). Unmap (netIP n) = netIP n)"
    and good: "goodEntries K T m cfgs"
  shows "\<exists>out. existingPeers K PS devs cfgs = Inr out \<and> goodEntries K T m out \<and> fst ` set cfgs \<subseteq> fst ` set out
    \<and> (\<forall>p \<in> set devs. KeyString K (dpPublicKey p) \<in> fst ` set out \<or> m (dpPublicKey p) = T (dpPublicKey p))"
  using m good
proof (induction devs arbitrary: cfgs)
  case (Cons d devs)
  let ?k = "dpPublicKey d" and ?key = "KeyString K (dpPublicKey d)"
  have d: "m ?k = Some (set (dpAllowedIPs d))" "distinct (dpAllowedIPs d)"
    "\<forall>n \<in> set (dpAllowedIPs d). Unmap (netIP n) = netIP n" using Cons.prems(1) by auto
  have "\<exists>nxt. existingPeers K PS (d # devs) cfgs = existingPeers K PS devs nxt \<and> goodEntries K T m nxt
      \<and> fst ` set cfgs \<subseteq> fst ` set nxt \<and> (?key \<in> fst ` set nxt \<or> m ?k = T ?k)"
  proof (cases "PS ?key")
    case None
    let ?c = "(newPeerConfig ?k)\<lparr>pcRemove := True, pcAllowedIPs := dpAllowedIPs d\<rparr>"
    have "T ?k = None" using None by (simp add: T stateView_def PS)
    then have "goodEntries K T m (AList.update ?key ?c cfgs)"
      using d(1) by (intro goodEntries_update Cons.prems) (simp_all add: towards_def newPeerConfig_def)
    then show ?thesis using None
      by (intro exI [of _ "AList.update ?key ?c cfgs"]) (auto simp: Let_def fst_AList_update)
  next
    case (Some p)
    let ?c = "(newPeerConfig ?k)\<lparr>pcUpdateOnly := True, pcAllowedIPs := [peerNet p], pcReplaceAllowedIPs := True\<rparr>"
    have "p \<in> set (Peers st)" using Some by (auto simp: PS dest: map_of_SomeD)
    then obtain w where w: "address p = string4 w" using st by (auto simp: wellState_def)
    have Tk: "T ?k = Some {peerNet p}" using Some by (simp add: T stateView_def PS)
    have eq: "allowedIPsEqual [peerNet p] (dpAllowedIPs d) \<longleftrightarrow> dpAllowedIPs d = [peerNet p]"
      using d(3) by (intro allowedIPsEqual_single) (simp_all add: desiredAllowed_string4(3) [OF w])
    have single: "set (dpAllowedIPs d) = {peerNet p} \<longleftrightarrow> dpAllowedIPs d = [peerNet p]"
      using d(2) by (cases "dpAllowedIPs d"; cases "tl (dpAllowedIPs d)") auto
    show ?thesis
    proof (cases "dpAllowedIPs d = [peerNet p]")
      case True
      then show ?thesis using Some Tk d(1) eq Cons.prems(2) desiredAllowed_string4(1) [OF w]
        by (intro exI [of _ cfgs]) (simp add: Let_def)
    next
      case False
      have "goodEntries K T m (AList.update ?key ?c cfgs)"
        using d(1) Tk False single desiredAllowed_string4(4) [OF w]
        by (intro goodEntries_update Cons.prems) (simp_all add: towards_def newPeerConfig_def)
      then show ?thesis using Some False eq desiredAllowed_string4(1) [OF w]
        by (intro exI [of _ "AList.update ?key ?c cfgs"]) (auto simp: Let_def fst_AList_update)
    qed
  qed
  then obtain nxt where n: "existingPeers K PS (d # devs) cfgs = existingPeers K PS devs nxt"
    "goodEntries K T m nxt" "fst ` set cfgs \<subseteq> fst ` set nxt" "?key \<in> fst ` set nxt \<or> m ?k = T ?k" by blast
  have "\<forall>p \<in> set devs. m (dpPublicKey p) = Some (set (dpAllowedIPs p)) \<and> distinct (dpAllowedIPs p)
        \<and> (\<forall>n \<in> set (dpAllowedIPs p). Unmap (netIP n) = netIP n)" using Cons.prems(1) by simp
  from Cons.IH [OF this n(2)] show ?case using n(1,3,4) by (elim exE conjE) (rule exI, auto)
qed simp

lemma newPeers_good:
  assumes K: "keyLaws K" and st: "wellState K st" and T: "T = stateView K st"
    and ex: "\<And>k. KeyString K k \<notin> set existing \<Longrightarrow> m k = None"
    and ps: "set ps \<subseteq> set (Peers st)" and good: "goodEntries K T m cfgs"
  shows "\<exists>out. newPeers K existing ps cfgs = Inr out \<and> goodEntries K T m out \<and> fst ` set cfgs \<subseteq> fst ` set out
    \<and> (\<forall>p \<in> set ps. publicKey p \<in> fst ` set out \<or> publicKey p \<in> set existing)"
  using ps good
proof (induction ps arbitrary: cfgs)
  case (Cons p ps)
  have p: "p \<in> set (Peers st)" using Cons.prems by simp
  obtain k w where k: "ParseKey K (publicKey p) = Some k" "KeyString K k = publicKey p" "publicKey p \<noteq> []"
    and w: "address p = string4 w"
    using st p by (auto simp: wellState_def canonicalKey_def)
  let ?c = "(newPeerConfig k)\<lparr>pcAllowedIPs := [peerNet p]\<rparr>"
  show ?case
  proof (cases "publicKey p \<in> set existing")
    case True
    then show ?thesis using Cons.IH [of cfgs] Cons.prems k w by simp
  next
    case False
    have "map_of (map (\<lambda>p. (publicKey p, p)) (Peers st)) (publicKey p) = Some p"
      using p st by (intro map_of_is_SomeI) (auto simp: wellState_def comp_def)
    then have "T k = Some {peerNet p}" by (simp add: T stateView_def k(2))
    then have good': "goodEntries K T m (AList.update (publicKey p) ?c cfgs)"
      using ex [of k] False k(2) desiredAllowed_string4(4) [OF w]
      by (intro goodEntries_update Cons.prems) (simp_all add: towards_def newPeerConfig_def)
    have "set ps \<subseteq> set (Peers st)" using Cons.prems(1) by simp
    from Cons.IH [OF this good'] obtain out where
      "newPeers K existing ps (AList.update (publicKey p) ?c cfgs) = Inr out" "goodEntries K T m out"
      "insert (publicKey p) (fst ` set cfgs) \<subseteq> fst ` set out"
      "\<forall>p \<in> set ps. publicKey p \<in> fst ` set out \<or> publicKey p \<in> set existing"
      unfolding fst_AList_update by blast
    moreover have "newPeers K existing (p # ps) cfgs = newPeers K existing ps (AList.update (publicKey p) ?c cfgs)"
      using False k w desiredAllowed_string4(2) [OF w] by simp
    ultimately show ?thesis by (intro exI [of _ out]) simp
  qed
qed simp


lemma KeyString_inject: "keyLaws K \<Longrightarrow> KeyString K j = KeyString K k \<longleftrightarrow> j = k"
  by (metis keyLaws_def option.inject)

lemma stateView_disjoint:
  assumes "keyLaws K" and "wellState K st"
  shows "disjointView (stateView K st)"
  unfolding disjointView_def
proof (intro allI impI)
  fix j k s t
  assume "j \<noteq> k" and "stateView K st j = Some s" and "stateView K st k = Some t"
  then obtain p q where p: "p \<in> set (Peers st)" "publicKey p = KeyString K j" "s = {peerNet p}"
    and q: "q \<in> set (Peers st)" "publicKey q = KeyString K k" "t = {peerNet q}"
    by (auto simp: stateView_def dest!: map_of_SomeD)
  then have "publicKey p \<noteq> publicKey q" using KeyString_inject [OF assms(1)] \<open>j \<noteq> k\<close> by simp
  then have "address p \<noteq> address q"
    using assms(2) p(1) q(1) by (auto simp: wellState_def distinct_map dest: inj_onD)
  moreover obtain v w where "address p = string4 v" "address q = string4 w"
    using assms(2) p(1) q(1) unfolding wellState_def by blast
  ultimately show "s \<inter> t = {}" using p(3) q(3) desiredAllowed_string4(3) by simp
qed

text \<open>Both loops together, for any order the map is read in.\<close>

lemma peerChanges_good:
  assumes K: "keyLaws K" and st: "wellState K st" and d: "wellReported d"
    and iter: "\<And>xs. mset (iter xs) = mset xs"
  obtains cs where "peerChanges K iter st d = Inr cs" and "distinct (map pcPublicKey cs)"
    and "\<forall>c \<in> set cs. towards (stateView K st) (reportedView d) c"
    and "pcPublicKey ` set cs = {k. reportedView d k \<noteq> stateView K st k}"
proof -
  let ?T = "stateView K st" and ?m = "reportedView d" and ?key = "\<lambda>p. KeyString K (dpPublicKey p)"
  let ?PS = "map_of (map (\<lambda>p. (publicKey p, p)) (Peers st))"
  have PS: "map_of (rev (map (\<lambda>p. (publicKey p, p)) (Peers st))) = ?PS"
    using st by (subst map_of_inject_set) (simp_all add: wellState_def comp_def flip: rev_map)
  have m: "\<forall>p \<in> set (dvPeers d). ?m (dpPublicKey p) = Some (set (dpAllowedIPs p)) \<and> distinct (dpAllowedIPs p)
        \<and> (\<forall>n \<in> set (dpAllowedIPs p). Unmap (netIP n) = netIP n)"
    using d by (auto simp: wellReported_def reportedView_def comp_def intro!: map_of_is_SomeI)
  have "goodEntries K ?T ?m []" by (simp add: goodEntries_def)
  from existingPeers_good [OF st refl refl m this] obtain c1 where
    c1: "existingPeers K ?PS (dvPeers d) [] = Inr c1" "goodEntries K ?T ?m c1"
      "\<forall>p \<in> set (dvPeers d). ?key p \<in> fst ` set c1 \<or> ?m (dpPublicKey p) = ?T (dpPublicKey p)" by blast
  have ex: "?m k = None" if "KeyString K k \<notin> set (map ?key (dvPeers d))" for k
    using that by (auto simp: reportedView_def map_of_eq_None_iff)
  from newPeers_good [OF K st refl ex subset_refl c1(2)] obtain c2 where
    c2: "newPeers K (map ?key (dvPeers d)) (Peers st) c1 = Inr c2" "goodEntries K ?T ?m c2"
      "fst ` set c1 \<subseteq> fst ` set c2"
      "\<forall>p \<in> set (Peers st). publicKey p \<in> fst ` set c2 \<or> publicKey p \<in> set (map ?key (dvPeers d))" by blast
  have keyed: "map fst c2 = map (KeyString K) (map pcPublicKey (map snd c2))"
    using c2(2) by (auto simp: goodEntries_def)
  have set_iter: "set (iter (map snd c2)) = snd ` set c2"
    using mset_eq_setD [OF iter [of "map snd c2"]] by simp
  have key_iff: "KeyString K k \<in> fst ` set c2 \<longleftrightarrow> k \<in> pcPublicKey ` snd ` set c2" for k
    using arg_cong [OF keyed, of set] KeyString_inject [OF K] by (auto simp: image_iff)
  show thesis
  proof (rule that)
    show "peerChanges K iter st d = Inr (iter (map snd c2))"
      by (simp add: peerChanges_def PS c1(1) c2(1))
    have "distinct (map pcPublicKey (map snd c2))"
      using c2(2) unfolding goodEntries_def keyed by (simp only: distinct_map)
    then show "distinct (map pcPublicKey (iter (map snd c2)))"
      using iter [of "map snd c2"] by (metis mset_eq_imp_distinct_iff mset_map)
    show "\<forall>c \<in> set (iter (map snd c2)). towards ?T ?m c"
      using c2(2) by (auto simp: set_iter goodEntries_def)
    have "?m k = ?T k" if "k \<notin> pcPublicKey ` snd ` set c2" for k
    proof (cases "?m k")
      case None
      have "?T k = None"
      proof (rule ccontr)
        assume "?T k \<noteq> None"
        then obtain p where p: "p \<in> set (Peers st)" "publicKey p = KeyString K k"
          by (auto simp: stateView_def dest!: map_of_SomeD)
        then have "KeyString K k \<in> set (map ?key (dvPeers d))" using bspec [OF c2(4) p(1)] key_iff [of k] that by simp
        then obtain q where "q \<in> set (dvPeers d)" "dpPublicKey q = k" using KeyString_inject [OF K] by auto
        then have "?m k \<noteq> None" using m by auto
        then show False using None by simp
      qed
      then show ?thesis using None by simp
    next
      case (Some s)
      then obtain p where "p \<in> set (dvPeers d)" "dpPublicKey p = k"
        by (auto simp: reportedView_def dest!: map_of_SomeD)
      then show ?thesis using c1(3) c2(3) key_iff [of k] that by blast
    qed
    then show "pcPublicKey ` set (iter (map snd c2)) = {k. ?m k \<noteq> ?T k}"
      using c2(2) unfolding set_iter by (auto simp: goodEntries_def)
  qed
qed

subsection \<open>The addresses of the link\<close>

text \<open>
  What netlink documents of the addresses of a link: a listing shows them, and an addition or a deletion
  that succeeds changes exactly that address, one that fails none.
\<close>

definition listing4 :: "IPNet set \<Rightarrow> errno + IPNet list \<Rightarrow> bool" where
  "listing4 A r \<longleftrightarrow> (\<forall>as. r = Inr as \<longrightarrow> set as = A \<and> (\<forall>n \<in> A. \<exists>v k. n = IPNet (Addr4 v) k 32 \<and> k \<le> 32))"

definition addrLaws :: "('w \<Rightarrow> IPNet set) \<Rightarrow> 'w netlink \<Rightarrow> string \<Rightarrow> bool" where
  "addrLaws addrs nl iface \<longleftrightarrow> (\<forall>A l a.
     triple (\<lambda>w. addrs w = A) (LinkByName nl iface) (\<lambda>_ w. addrs w = A)
     \<and> triple (\<lambda>w. addrs w = A) (LinkSetUp nl l) (\<lambda>_ w. addrs w = A)
     \<and> triple (\<lambda>w. addrs w = A) (AddrList nl l) (\<lambda>r w. addrs w = A \<and> listing4 A r)
     \<and> triple (\<lambda>w. addrs w = A) (AddrDel nl l a) (\<lambda>r w. addrs w = (if isl r then A else A - {a}))
     \<and> triple (\<lambda>w. addrs w = A) (AddrAdd nl l a) (\<lambda>r w. addrs w = (if isl r then A else insert a A)))"

lemma netlinkAddr_prefixOfIPNet:
  "k \<le> 32 \<Longrightarrow> prefixOfIPNet (IPNet (Addr4 v) k 32) = Prefix (Addr4 v) (int k)"
  "k \<le> 32 \<Longrightarrow> netlinkAddr (Prefix (Addr4 v) (int k)) = IPNet (Addr4 v) k 32"
  by (simp_all add: netlinkAddr_def prefixOfIPNet_def PrefixFrom_def)

lemma removeAddrs_triple:
  assumes "addrLaws addrs nl iface"
  shows "triple (\<lambda>w. addrs w = A) (removeAddrs nl link ps) (\<lambda>r w. A - netlinkAddr ` set ps \<subseteq> addrs w
    \<and> (\<not> isl r \<longrightarrow> addrs w = A - netlinkAddr ` set ps))"
proof (induction ps arbitrary: A)
  case Nil
  then show ?case by (simp add: triple_ret)
next
  case (Cons p ps)
  let ?a = "netlinkAddr p"
  have del: "triple (\<lambda>w. addrs w = A) (AddrDel nl link ?a) (\<lambda>r w. addrs w = (if isl r then A else A - {?a}))"
    using assms by (simp add: addrLaws_def)
  have rest: "triple (\<lambda>w. addrs w = A - {?a}) (removeAddrs nl link ps) (\<lambda>r w. A - netlinkAddr ` set (p # ps) \<subseteq> addrs w
    \<and> (\<not> isl r \<longrightarrow> addrs w = A - netlinkAddr ` set (p # ps)))"
    by (rule triple_post [OF Cons.IH [of "A - {?a}"]]) auto
  show ?case
    unfolding removeAddrs.simps
    by (rule triple_bindE [where R = "\<lambda>r w. addrs w = (if isl r then A else A - {?a})"])
      (use rest in \<open>auto intro: triple_mapErr [OF del]\<close>)
qed

text \<open>The addresses \<^verbatim>\<open>SyncAddress\<close> removes are the ones the link has other than the wanted one.\<close>

lemma addressChanges_nets:
  assumes "listing4 A (Inr as)" and "n \<le> 32"
  shows "netlinkAddr ` set (fst (addressChanges (map prefixOfIPNet as) (Prefix (Addr4 a) (int n)))) = A - {IPNet (Addr4 a) n 32}"
    and "snd (addressChanges (map prefixOfIPNet as) (Prefix (Addr4 a) (int n))) \<longleftrightarrow> IPNet (Addr4 a) n 32 \<notin> A"
proof -
  let ?want = "Prefix (Addr4 a) (int n)" and ?net = "IPNet (Addr4 a) n 32"
  have as: "set as = A" using assms(1) by (simp add: listing4_def)
  have same: "netlinkAddr (prefixOfIPNet m) = m" and iswant: "prefixOfIPNet m = ?want \<longleftrightarrow> m = ?net" if m: "m \<in> A" for m
  proof -
    obtain v k where "m = IPNet (Addr4 v) k 32" "k \<le> 32" using assms(1) m by (auto simp: listing4_def)
    then show "netlinkAddr (prefixOfIPNet m) = m" "prefixOfIPNet m = ?want \<longleftrightarrow> m = ?net"
      by (simp_all add: netlinkAddr_prefixOfIPNet)
  qed
  have "netlinkAddr ` set (fst (addressChanges (map prefixOfIPNet as) ?want))
      = (\<lambda>m. netlinkAddr (prefixOfIPNet m)) ` {m \<in> A. prefixOfIPNet m \<noteq> ?want}"
    by (auto simp: addressChanges_def as)
  also have "\<dots> = (\<lambda>m. m) ` (A - {?net})"
    using same iswant by (intro image_cong) auto
  finally show "netlinkAddr ` set (fst (addressChanges (map prefixOfIPNet as) ?want)) = A - {?net}" by simp
  show "snd (addressChanges (map prefixOfIPNet as) ?want) \<longleftrightarrow> ?net \<notin> A"
    using iswant by (simp add: addressChanges_def as image_iff) metis
qed

lemma SyncAddress_triple:
  assumes laws: "addrLaws addrs nl iface" and n: "n \<le> 32"
  shows "triple (\<lambda>w. addrs w = A) (SyncAddress nl iface (Prefix (Addr4 a) (int n)))
    (\<lambda>r w. A \<inter> {IPNet (Addr4 a) n 32} \<subseteq> addrs w \<and> (\<not> isl r \<longrightarrow> addrs w = {IPNet (Addr4 a) n 32}))"
    (is "triple _ _ ?Q")
proof -
  let ?want = "Prefix (Addr4 a) (int n)" and ?net = "IPNet (Addr4 a) n 32"
  have ops: "triple (\<lambda>w. addrs w = B) (LinkByName nl iface) (\<lambda>_ w. addrs w = B)"
    "triple (\<lambda>w. addrs w = B) (LinkSetUp nl l) (\<lambda>_ w. addrs w = B)"
    "triple (\<lambda>w. addrs w = B) (AddrList nl l) (\<lambda>r w. addrs w = B \<and> listing4 B r)"
    "triple (\<lambda>w. addrs w = B) (AddrAdd nl l b) (\<lambda>r w. addrs w = (if isl r then B else insert b B))" for B l b
    using laws by (simp_all add: addrLaws_def)
  have up: "triple (\<lambda>w. addrs w = {?net}) (mapErr errnoError (LinkSetUp nl l)) ?Q" for l
    by (rule triple_mapErr [OF ops(2)]) auto
  let ?add = "\<lambda>l b. if b then mapErr (\<lambda>e. WrapErr ''netlink addr add'' (errnoError e)) (AddrAdd nl l (netlinkAddr ?want)) else ret (Inr ())"
  have add: "triple (\<lambda>w. addrs w = A \<inter> {?net}) (bindE (?add l (?net \<notin> A)) (\<lambda>_. mapErr errnoError (LinkSetUp nl l))) ?Q" for l
  proof (rule triple_bindE [where R = "\<lambda>r w. A \<inter> {?net} \<subseteq> addrs w \<and> (\<not> isl r \<longrightarrow> addrs w = {?net})"])
    show "triple (\<lambda>w. addrs w = A \<inter> {?net}) (?add l (?net \<notin> A))
        (\<lambda>r w. A \<inter> {?net} \<subseteq> addrs w \<and> (\<not> isl r \<longrightarrow> addrs w = {?net}))"
    proof (rule triple_if)
      show "triple (\<lambda>w. addrs w = A \<inter> {?net}) (mapErr (\<lambda>e. WrapErr ''netlink addr add'' (errnoError e))
          (AddrAdd nl l (netlinkAddr ?want))) (\<lambda>r w. A \<inter> {?net} \<subseteq> addrs w \<and> (\<not> isl r \<longrightarrow> addrs w = {?net}))"
        by (rule triple_mapErr [OF ops(4)]) (auto simp: netlinkAddr_prefixOfIPNet n)
    qed (auto intro: triple_ret)
    show "triple (\<lambda>w. A \<inter> {?net} \<subseteq> addrs w \<and> (\<not> isl (Inr x) \<longrightarrow> addrs w = {?net})) (mapErr errnoError (LinkSetUp nl l)) ?Q" for x
      by (rule triple_pre [OF up]) simp
  qed simp
  have change: "triple (\<lambda>w. addrs w = A) (case addressChanges (map prefixOfIPNet as) ?want of (rem, b) \<Rightarrow>
      bindE (removeAddrs nl l rem) (\<lambda>_. bindE (?add l b) (\<lambda>_. mapErr errnoError (LinkSetUp nl l)))) ?Q"
    if "listing4 A (Inr as)" for as l
    unfolding case_prod_beta addressChanges_nets(2) [OF that n]
  proof (rule triple_bindE [OF removeAddrs_triple [OF laws]])
    let ?R = "A - netlinkAddr ` set (fst (addressChanges (map prefixOfIPNet as) ?want))"
    have R: "?R = A \<inter> {?net}" using addressChanges_nets(1) [OF that n] by auto
    show "triple (\<lambda>w. ?R \<subseteq> addrs w \<and> (\<not> isl (Inr x) \<longrightarrow> addrs w = ?R))
        (bindE (?add l (?net \<notin> A)) (\<lambda>_. mapErr errnoError (LinkSetUp nl l))) ?Q" for x
      unfolding R by (rule triple_pre [OF add]) simp
    show "?Q (Inl e) w" if "?R \<subseteq> addrs w \<and> (\<not> isl (Inl e) \<longrightarrow> addrs w = ?R)" for e w
      using that unfolding R by simp
  qed
  have listed: "triple (\<lambda>w. addrs w = A) (bindE (mapErr (\<lambda>e. WrapErr ''netlink addr list'' (errnoError e)) (AddrList nl l))
      (\<lambda>as. case addressChanges (map prefixOfIPNet as) ?want of (rem, b) \<Rightarrow>
      bindE (removeAddrs nl l rem) (\<lambda>_. bindE (?add l b) (\<lambda>_. mapErr errnoError (LinkSetUp nl l))))) ?Q" for l
    by (rule triple_bindE [where R = "\<lambda>r w. (\<forall>as. r = Inr as \<longrightarrow> listing4 A (Inr as)) \<and> addrs w = A"],
        rule triple_mapErr [OF ops(3)], simp_all) (rule triple_conj_pre, erule change)
  show ?thesis
    unfolding SyncAddress_def Let_def
    by (rule triple_bindE [where R = "\<lambda>r w. addrs w = A"]) (auto intro: triple_mapErr [OF ops(1)] listed)
qed

subsection \<open>The link and the clock\<close>

text \<open>
  The MTU of the link and whether it is up, as netlink reports and changes them; \<open>None\<close> while there is no
  link.
\<close>

definition linkLaws :: "('w \<Rightarrow> (int \<times> bool) option) \<Rightarrow> 'w netlink \<Rightarrow> string \<Rightarrow> bool" where
  "linkLaws lv nl iface \<longleftrightarrow> (\<forall>V l m.
     triple (\<lambda>w. lv w = V) (LinkByName nl iface)
       (\<lambda>r w. (\<forall>l. r = Inr l \<longrightarrow> lnName l = iface \<and> (\<exists>up. V = Some (lnMTU l, up))) \<and> lv w = V)
     \<and> (lnName l = iface \<longrightarrow>
          triple (\<lambda>w. lv w = V) (LinkSetMTU nl l m) (\<lambda>r w. \<not> isl r \<longrightarrow> lv w = map_option (\<lambda>(_, up). (m, up)) V)
          \<and> triple (\<lambda>w. lv w = V) (LinkSetUp nl l) (\<lambda>r w. \<not> isl r \<longrightarrow> lv w = map_option (\<lambda>(mtu, _). (mtu, True)) V)))"

lemma SyncLink_triple:
  assumes laws: "linkLaws lv nl iface"
  shows "triple (\<lambda>_. True) (SyncLink nl h iface mtu fallback) (\<lambda>r w. \<not> isl r \<longrightarrow> lv w = Some (mtu, True))"
proof -
  let ?found = "\<lambda>r w. \<forall>l. r = Inr l \<longrightarrow> lnName l = iface \<and> (\<exists>up. lv w = Some (lnMTU l, up))"
  let ?Q = "\<lambda>r w. \<not> isl r \<longrightarrow> lv w = Some (mtu, True)"
  have look: "triple (\<lambda>_. True) (LinkByName nl iface) ?found"
  proof (rule triple_view [where f = lv])
    fix V
    have "triple (\<lambda>w. lv w = V) (LinkByName nl iface)
       (\<lambda>r w. (\<forall>l. r = Inr l \<longrightarrow> lnName l = iface \<and> (\<exists>up. V = Some (lnMTU l, up))) \<and> lv w = V)"
      using laws by (simp add: linkLaws_def)
    then show "triple (\<lambda>w. lv w = V \<and> True) (LinkByName nl iface) ?found"
      by (rule triple_post [OF triple_pre]) auto
  qed
  have up: "triple (\<lambda>w. lv w = Some (m, u)) (mapErr g (LinkSetUp nl l)) (\<lambda>r w. \<not> isl r \<longrightarrow> lv w = Some (m, True))"
    and mtu: "triple (\<lambda>w. lv w = Some (m, u)) (mapErr g (LinkSetMTU nl l mtu)) (\<lambda>r w. \<not> isl r \<longrightarrow> lv w = Some (mtu, u))"
    if "lnName l = iface" for l m u and g :: "errno \<Rightarrow> goError"
  proof -
    have ops: "triple (\<lambda>w. lv w = V) (LinkSetMTU nl l mtu) (\<lambda>r w. \<not> isl r \<longrightarrow> lv w = map_option (\<lambda>(_, up). (mtu, up)) V)"
      "triple (\<lambda>w. lv w = V) (LinkSetUp nl l) (\<lambda>r w. \<not> isl r \<longrightarrow> lv w = map_option (\<lambda>(mtu, _). (mtu, True)) V)" for V
      using laws that by (simp_all add: linkLaws_def)
    show "triple (\<lambda>w. lv w = Some (m, u)) (mapErr g (LinkSetUp nl l)) (\<lambda>r w. \<not> isl r \<longrightarrow> lv w = Some (m, True))"
      by (rule triple_mapErr [OF ops(2)]) simp_all
    show "triple (\<lambda>w. lv w = Some (m, u)) (mapErr g (LinkSetMTU nl l mtu)) (\<lambda>r w. \<not> isl r \<longrightarrow> lv w = Some (mtu, u))"
      by (rule triple_mapErr [OF ops(1)]) simp_all
  qed
  have finish: "triple (?found (Inr l)) (bindE (if lnMTU l \<noteq> mtu then mapErr g (LinkSetMTU nl l mtu) else ret (Inr ()))
      (\<lambda>_. mapErr g' (LinkSetUp nl l))) ?Q" for l and g g' :: "errno \<Rightarrow> goError"
  proof (cases "lnName l = iface")
    case True
    show ?thesis
    proof (rule triple_bindE [where R = "\<lambda>r w. \<not> isl r \<longrightarrow> (\<exists>u. lv w = Some (mtu, u))"])
      show "triple (?found (Inr l)) (if lnMTU l \<noteq> mtu then mapErr g (LinkSetMTU nl l mtu) else ret (Inr ()))
          (\<lambda>r w. \<not> isl r \<longrightarrow> (\<exists>u. lv w = Some (mtu, u)))"
        by (rule triple_pre [where P' = "\<lambda>w. \<exists>u. lv w = Some (lnMTU l, u)"], rule triple_ex, rule triple_if,
            rule triple_post [OF mtu [OF True]]) (auto intro: triple_ret)
      show "triple (\<lambda>w. \<not> isl (Inr x) \<longrightarrow> (\<exists>u. lv w = Some (mtu, u))) (mapErr g' (LinkSetUp nl l)) ?Q" for x
        by (rule triple_pre [where P' = "\<lambda>w. \<exists>u. lv w = Some (mtu, u)"], rule triple_ex, rule up [OF True]) simp
    qed simp
  qed (simp add: triple_def)
  have create: "triple (\<lambda>_. True) (bindE (createLink nl h iface mtu fallback) (\<lambda>_. mapErr g (LinkByName nl iface))) ?found"
    for g :: "errno \<Rightarrow> goError"
    by (rule triple_bindE [OF triple_True]) (auto intro: triple_pre [OF triple_mapErr [OF look]])
  show ?thesis
    unfolding SyncLink_def
  proof (rule triple_bindE [where R = ?found])
    show "triple (\<lambda>_. True) (do { found \<leftarrow> LinkByName nl iface;
        case found of
          Inr link \<Rightarrow> ret (Inr link)
        | Inl LinkNotFound \<Rightarrow> bindE (createLink nl h iface mtu fallback) (\<lambda>_.
            mapErr (\<lambda>e. WrapErr (''expected link '' @ fmtQ iface @ '' after creation, but not found'') (errnoError e))
              (LinkByName nl iface))
        | Inl e \<Rightarrow> ret (Inl (errnoError e)) }) ?found"
      by (rule triple_bind [OF look])
        (auto intro!: triple_ret triple_pre [OF create] split: sum.split errno.split)
  qed (use finish in auto)
qed

text \<open>A clock that never goes back, and a sleep that takes at least its time.\<close>

definition clockLaws :: "('w \<Rightarrow> int) \<Rightarrow> 'w netlink \<Rightarrow> 'w host \<Rightarrow> string \<Rightarrow> bool" where
  "clockLaws clock nl h iface \<longleftrightarrow> (\<forall>t ms.
     triple (\<lambda>w. t \<le> clock w) (LinkByName nl iface) (\<lambda>_ w. t \<le> clock w)
     \<and> triple (\<lambda>w. t \<le> clock w) (nowMillis h) (\<lambda>now w. t \<le> now \<and> now \<le> clock w)
     \<and> triple (\<lambda>w. t \<le> clock w) (SleepMillis h ms) (\<lambda>_ w. t + ms \<le> clock w))"

lemma waitLoop_returns:
  assumes laws: "clockLaws clock nl h iface" and "deadline < t + 100 * int fuel"
  shows "triple (\<lambda>w. t \<le> clock w) (waitLoop (Suc fuel) nl h iface timeout deadline) (\<lambda>r _. r \<noteq> None)"
  using assms(2)
proof (induction fuel arbitrary: t)
  case (0 t)
  have look: "triple (\<lambda>w. t \<le> clock w) (LinkByName nl iface) (\<lambda>_ w. t \<le> clock w)"
    and now: "triple (\<lambda>w. t \<le> clock w) (nowMillis h) (\<lambda>now w. deadline < now)"
    using laws 0 by (auto simp: clockLaws_def intro: triple_post [where Q' = "\<lambda>now w. t \<le> now \<and> now \<le> clock w"])
  have late: "triple (\<lambda>_. deadline < now) (if deadline < now then ret (Some x) else m) (\<lambda>r _. r \<noteq> None)" for now x m
    by (simp add: triple_def)
  show ?case
    unfolding waitLoop.simps
    by (rule triple_bind [OF look], split sum.split, intro conjI allI impI triple_bind [OF now] late triple_ret) simp
next
  case (Suc fuel t)
  have look: "triple (\<lambda>w. t \<le> clock w) (LinkByName nl iface) (\<lambda>_ w. t \<le> clock w)"
    and now: "triple (\<lambda>w. t \<le> clock w) (nowMillis h) (\<lambda>_ w. t \<le> clock w)"
    and sleep: "triple (\<lambda>w. t \<le> clock w) (SleepMillis h 100) (\<lambda>_ w. t + 100 \<le> clock w)"
    using laws by (auto simp: clockLaws_def intro: triple_post [where Q' = "\<lambda>now w. t \<le> now \<and> now \<le> clock w"])
  have rest: "triple (\<lambda>w. t + 100 \<le> clock w) (waitLoop (Suc fuel) nl h iface timeout deadline) (\<lambda>r _. r \<noteq> None)"
    using Suc.prems by (intro Suc.IH) simp
  show ?case
    unfolding waitLoop.simps(2) [of "Suc fuel"]
    by (rule triple_bind [OF look], split sum.split, intro conjI allI impI triple_bind [OF now] triple_if triple_ret
        triple_bind [OF sleep] rest) simp_all
qed

lemma waitForLink_triple:
  assumes "clockLaws clock nl h iface" and "0 \<le> timeout"
  shows "triple (\<lambda>_. True) (waitForLink nl h iface timeout) (\<lambda>r _. r \<noteq> None)"
proof (rule triple_view [where f = clock])
  fix t
  have now: "triple (\<lambda>w. clock w = t \<and> True) (nowMillis h) (\<lambda>now w. now \<le> clock w)"
  proof (rule triple_post [OF triple_pre])
    show "triple (\<lambda>w. t \<le> clock w) (nowMillis h) (\<lambda>now w. t \<le> now \<and> now \<le> clock w)"
      using assms(1) by (simp add: clockLaws_def)
  qed simp_all
  have "timeout < 100 * (timeout div 100 + 1)" by presburger
  then have "now + timeout < now + 100 * int (nat (timeout div 100) + 1)" for now using assms(2) by simp
  from waitLoop_returns [OF assms(1) this]
  show "triple (\<lambda>w. clock w = t \<and> True) (waitForLink nl h iface timeout) (\<lambda>r _. r \<noteq> None)"
    unfolding waitForLink_def waitFuel_def by (intro triple_bind [OF now]) simp
qed

subsection \<open>Configuring the device\<close>

lemma syncWireguard_triple:
  assumes K: "keyLaws (wkeys h)" and laws: "deviceLaws view (ctl h) iface" and st: "wellState (wkeys h) st"
    and iter: "\<And>xs. mset (mapOrder h xs) = mset xs"
  shows "triple (\<lambda>_. True) (syncWireguard h st iface port) (\<lambda>r w. \<not> isl r \<longrightarrow> view w = stateView (wkeys h) st)"
proof (rule triple_view [where f = view])
  fix m
  let ?T = "stateView (wkeys h) st"
  have ops: "triple (\<lambda>w. view w = n) (wgNew (ctl h)) (\<lambda>_ w. view w = n)"
    "triple (\<lambda>w. view w = n) (wgClose (ctl h)) (\<lambda>_ w. view w = n)"
    "triple (\<lambda>w. view w = n) (wgDevice (ctl h) iface)
          (\<lambda>r w. (\<forall>d. r = Inr d \<longrightarrow> wellReported d \<and> reportedView d = n) \<and> view w = n)"
    "triple (\<lambda>w. view w = n) (wgConfigureDevice (ctl h) iface cfg)
       (\<lambda>r w. \<not> isl r \<longrightarrow> view w = foldl applyPeer (if cfReplacePeers cfg then Map.empty else n) (cfPeers cfg))" for n cfg
    using laws by (simp_all add: deviceLaws_def)
  have plan: "foldl applyPeer (reportedView d) cs = ?T"
    if wr: "wellReported d" and pc: "peerChanges (wkeys h) (mapOrder h) st d = Inr cs" for d cs
  proof -
    obtain cs' where cs': "peerChanges (wkeys h) (mapOrder h) st d = Inr cs'" "distinct (map pcPublicKey cs')"
      "\<forall>c \<in> set cs'. towards ?T (reportedView d) c"
      "pcPublicKey ` set cs' = {k. reportedView d k \<noteq> ?T k}"
      by (rule peerChanges_good [OF K st wr iter])
    then have "foldl applyPeer (reportedView d) cs' = ?T"
      by (intro foldl_applyPeer [OF stateView_disjoint [OF K st]]) auto
    then show ?thesis using pc cs'(1) by simp
  qed
  have config: "triple (\<lambda>w. view w = m) (CreateWireguardConfiguration h st iface port)
      (\<lambda>r w. (\<forall>cfg. r = Inr cfg \<longrightarrow> \<not> cfReplacePeers cfg \<and> foldl applyPeer m (cfPeers cfg) = ?T) \<and> view w = m)"
  proof -
    have "triple (\<lambda>w. view w = m) (createPeersConfiguration h st iface)
        (\<lambda>r w. (\<forall>cs. r = Inr cs \<longrightarrow> foldl applyPeer m cs = ?T) \<and> view w = m)"
      unfolding createPeersConfiguration_def
      by (rule triple_bindE [OF triple_mapErr [OF ops(3)], where R = "\<lambda>r w. (\<forall>d. r = Inr d \<longrightarrow> wellReported d \<and> reportedView d = m) \<and> view w = m"])
        (auto intro!: triple_ret simp: plan)
    then show ?thesis
      unfolding CreateWireguardConfiguration_def
      by (auto split: option.split intro!: triple_ret triple_bindE [where R = "\<lambda>r w. (\<forall>cs. r = Inr cs \<longrightarrow> foldl applyPeer m cs = ?T) \<and> view w = m"])
  qed
  have body: "triple (\<lambda>w. view w = m) (bindE (CreateWireguardConfiguration h st iface port) (\<lambda>cfg.
      mapErr ErrorText (wgConfigureDevice (ctl h) iface cfg))) (\<lambda>r w. \<not> isl r \<longrightarrow> view w = ?T)"
  proof (rule triple_bindE [OF config])
    fix cfg
    show "triple (\<lambda>w. (\<forall>c. Inr cfg = Inr c \<longrightarrow> \<not> cfReplacePeers c \<and> foldl applyPeer m (cfPeers c) = ?T) \<and> view w = m)
        (mapErr ErrorText (wgConfigureDevice (ctl h) iface cfg)) (\<lambda>r w. \<not> isl r \<longrightarrow> view w = ?T)"
      by (rule triple_conj_pre, rule triple_mapErr [OF ops(4)]) auto
  qed simp
  have closed: "triple (\<lambda>w. P \<longrightarrow> view w = ?T) (wgClose (ctl h)) (\<lambda>_ w. P \<longrightarrow> view w = ?T)" for P
    by (cases P) (simp_all add: ops(2) triple_True)
  have full: "triple (\<lambda>w. view w = m) (do {
      r \<leftarrow> bindE (CreateWireguardConfiguration h st iface port) (\<lambda>cfg. mapErr ErrorText (wgConfigureDevice (ctl h) iface cfg));
      c \<leftarrow> wgClose (ctl h);
      ret (case joinErr (case r of Inl e \<Rightarrow> Some e | Inr _ \<Rightarrow> None)
                        (case c of Inl e \<Rightarrow> Some (ErrorText e) | Inr _ \<Rightarrow> None) of
             None \<Rightarrow> Inr () | Some e \<Rightarrow> Inl e) }) (\<lambda>r w. \<not> isl r \<longrightarrow> view w = ?T)"
    by (rule triple_bind [OF body], rule triple_bind [OF closed])
      (auto intro!: triple_ret split: option.splits sum.splits)
  show "triple (\<lambda>w. view w = m \<and> True) (syncWireguard h st iface port) (\<lambda>r w. \<not> isl r \<longrightarrow> view w = ?T)"
    unfolding syncWireguard_def
    by (rule triple_bindE [where R = "\<lambda>_ w. view w = m"]) (auto intro: triple_mapErr [OF ops(1)] full)
qed

text \<open>What the last step of \<^verbatim>\<open>Sync\<close> establishes holds after it.\<close>

lemma Sync_triple:
  assumes "triple (\<lambda>_. True) (syncWireguard h st (wgIface wg) (wgListenPort wg)) (\<lambda>r w. \<not> isl r \<longrightarrow> P w)"
  shows "triple (\<lambda>_. True) (Sync h wg st) (\<lambda>r w. \<not> isl r \<longrightarrow> P w)"
  unfolding Sync_def Let_def
  by (rule triple_bindE [OF triple_True], simp,
      auto split: sum.split intro!: triple_ret triple_bindE [OF triple_True] assms)

section \<open>Properties\<close>

text \<open>A gateway host over the simulated namespace, whose map iteration reverses the list.\<close>

definition simWg :: "(netSim, 8 word) wgHost" where
  "simWg = \<lparr>netlinkOps = simNetlink, ctl = simWgctrl, hostOps = simHost, wkeys = byteKeys, mapOrder = rev\<rparr>"

definition simAgent :: wgAgent where
  "simAgent = \<lparr>wgIface = ''wg0'', wgListenPort = 51820, wgFallback = ''wireguard-go''\<rparr>"

definition exampleNet4 :: "32 word \<Rightarrow> IPNet" where
  "exampleNet4 w = IPNet (Addr4 w) 32 32"

text \<open>A device with a peer to remove, one that moves to another address, and one to keep.\<close>

definition simNet :: netSim where
  "simNet = \<lparr>nsLinks = [\<lparr>lnIndex = 7, lnName = ''wg0'', lnMTU = 1500\<rparr>], nsAddrs = [exampleNet4 0x0A080001], nsRoutes = [],
     nsRules = [], nsKey = 1,
     nsPeers = [(newPeer 120)\<lparr>dpAllowedIPs := [exampleNet4 0x0A090002]\<rparr>, (newPeer 97)\<lparr>dpAllowedIPs := [exampleNet4 0x0A090007]\<rparr>,
       (newPeer 98)\<lparr>dpAllowedIPs := [exampleNet4 0x0A090003]\<rparr>], nsClock = 0, nsDrop = False, nsIptables = []\<rparr>"

definition exampleState :: State where
  "exampleState = \<lparr>Server = \<lparr>wgMeta = newMeta ''gw'' ''vpn'', wgSpec = \<lparr>wg_PeerCIDR = ''10.9.0.0/29'', wg_LocalCIDRs = [],
        wg_Gluetun = emptyGluetun, wg_NodeSelector = Map.empty, wg_Tolerations = [],
        wg_AgentResources = emptyResources, wg_AllowedNamespaces = None\<rparr>, wgStatus = emptyWgStatus\<rparr>,
     ServerPrivateKey = simKey CHR ''s'',
     Peers = [examplePeer ''a'' (simKey CHR ''a'') 1 ''10.9.0.2'', examplePeer ''b'' (simKey CHR ''b'') 2 ''10.9.0.3'',
       examplePeer ''c'' (simKey CHR ''c'') 3 ''10.9.0.4'']\<rparr>"

lemma canonicalKey_simKey: "canonicalKey byteKeys (simKey c)"
  unfolding canonicalKey_def simKey_def byteKeys_def
  by (intro exI [of _ "word_of_nat (of_char c)"]) (simp add: unat_of_nat)

lemma simKey_simps: "simKey c = simKey d \<longleftrightarrow> c = d" "simKey c \<noteq> []"
  by (simp_all add: simKey_def)

lemma wellState_example: "wellState byteKeys exampleState"
proof -
  have "''10.9.0.2'' = string4 0x0A090002" "''10.9.0.3'' = string4 0x0A090003" "''10.9.0.4'' = string4 0x0A090004"
    by code_simp+
  then show ?thesis
    by (auto simp: wellState_def exampleState_def examplePeer_def canonicalKey_simKey simKey_simps)
qed

lemma simWg_laws:
  "keyLaws (wkeys simWg)" "deviceLaws (\<lambda>w. simView (nsPeers w)) (ctl simWg) iface" "mset (mapOrder simWg xs) = mset xs"
  by (simp_all add: simWg_def keyLaws_byteKeys deviceLaws_sim)

text \<open>
  C22. The peer changes the agent computes are exactly the difference between the device and the state: one
  configuration for each peer whose networks differ and none for any other, so no session of an
  unchanged peer is disturbed; and carrying them out, in whatever order Go iterates over the map that
  holds them, gives the device every peer of the state with its own address and nothing else.
\<close>

theorem peerChanges_exact:
  assumes "keyLaws K" and "wellState K st" and "wellReported d" and "\<And>xs. mset (iter xs) = mset xs"
  shows "\<exists>cs. peerChanges K iter st d = Inr cs \<and> distinct (map pcPublicKey cs)
    \<and> pcPublicKey ` set cs = {k. reportedView d k \<noteq> stateView K st k}
    \<and> foldl applyPeer (reportedView d) cs = stateView K st"
proof -
  obtain cs where cs: "peerChanges K iter st d = Inr cs" "distinct (map pcPublicKey cs)"
    "\<forall>c \<in> set cs. towards (stateView K st) (reportedView d) c"
    "pcPublicKey ` set cs = {k. reportedView d k \<noteq> stateView K st k}"
    by (rule peerChanges_good [OF assms])
  then have "foldl applyPeer (reportedView d) cs = stateView K st"
    by (intro foldl_applyPeer [OF stateView_disjoint [OF assms(1,2)]]) auto
  with cs show ?thesis by blast
qed

text \<open>Peer 120 is removed, 97 moves, 98 is kept and 99 is new.\<close>

theorem peerChanges_exact_witness:
  "\<exists>cs. peerChanges byteKeys rev exampleState \<lparr>dvName = ''wg0'', dvPrivateKey = 1, dvPeers = nsPeers simNet\<rparr> = Inr cs
    \<and> map pcPublicKey cs = [99, 97, 120] \<and> map pcRemove cs = [False, False, True]
    \<and> foldl applyPeer (simView (nsPeers simNet)) cs 98 = Some {exampleNet4 0x0A090003}"
proof -
  let ?d = "\<lparr>dvName = ''wg0'', dvPrivateKey = 1, dvPeers = nsPeers simNet\<rparr>"
  have "wellPeers (nsPeers simNet)" by code_simp
  then have "wellReported ?d" by (simp add: wellReported_def wellPeers_def)
  from peerChanges_exact [OF keyLaws_byteKeys wellState_example this, of rev] obtain cs
    where cs: "peerChanges byteKeys rev exampleState ?d = Inr cs"
      "foldl applyPeer (reportedView ?d) cs = stateView byteKeys exampleState" by auto
  have "map_sum (\<lambda>_. ()) (map (\<lambda>c. (pcPublicKey c, pcRemove c))) (peerChanges byteKeys rev exampleState ?d)
      = Inr [(99, False), (97, False), (120, True)]"
    by code_simp
  then have "map pcPublicKey cs = [99, 97, 120]" "map pcRemove cs = [False, False, True]"
    using cs(1) by auto
  moreover have "map_option (\<lambda>p. peerNet p) (map_of (map (\<lambda>p. (publicKey p, p)) (Peers exampleState)) (KeyString byteKeys 98))
      = Some (exampleNet4 0x0A090003)"
    by code_simp
  then have "stateView byteKeys exampleState 98 = Some {exampleNet4 0x0A090003}" by (auto simp: stateView_def)
  ultimately show ?thesis using cs simView_reported [of ?d] by auto
qed

text \<open>
  C21. When a synchronisation of the gateway returns without an error, its device has exactly the peers of the
  state, each with its own address, whatever it had before.
\<close>

theorem Sync_converges:
  assumes "keyLaws (wkeys h)" and "deviceLaws view (ctl h) (wgIface wg)" and "\<And>xs. mset (mapOrder h xs) = mset xs"
    and "wellState (wkeys h) st" and "run_state (Sync h wg st) w = (Inr (), w')"
  shows "view w' = stateView (wkeys h) st"
proof -
  have "triple (\<lambda>_. True) (syncWireguard h st (wgIface wg) (wgListenPort wg)) (\<lambda>r w. \<not> isl r \<longrightarrow> view w = stateView (wkeys h) st)"
    by (rule syncWireguard_triple [OF assms(1,2,4,3)])
  from triple_run [OF Sync_triple [OF this] TrueI assms(5)] show ?thesis by simp
qed

theorem Sync_converges_witness:
  "\<exists>w'. run_state (Sync simWg simAgent exampleState) simNet = (Inr (), w')
    \<and> simView (nsPeers w') = stateView byteKeys exampleState \<and> map dpPublicKey (nsPeers w') = [97, 99, 98]"
proof -
  let ?run = "run_state (Sync simWg simAgent exampleState) simNet"
  have 1: "(isl (fst ?run), map dpPublicKey (nsPeers (snd ?run))) = (False, [97, 99, 98])" by code_simp
  then have run: "?run = (Inr (), snd ?run)" by (cases ?run; cases "fst ?run") auto
  have "simView (nsPeers (snd ?run)) = stateView (wkeys simWg) exampleState"
    by (rule Sync_converges [OF simWg_laws(1) simWg_laws(2) simWg_laws(3) _ run])
      (simp add: simWg_def wellState_example)
  then show ?thesis using 1 run by (intro exI [of _ "snd ?run"]) (simp add: simWg_def)
qed


lemma addrLaws_sim: "addrLaws (\<lambda>w. set (nsAddrs w)) simNetlink iface"
proof -
  have "\<exists>v k. n = IPNet (Addr4 v) k 32 \<and> k \<le> 32" if "isNet4 n" for n
    using that by (rule isNet4_cases) blast
  then show ?thesis
    by (auto simp: addrLaws_def triple_def simNetlink_def listing4_def list_all_iff)
qed


text \<open>
  When \<^verbatim>\<open>SyncLink\<close> returns without an error the link exists, has the given MTU and is up, whether it was
  found, created by the kernel module or created by the userspace implementation.
\<close>

theorem SyncLink_correct:
  assumes "linkLaws lv nl iface" and "run_state (SyncLink nl h iface mtu fallback) w = (Inr (), w')"
  shows "lv w' = Some (mtu, True)"
  using triple_run [OF SyncLink_triple [OF assms(1)] TrueI assms(2)] by simp

definition simLink :: "netSim \<Rightarrow> (int \<times> bool) option" where
  "simLink w = map_option (\<lambda>l. (lnMTU l, True)) (List.find (\<lambda>l. lnName l = ''wg0'') (nsLinks w))"

lemma find_setMTU:
  "List.find (\<lambda>l. lnName l = n) (map (\<lambda>x. if lnName x = n then x\<lparr>lnMTU := m\<rparr> else x) ls)
     = map_option (\<lambda>x. x\<lparr>lnMTU := m\<rparr>) (List.find (\<lambda>l. lnName l = n) ls)"
  by (induction ls) auto

lemma find_lnName: "List.find (\<lambda>l. lnName l = n) ls = Some l \<Longrightarrow> lnName l = n"
  by (auto simp: find_Some_iff)

lemma linkLaws_sim: "linkLaws simLink simNetlink ''wg0''"
  unfolding linkLaws_def triple_def simNetlink_def simLink_def
  by (auto simp: find_setMTU option.map_comp comp_def split: option.splits dest!: find_lnName)

theorem SyncLink_correct_witness:
  "simLink (snd (run_state (SyncLink simNetlink simHost ''wg0'' MTU ''wireguard-go'') (simNet\<lparr>nsLinks := []\<rparr>))) = Some (1420, True)"
proof -
  let ?run = "run_state (SyncLink simNetlink simHost ''wg0'' MTU ''wireguard-go'') (simNet\<lparr>nsLinks := []\<rparr>)"
  have "\<not> isl (fst ?run)" by code_simp
  then have "?run = (Inr (), snd ?run)" by (cases ?run; cases "fst ?run") auto
  from SyncLink_correct [OF linkLaws_sim this] show ?thesis by (simp add: MTU_def)
qed

text \<open>
  C25. The wait for a link that the userspace implementation creates always returns: for every timeout the
  loop ends within \<^verbatim>\<open>timeout/100ms + 2\<close> turns, because each turn sleeps for 100 ms and the clock does not
  go back. In particular the creation of a link never runs out of turns.
\<close>

theorem waitForLink_returns:
  assumes "clockLaws clock nl h iface" and "0 \<le> timeout"
  shows "\<exists>r. fst (run_state (waitForLink nl h iface timeout) w) = Some r"
  using triple_run [OF waitForLink_triple [OF assms] TrueI] by (metis not_None_eq prod.collapse)

lemma clockLaws_sim: "clockLaws nsClock simNetlink simHost iface"
  by (auto simp: clockLaws_def triple_def simNetlink_def simHost_def)

theorem waitForLink_returns_witness:
  "\<exists>e. fst (run_state (waitForLink simNetlink simHost ''wg1'' 300) simNet) = Some (Inl e)
    \<and> nsClock (snd (run_state (waitForLink simNetlink simHost ''wg1'' 300) simNet)) = 400"
proof -
  let ?run = "run_state (waitForLink simNetlink simHost ''wg1'' 300) simNet"
  obtain r where r: "fst ?run = Some r" using waitForLink_returns [OF clockLaws_sim, of 300 "''wg1''" simNet] by auto
  have "(map_option isl (fst ?run), nsClock (snd ?run)) = (Some True, 400)" by code_simp
  then show ?thesis using r by (cases r) auto
qed



end
