(* ===== verification/Datapath.thy ===== *)
theory Datapath
  imports WgSync
begin

text \<open>
  The gateway pod's fail-closed datapath, \<open>src/internal/datapath\<close>: the policy routing and the iptables
  rules that the agent asserts, and the probe that checks the path a peer's packet would take. The
  iptables binary and netlink are parameters.
\<close>

section \<open>The iptables rules\<close>

record rule =
  rTable :: string
  rChain :: string
  rSpec :: "string list"

definition rules :: "Prefix \<Rightarrow> rule list" where
  "rules peerCIDR = (let cidr = PrefixString peerCIDR in
     [\<lparr>rTable = ''filter'', rChain = ''FORWARD'',
        rSpec = [''-i'', WgInterface, ''-o'', EgressInterface, ''-s'', cidr, ''-j'', ''ACCEPT'']\<rparr>,
      \<lparr>rTable = ''filter'', rChain = ''FORWARD'',
        rSpec = [''-i'', EgressInterface, ''-o'', WgInterface, ''-m'', ''conntrack'', ''--ctstate'',
                 ''ESTABLISHED,RELATED'', ''-j'', ''ACCEPT'']\<rparr>,
      \<lparr>rTable = ''mangle'', rChain = ''FORWARD'',
        rSpec = [''-o'', EgressInterface, ''-p'', ''tcp'', ''--tcp-flags'', ''SYN,RST'', ''SYN'', ''-j'', ''TCPMSS'',
                 ''--clamp-mss-to-pmtu'']\<rparr>,
      \<lparr>rTable = ''nat'', rChain = ''POSTROUTING'',
        rSpec = [''-s'', cidr, ''-o'', EgressInterface, ''-j'', ''MASQUERADE'']\<rparr>])"

definition iptablesArgs :: "rule \<Rightarrow> string \<Rightarrow> string list" where
  "iptablesArgs r op = [''-w'', ''5'', ''-t'', rTable r, op, rChain r] @ rSpec r"

definition forwardDrop :: "string list" where
  "forwardDrop = [''-w'', ''5'', ''-P'', ''FORWARD'', ''DROP'']"

text \<open>
  \<^verbatim>\<open>Datapath\<close>: how it runs iptables, and the result of the last assertion. The two mutexes serialise
  \<^verbatim>\<open>Ensure\<close> and guard the result, so one assertion is one step of the model.
\<close>

record 'w Datapath =
  dpRun :: "string list \<Rightarrow> ('w, goError, unit) io"
  dpErr :: "goError option"

text \<open>\<^verbatim>\<open>New\<close>, with \<^verbatim>\<open>runIptables\<close> over the process runner of the host: its error carries the trimmed output.\<close>

definition runIptables :: "(string list \<Rightarrow> ('w, goError \<times> string, unit) io) \<Rightarrow> string list \<Rightarrow> ('w, goError, unit) io" where
  "runIptables CombinedOutput args = mapErr (\<lambda>(err, out). NoteErr err (TrimSpace out)) (CombinedOutput args)"

definition New :: "(string list \<Rightarrow> ('w, goError \<times> string, unit) io) \<Rightarrow> 'w Datapath" where
  "New CombinedOutput = \<lparr>dpRun = runIptables CombinedOutput, dpErr = Some (ErrorText ''datapath not asserted yet'')\<rparr>"

definition recordErr :: "goError option \<Rightarrow> 'w Datapath \<Rightarrow> 'w Datapath" where
  "recordErr err d = d\<lparr>dpErr := err\<rparr>"

definition Err :: "'w Datapath \<Rightarrow> goError option" where
  "Err d = dpErr d"

fun ensureRules :: "(string list \<Rightarrow> ('w, goError, unit) io) \<Rightarrow> rule list \<Rightarrow> ('w, goError, unit) io" where
  "ensureRules run [] = ret (Inr ())"
| "ensureRules run (r # rs) = do {
     c \<leftarrow> run (iptablesArgs r ''-C'');
     case c of
       Inr _ \<Rightarrow> ensureRules run rs
     | Inl _ \<Rightarrow>
         bindE (mapErr (WrapErr (''iptables -t '' @ rTable r @ '' -A '' @ rChain r @ '' '' @ Join '' '' (rSpec r)))
                 (run (iptablesArgs r ''-A'')))
           (\<lambda>_. ensureRules run rs)
   }"

definition ensureIptables :: "'w Datapath \<Rightarrow> Prefix \<Rightarrow> ('w, goError, unit) io" where
  "ensureIptables d p =
     bindE (mapErr (WrapErr ''iptables -P FORWARD DROP'') (dpRun d forwardDrop))
       (\<lambda>_. ensureRules (dpRun d) (rules p))"

section \<open>Policy routing\<close>

definition desiredRules :: "Prefix \<Rightarrow> Rule list" where
  "desiredRules p =
     [\<lparr>ruPriority = PeerRulePref, ruTable = PeerTable, ruDst = Some (ipNet p), ruIifName = [], ruOther = []\<rparr>,
      \<lparr>ruPriority = BlackholePref, ruTable = BlackholeTable, ruDst = None, ruIifName = WgInterface, ruOther = []\<rparr>]"

definition dstString :: "IPNet option \<Rightarrow> string" where
  "dstString n = (case n of None \<Rightarrow> [] | Some n \<Rightarrow> IPNetString n)"

definition ruleMatches :: "Rule \<Rightarrow> Rule \<Rightarrow> bool" where
  "ruleMatches have want \<longleftrightarrow> ruPriority have = ruPriority want \<and> ruTable have = ruTable want
     \<and> dstString (ruDst have) = dstString (ruDst want) \<and> ruIifName have = ruIifName want"

fun sweepRules :: "'w netlink \<Rightarrow> Rule \<Rightarrow> bool \<Rightarrow> Rule list \<Rightarrow> ('w, goError, bool) io" where
  "sweepRules nl want found [] = ret (Inr found)"
| "sweepRules nl want found (r # rs) =
     (if ruPriority r \<noteq> ruPriority want then sweepRules nl want found rs
      else if ruleMatches r want then sweepRules nl want True rs
      else bindE (mapErr (\<lambda>e. WrapErr (''delete ip rule pref '' @ fmtInt (ruPriority want)) (errnoError e)) (RuleDel nl r))
             (\<lambda>_. sweepRules nl want found rs))"

definition ensureRule :: "'w netlink \<Rightarrow> Rule \<Rightarrow> ('w, goError, unit) io" where
  "ensureRule nl want =
     bindE (mapErr (\<lambda>e. WrapErr ''list ip rules'' (errnoError e)) (RuleList nl)) (\<lambda>have.
     bindE (sweepRules nl want False have) (\<lambda>found.
       if found then ret (Inr ())
       else mapErr (\<lambda>e. WrapErr (''add ip rule pref '' @ fmtInt (ruPriority want)) (errnoError e)) (RuleAdd nl want)))"

definition blackholeRoute :: Route where
  "blackholeRoute = noRoute\<lparr>rtDst := Some (IPNet (Addr4 0) 0 32), rtTable := BlackholeTable, rtType := RTN_BLACKHOLE\<rparr>"

definition peerRoute :: "Link \<Rightarrow> Prefix \<Rightarrow> Route" where
  "peerRoute wg p = noRoute\<lparr>rtLinkIndex := lnIndex wg, rtDst := Some (ipNet p), rtTable := PeerTable, rtScope := SCOPE_LINK\<rparr>"

fun ensureRuleList :: "'w netlink \<Rightarrow> Rule list \<Rightarrow> ('w, goError, unit) io" where
  "ensureRuleList nl [] = ret (Inr ())"
| "ensureRuleList nl (want # wants) = bindE (ensureRule nl want) (\<lambda>_. ensureRuleList nl wants)"

definition ensureRouting :: "'w netlink \<Rightarrow> Prefix \<Rightarrow> ('w, goError, unit) io" where
  "ensureRouting nl p =
     bindE (mapErr (\<lambda>e. WrapErr (''look up '' @ WgInterface) (errnoError e)) (LinkByName nl WgInterface)) (\<lambda>wg.
     bindE (mapErr (\<lambda>e. WrapErr (''replace route in table '' @ fmtInt PeerTable) (errnoError e))
             (RouteReplace nl (peerRoute wg p))) (\<lambda>_.
     bindE (mapErr (\<lambda>e. WrapErr (''replace route in table '' @ fmtInt BlackholeTable) (errnoError e))
             (RouteReplace nl blackholeRoute)) (\<lambda>_.
       ensureRuleList nl (desiredRules p))))"

section \<open>Asserting both\<close>

definition errOf :: "goError + unit \<Rightarrow> goError option" where
  "errOf r = (case r of Inl e \<Rightarrow> Some e | Inr _ \<Rightarrow> None)"

text \<open>\<^verbatim>\<open>Ensure\<close> returns its error and the datapath with the error recorded.\<close>

definition Ensure :: "'w netlink \<Rightarrow> 'w Datapath \<Rightarrow> string \<Rightarrow> ('w, goError option \<times> 'w Datapath) state" where
  "Ensure nl d peerCIDR =
     (case ParsePrefix peerCIDR of
        Inl e \<Rightarrow> (let err = Some (WrapErr (''parse peerCIDR '' @ fmtQ peerCIDR) (ParseError e))
                   in ret (err, recordErr err d))
      | Inr p0 \<Rightarrow> let p = Masked p0 in do {
          routing \<leftarrow> ensureRouting nl p;
          iptables \<leftarrow> ensureIptables d p;
          let err = joinErr (errOf routing) (errOf iptables);
          ret (err, recordErr err d)
        })"

section \<open>The path of a peer's packet\<close>

definition peerProbe :: Addr where
  "peerProbe = (case ParseAddr PeerProbeAddress of Inl _ \<Rightarrow> zeroAddr | Inr a \<Rightarrow> a)"

definition peerProbeSource :: "Prefix \<Rightarrow> goError + Addr" where
  "peerProbeSource p = (let src = Next (Next (pAddr (Masked p))) in
     if \<not> Contains p src
     then Inl (ErrorText (''peerCIDR '' @ PrefixString p @ '' has no second host for the peer-path probe''))
     else Inr src)"

text \<open>The error of the lookup: the kernel's own, or a text of the program.\<close>

datatype pathError = KernelErr errno | PathText goError

definition lookupPeerPath :: "'w netlink \<Rightarrow> Addr \<Rightarrow> Addr \<Rightarrow> ('w, pathError, string) io" where
  "lookupPeerPath nl probe src =
     bindE (mapErr KernelErr (RouteGetFrom nl probe WgInterface src)) (\<lambda>routes.
       case routes of
         [] \<Rightarrow> ret (Inl (PathText (ErrorText ''no route returned'')))
       | r # _ \<Rightarrow>
           bindE (mapErr (\<lambda>e. PathText (WrapErr (''look up link '' @ fmtInt (rtLinkIndex r)) (errnoError e)))
                   (LinkByIndex nl (rtLinkIndex r)))
             (\<lambda>link. ret (Inr (lnName link))))"

definition pathErrorText :: "pathError \<Rightarrow> goError" where
  "pathErrorText e = (case e of KernelErr k \<Rightarrow> errnoError k | PathText g \<Rightarrow> g)"

definition judgePeerPath :: "Addr \<Rightarrow> Addr \<Rightarrow> pathError + string \<Rightarrow> goError option" where
  "judgePeerPath probe src answer =
     (let path = ''peer path: '' @ AddrString probe @ '' from '' @ AddrString src @ '' arriving on '' @ WgInterface in
      case answer of
        Inl (KernelErr EINVAL) \<Rightarrow> Some (ErrorText (path @ '' is blackholed (no tunnel route)''))
      | Inl e \<Rightarrow> Some (WrapErr (''peer path: look up '' @ AddrString probe @ '' from '' @ AddrString src
                  @ '' arriving on '' @ WgInterface) (pathErrorText e))
      | Inr dev \<Rightarrow> if dev \<noteq> EgressInterface
                    then Some (ErrorText (path @ '' routes via '' @ dev @ '', not '' @ EgressInterface))
                    else None)"

definition CheckPeerPath :: "'w netlink \<Rightarrow> string \<Rightarrow> ('w, goError option) state" where
  "CheckPeerPath nl peerCIDR =
     (case ParsePrefix peerCIDR of
        Inl e \<Rightarrow> ret (Some (WrapErr (''parse peerCIDR '' @ fmtQ peerCIDR) (ParseError e)))
      | Inr p \<Rightarrow>
        (case peerProbeSource p of
           Inl e \<Rightarrow> ret (Some e)
         | Inr src \<Rightarrow> do {
             answer \<leftarrow> lookupPeerPath nl peerProbe src;
             ret (judgePeerPath peerProbe src answer)
           }))"

section \<open>What policy routing does\<close>

text \<open>
  The kernel's lookup, after \<^verbatim>\<open>ip-rule(8)\<close>: the rules in the order of their priorities, each with the
  packets it selects and the table it looks them up in; the first table with a route to the
  destination decides, by its longest matching prefix. \<open>sel\<close> stands for the selectors the program
  does not use.
\<close>

datatype action = Dev int | Blackhole

record packet =
  pkIif :: string
  pkDst :: "32 word"

definition inNet :: "IPNet \<Rightarrow> 32 word \<Rightarrow> bool" where
  "inNet n d \<longleftrightarrow> isNet4 n \<and> Contains (Prefix (netIP n) (int (netOnes n))) (Addr4 d)"

definition selects :: "(string \<Rightarrow> packet \<Rightarrow> bool) \<Rightarrow> Rule \<Rightarrow> packet \<Rightarrow> bool" where
  "selects sel r pk \<longleftrightarrow> (ruIifName r = [] \<or> ruIifName r = pkIif pk)
     \<and> (case ruDst r of None \<Rightarrow> True | Some n \<Rightarrow> inNet n (pkDst pk)) \<and> (ruOther r = [] \<or> sel (ruOther r) pk)"

type_synonym tables = "int \<times> IPNet \<rightharpoonup> action"

definition tableRoute :: "tables \<Rightarrow> int \<Rightarrow> 32 word \<Rightarrow> action \<Rightarrow> bool" where
  "tableRoute T t d a \<longleftrightarrow> (\<exists>n. T (t, n) = Some a \<and> inNet n d
     \<and> (\<forall>m b. T (t, m) = Some b \<longrightarrow> inNet m d \<longrightarrow> netOnes m \<le> netOnes n))"

definition decidedBy :: "(string \<Rightarrow> packet \<Rightarrow> bool) \<Rightarrow> Rule set \<Rightarrow> tables \<Rightarrow> packet \<Rightarrow> Rule \<Rightarrow> action \<Rightarrow> bool" where
  "decidedBy sel R T pk r a \<longleftrightarrow> r \<in> R \<and> selects sel r pk \<and> tableRoute T (ruTable r) (pkDst pk) a
     \<and> (\<forall>s \<in> R. ruPriority s < ruPriority r \<longrightarrow> selects sel s pk \<longrightarrow> (\<forall>b. \<not> tableRoute T (ruTable s) (pkDst pk) b))"

definition actionOf :: "Route \<Rightarrow> action" where
  "actionOf r = (if rtType r = RTN_BLACKHOLE then Blackhole else Dev (rtLinkIndex r))"

text \<open>
  The documented effect of the netlink calls on the rules and the tables; \<open>wgIndex\<close> is the index of
  the WireGuard link.
\<close>

definition routingLaws :: "('w \<Rightarrow> Rule set) \<Rightarrow> ('w \<Rightarrow> tables) \<Rightarrow> int \<Rightarrow> 'w netlink \<Rightarrow> bool" where
  "routingLaws rv tv wgIndex nl \<longleftrightarrow> (\<forall>R T.
     triple (\<lambda>w. rv w = R \<and> tv w = T) (LinkByName nl WgInterface)
       (\<lambda>x w. (\<forall>l. x = Inr l \<longrightarrow> lnIndex l = wgIndex) \<and> rv w = R \<and> tv w = T)
     \<and> (\<forall>r n. rtDst r = Some n \<longrightarrow> triple (\<lambda>w. rv w = R \<and> tv w = T) (RouteReplace nl r)
          (\<lambda>x w. \<not> isl x \<longrightarrow> rv w = R \<and> tv w = T((rtTable r, n) \<mapsto> actionOf r)))
     \<and> triple (\<lambda>w. rv w = R \<and> tv w = T) (RuleList nl) (\<lambda>x w. (\<forall>rs. x = Inr rs \<longrightarrow> set rs = R) \<and> rv w = R \<and> tv w = T)
     \<and> (\<forall>r. triple (\<lambda>w. rv w = R \<and> tv w = T) (RuleDel nl r) (\<lambda>x w. \<not> isl x \<longrightarrow> rv w = R - {r} \<and> tv w = T))
     \<and> (\<forall>r. triple (\<lambda>w. rv w = R \<and> tv w = T) (RuleAdd nl r) (\<lambda>x w. \<not> isl x \<longrightarrow> rv w = insert r R \<and> tv w = T)))"

lemma routing_ops:
  assumes "routingLaws rv tv i nl"
  shows "triple (\<lambda>w. rv w = R \<and> tv w = T) (LinkByName nl WgInterface)
       (\<lambda>x w. (\<forall>l. x = Inr l \<longrightarrow> lnIndex l = i) \<and> rv w = R \<and> tv w = T)"
    and "rtDst r = Some n \<Longrightarrow> triple (\<lambda>w. rv w = R \<and> tv w = T) (RouteReplace nl r)
       (\<lambda>x w. \<not> isl x \<longrightarrow> rv w = R \<and> tv w = T((rtTable r, n) \<mapsto> actionOf r))"
    and "triple (\<lambda>w. rv w = R \<and> tv w = T) (RuleList nl) (\<lambda>x w. (\<forall>rs. x = Inr rs \<longrightarrow> set rs = R) \<and> rv w = R \<and> tv w = T)"
    and "triple (\<lambda>w. rv w = R \<and> tv w = T) (RuleDel nl u) (\<lambda>x w. \<not> isl x \<longrightarrow> rv w = R - {u} \<and> tv w = T)"
    and "triple (\<lambda>w. rv w = R \<and> tv w = T) (RuleAdd nl u) (\<lambda>x w. \<not> isl x \<longrightarrow> rv w = insert u R \<and> tv w = T)"
  using assms by (simp_all add: routingLaws_def)

text \<open>The rules after one of them was asserted.\<close>

definition ruleSwept :: "Rule \<Rightarrow> Rule set \<Rightarrow> Rule set" where
  "ruleSwept want R = {r \<in> R. ruPriority r \<noteq> ruPriority want \<or> ruleMatches r want}
     \<union> (if \<exists>r \<in> R. ruleMatches r want then {} else {want})"

lemma sweepRules_triple:
  assumes "routingLaws rv tv i nl"
  shows "triple (\<lambda>w. rv w = R \<and> tv w = T) (sweepRules nl want found rs) (\<lambda>x w. \<forall>b. x = Inr b \<longrightarrow>
    b = (found \<or> (\<exists>r \<in> set rs. ruleMatches r want))
    \<and> rv w = R - {r \<in> set rs. ruPriority r = ruPriority want \<and> \<not> ruleMatches r want} \<and> tv w = T)"
proof (induction rs arbitrary: found R)
  case Nil
  then show ?case by (auto intro: triple_ret)
next
  case (Cons r rs)
  have del: "triple (\<lambda>w. rv w = R \<and> tv w = T) (RuleDel nl r) (\<lambda>x w. \<not> isl x \<longrightarrow> rv w = R - {r} \<and> tv w = T)"
    by (rule routing_ops(4) [OF assms])
  consider "ruPriority r \<noteq> ruPriority want" | "ruleMatches r want" | "ruPriority r = ruPriority want" "\<not> ruleMatches r want"
    by blast
  then show ?case
  proof cases
    case 1
    then have "\<not> ruleMatches r want" by (simp add: ruleMatches_def)
    with 1 show ?thesis using Cons.IH [of R found] by (auto elim!: triple_post)
  next
    case 2
    then have "ruPriority r = ruPriority want" by (simp add: ruleMatches_def)
    with 2 show ?thesis using Cons.IH [of R True] by (auto elim!: triple_post)
  next
    case 3
    have "triple (\<lambda>w. rv w = R \<and> tv w = T) (bindE (mapErr g (RuleDel nl r)) (\<lambda>_. sweepRules nl want found rs)) (\<lambda>x w. \<forall>b. x = Inr b \<longrightarrow>
      b = (found \<or> (\<exists>r \<in> set (r # rs). ruleMatches r want))
      \<and> rv w = R - {s \<in> set (r # rs). ruPriority s = ruPriority want \<and> \<not> ruleMatches s want} \<and> tv w = T)" for g
    proof (rule triple_bindE [OF triple_mapErr [OF del], where R = "\<lambda>x w. \<not> isl x \<longrightarrow> rv w = R - {r} \<and> tv w = T"])
      fix u :: unit
      show "triple (\<lambda>w. \<not> isl (Inr u) \<longrightarrow> rv w = R - {r} \<and> tv w = T) (sweepRules nl want found rs) (\<lambda>x w. \<forall>b. x = Inr b \<longrightarrow>
        b = (found \<or> (\<exists>r \<in> set (r # rs). ruleMatches r want))
        \<and> rv w = R - {s \<in> set (r # rs). ruPriority s = ruPriority want \<and> \<not> ruleMatches s want} \<and> tv w = T)"
        by (rule triple_post [OF triple_pre [OF Cons.IH [of "R - {r}" found]]]) (use 3 in auto)
    qed auto
    then show ?thesis using 3 by simp
  qed
qed

lemma ensureRule_triple:
  assumes laws: "routingLaws rv tv i nl"
  shows "triple (\<lambda>w. rv w = R \<and> tv w = T) (ensureRule nl want) (\<lambda>x w. \<not> isl x \<longrightarrow> rv w = ruleSwept want R \<and> tv w = T)"
proof -
  have list: "triple (\<lambda>w. rv w = R \<and> tv w = T) (mapErr g (RuleList nl)) (\<lambda>x w. (\<forall>rs. x = Inr rs \<longrightarrow> set rs = R) \<and> rv w = R \<and> tv w = T)"
    for g :: "errno \<Rightarrow> goError"
    by (rule triple_mapErr_result [OF routing_ops(3) [OF laws]])
  have add: "triple (\<lambda>w. rv w = R' \<and> tv w = T) (mapErr g (RuleAdd nl want)) (\<lambda>x w. \<not> isl x \<longrightarrow> rv w = insert want R' \<and> tv w = T)"
    for R' and g :: "errno \<Rightarrow> goError"
    by (rule triple_mapErr_ok [OF routing_ops(5) [OF laws]])
  let ?kept = "{r \<in> R. ruPriority r \<noteq> ruPriority want \<or> ruleMatches r want}"
  let ?found = "\<exists>r \<in> R. ruleMatches r want"
  show ?thesis
    unfolding ensureRule_def
  proof (rule triple_bindE [OF list], simp, rule triple_conj_pre)
    fix rs assume "\<forall>xs. Inr rs = Inr xs \<longrightarrow> set xs = R"
    then have rs: "set rs = R" by simp
    have swept: "triple (\<lambda>w. rv w = R \<and> tv w = T) (sweepRules nl want False rs) (\<lambda>x w. \<forall>b. x = Inr b \<longrightarrow>
        b = ?found \<and> rv w = ?kept \<and> tv w = T)"
      by (rule triple_post [OF sweepRules_triple [OF laws]]) (auto simp: rs)
    show "triple (\<lambda>w. rv w = R \<and> tv w = T) (bindE (sweepRules nl want False rs) (\<lambda>found. if found then ret (Inr ())
        else mapErr (\<lambda>e. WrapErr (''add ip rule pref '' @ fmtInt (ruPriority want)) (errnoError e)) (RuleAdd nl want)))
        (\<lambda>x w. \<not> isl x \<longrightarrow> rv w = ruleSwept want R \<and> tv w = T)"
    proof (rule triple_bindE [OF swept])
      fix b
      show "triple (\<lambda>w. \<forall>c. Inr b = Inr c \<longrightarrow> c = ?found \<and> rv w = ?kept \<and> tv w = T) (if b then ret (Inr ())
          else mapErr (\<lambda>e. WrapErr (''add ip rule pref '' @ fmtInt (ruPriority want)) (errnoError e)) (RuleAdd nl want))
          (\<lambda>x w. \<not> isl x \<longrightarrow> rv w = ruleSwept want R \<and> tv w = T)"
      proof (cases "b = ?found")
        case True
        show ?thesis
        proof (rule triple_if)
          assume "\<not> b"
          then have "ruleSwept want R = insert want ?kept" using True by (simp add: ruleSwept_def)
          then show "triple (\<lambda>w. \<forall>c. Inr b = Inr c \<longrightarrow> c = ?found \<and> rv w = ?kept \<and> tv w = T)
            (mapErr (\<lambda>e. WrapErr (''add ip rule pref '' @ fmtInt (ruPriority want)) (errnoError e)) (RuleAdd nl want))
            (\<lambda>x w. \<not> isl x \<longrightarrow> rv w = ruleSwept want R \<and> tv w = T)"
            by (intro triple_post [OF triple_pre [OF add [of ?kept]]]) auto
        qed (use True in \<open>auto intro!: triple_ret simp: ruleSwept_def\<close>)
      next
        case False
        then show ?thesis by (intro tripleI) blast
      qed
    qed simp
  qed
qed

lemma ensureRouting_triple:
  assumes laws: "routingLaws rv tv i nl"
  shows "triple (\<lambda>w. rv w = R \<and> tv w = T) (ensureRouting nl p) (\<lambda>x w. \<not> isl x \<longrightarrow>
    rv w = fold ruleSwept (desiredRules p) R
    \<and> tv w = T((PeerTable, ipNet p) \<mapsto> Dev i, (BlackholeTable, IPNet (Addr4 0) 0 32) \<mapsto> Blackhole))"
proof -
  have rules: "triple (\<lambda>w. rv w = R' \<and> tv w = T') (ensureRuleList nl wants) (\<lambda>x w. \<not> isl x \<longrightarrow> rv w = fold ruleSwept wants R' \<and> tv w = T')"
    for R' T' wants
  proof (induction wants arbitrary: R')
    case (Cons want wants)
    show ?case
      unfolding ensureRuleList.simps
      by (rule triple_bindE [OF ensureRule_triple [OF laws]], simp) (simp add: Cons.IH [of "ruleSwept want R'", simplified])
  qed (simp add: triple_ret)
  have link: "triple (\<lambda>w. rv w = R \<and> tv w = T) (mapErr g (LinkByName nl WgInterface))
      (\<lambda>x w. (\<forall>l. x = Inr l \<longrightarrow> lnIndex l = i) \<and> rv w = R \<and> tv w = T)" for g :: "errno \<Rightarrow> goError"
    by (rule triple_mapErr_result [OF routing_ops(1) [OF laws]])
  have route: "triple (\<lambda>w. rv w = R \<and> tv w = T') (mapErr g (RouteReplace nl r))
      (\<lambda>x w. \<not> isl x \<longrightarrow> rv w = R \<and> tv w = T'((rtTable r, n) \<mapsto> actionOf r))" if "rtDst r = Some n" for T' r n and g :: "errno \<Rightarrow> goError"
    by (rule triple_mapErr_ok [OF routing_ops(2) [OF laws that]])
  have peer: "rtDst (peerRoute l p) = Some (ipNet p)" "rtTable (peerRoute l p) = PeerTable" "actionOf (peerRoute l p) = Dev (lnIndex l)"
    and hole: "rtDst blackholeRoute = Some (IPNet (Addr4 0) 0 32)" "rtTable blackholeRoute = BlackholeTable" "actionOf blackholeRoute = Blackhole" for l
    by (simp_all add: peerRoute_def blackholeRoute_def noRoute_def actionOf_def RTN_BLACKHOLE_def)
  show ?thesis
    unfolding ensureRouting_def
    apply (rule triple_bindE [OF link], simp)
    apply (rule triple_conj_pre)
    apply (rule triple_bindE [OF route [OF peer(1)]], simp, simp add: peer)
    apply (rule triple_bindE [OF route [OF hole(1)]], simp, simp add: hole)
    apply (rule rules)
    done
qed

subsection \<open>The asserted rules fail closed\<close>

text \<open>
  At the priorities of the agent's own rules, the rules present before carry no further selector, and
  their destinations are IPv4 networks as the kernel reports them.
\<close>

definition plainAt :: "int \<Rightarrow> Rule set \<Rightarrow> bool" where
  "plainAt prio R \<longleftrightarrow> (\<forall>r \<in> R. ruPriority r = prio \<longrightarrow> ruOther r = [] \<and> (\<forall>n. ruDst r = Some n \<longrightarrow> isNet4 n))"

lemma ruleSwept_own:
  "r \<in> ruleSwept want R \<Longrightarrow> ruPriority r = ruPriority want \<Longrightarrow> ruleMatches r want \<and> (r \<in> R \<or> r = want)"
  by (auto simp: ruleSwept_def ruleMatches_def split: if_splits)

lemma ruleSwept_other:
  "ruPriority r \<noteq> ruPriority want \<Longrightarrow> r \<in> ruleSwept want R \<longleftrightarrow> r \<in> R"
  by (auto simp: ruleSwept_def)

lemma ruleSwept_ex: "\<exists>r \<in> ruleSwept want R. ruleMatches r want"
  by (auto simp: ruleSwept_def ruleMatches_def)

lemma ruleMatches_plain:
  assumes "ruleMatches r want" and "ruOther r = []" and "\<forall>n. ruDst r = Some n \<longrightarrow> isNet4 n"
    and "ruOther want = []" and "\<forall>n. ruDst want = Some n \<longrightarrow> isNet4 n"
  shows "r = want"
proof -
  have "ruDst r = ruDst want"
    using assms IPNetString_inject IPNetString_nonempty [symmetric]
    by (cases "ruDst r"; cases "ruDst want") (auto simp: ruleMatches_def dstString_def)
  then show ?thesis using assms by (simp add: ruleMatches_def)
qed

lemma sweep_plain:
  assumes "plainAt (ruPriority want) R" and "ruOther want = []" and "\<forall>n. ruDst want = Some n \<longrightarrow> isNet4 n"
  shows "{r \<in> ruleSwept want R. ruPriority r = ruPriority want} = {want}"
proof -
  have "r = want" if "r \<in> ruleSwept want R" "ruPriority r = ruPriority want" for r
  proof -
    have "ruleMatches r want" "r \<in> R \<or> r = want" using ruleSwept_own [OF that] by auto
    then show ?thesis
      using assms that(2) by (intro ruleMatches_plain) (auto simp: plainAt_def)
  qed
  moreover obtain r where "r \<in> ruleSwept want R" "ruleMatches r want" using ruleSwept_ex by blast
  ultimately show ?thesis by (auto simp: ruleMatches_def)
qed

lemma isNet4_ipNet: "n \<le> 32 \<Longrightarrow> isNet4 (ipNet (Prefix (Addr4 v) (int n)))"
  by (simp add: isNet4_def ipNet_def)

lemma desired_plain:
  assumes "plainAt PeerRulePref R" and "plainAt BlackholePref R" and "p = Prefix (Addr4 v) (int n)" "n \<le> 32"
  defines "R' \<equiv> fold ruleSwept (desiredRules p) R"
  shows "{r \<in> R'. ruPriority r = PeerRulePref} = {desiredRules p ! 0}"
    and "{r \<in> R'. ruPriority r = BlackholePref} = {desiredRules p ! 1}"
proof -
  let ?a = "desiredRules p ! 0" and ?b = "desiredRules p ! 1"
  have R': "R' = ruleSwept ?b (ruleSwept ?a R)" by (simp add: R'_def desiredRules_def)
  have prio: "ruPriority ?a = PeerRulePref" "ruPriority ?b = BlackholePref" "PeerRulePref \<noteq> BlackholePref"
    by (simp_all add: desiredRules_def PeerRulePref_def BlackholePref_def)
  have "{r \<in> R'. ruPriority r = PeerRulePref} = {r \<in> ruleSwept ?a R. ruPriority r = PeerRulePref}"
    using prio ruleSwept_other [of _ ?b] by (auto simp: R')
  also have "\<dots> = {?a}"
    using sweep_plain [of ?a R] prio assms(1) isNet4_ipNet [OF assms(4), of v]
    by (simp add: desiredRules_def assms(3))
  finally show "{r \<in> R'. ruPriority r = PeerRulePref} = {?a}" .
  have "plainAt BlackholePref (ruleSwept ?a R)"
    using assms(2) prio ruleSwept_other [of _ ?a] by (auto simp: plainAt_def)
  then show "{r \<in> R'. ruPriority r = BlackholePref} = {?b}"
    using sweep_plain [of ?b "ruleSwept ?a R"] prio by (simp add: R' desiredRules_def)
qed

lemma tableRoute_only:
  assumes "\<forall>n b. T (t, n) = Some b \<longrightarrow> b = a"
  shows "tableRoute T t d b \<Longrightarrow> b = a"
  using assms by (auto simp: tableRoute_def)

text \<open>A table with a route that covers a destination decides it, because the lengths of prefixes are bounded.\<close>

lemma tableRoute_ex:
  assumes "T (t, n) = Some a" and "inNet n d"
  shows "\<exists>b. tableRoute T t d b"
proof -
  let ?P = "\<lambda>m. \<exists>b. T (t, m) = Some b \<and> inNet m d"
  have "netOnes m < 33" if "inNet m d" for m
    using that by (auto simp: inNet_def isNet4_def)
  then have "\<exists>m. ?P m \<and> (\<forall>k. ?P k \<longrightarrow> netOnes k \<le> netOnes m)"
    using assms by (intro ex_has_greatest_nat [where k = n and b = 33]) auto
  then show ?thesis by (auto simp: tableRoute_def)
qed


text \<open>
  What the assertion leaves, for any packet: one that arrived on the WireGuard link is forwarded only by a
  rule before the blackhole rule, and one for a peer only by a rule before the peer rule or to the
  WireGuard link.
\<close>

lemma asserted_decides:
  assumes plain: "plainAt PeerRulePref R" "plainAt BlackholePref R"
    and p: "p = Prefix (Addr4 v) (int n)" "n \<le> 32"
    and hole: "\<forall>m b. T (BlackholeTable, m) = Some b \<longrightarrow> b = Blackhole"
    and peer: "\<forall>m b. T (PeerTable, m) = Some b \<longrightarrow> b = Dev i"
  defines "R' \<equiv> fold ruleSwept (desiredRules p) R"
    and "T' \<equiv> T((PeerTable, ipNet p) \<mapsto> Dev i, (BlackholeTable, IPNet (Addr4 0) 0 32) \<mapsto> Blackhole)"
  assumes dec: "decidedBy sel R' T' pk r a"
  shows "pkIif pk = WgInterface \<Longrightarrow> ruPriority r < BlackholePref \<or> a = Blackhole"
    and "Contains p (Addr4 (pkDst pk)) \<Longrightarrow> ruPriority r < PeerRulePref \<or> a = Dev i"
proof -
  let ?d = "pkDst pk"
  note own = desired_plain [OF plain p, folded R'_def]
  have tables: "PeerTable \<noteq> BlackholeTable" by (simp add: PeerTable_def BlackholeTable_def)
  have first: "ruPriority r < prio \<or> a = b"
    if s: "{s \<in> R'. ruPriority s = prio} = {s}" "selects sel s pk" and T: "T' (ruTable s, m) = Some b" "inNet m ?d"
      and only: "\<forall>m c. T' (ruTable s, m) = Some c \<longrightarrow> c = b" for prio s m b
  proof (rule ccontr)
    assume neg: "\<not> (ruPriority r < prio \<or> a = b)"
    have sR: "s \<in> R'" "ruPriority s = prio" using s(1) by auto
    have "\<not> prio < ruPriority r"
      using dec sR s(2) tableRoute_ex [of T', OF T] by (auto simp: decidedBy_def)
    then have "r = s" using neg s(1) dec by (auto simp: decidedBy_def)
    then show False using neg dec tableRoute_only [OF only] by (auto simp: decidedBy_def)
  qed
  show "ruPriority r < BlackholePref \<or> a = Blackhole" if "pkIif pk = WgInterface"
  proof (rule first [OF own(2)])
    show "selects sel (desiredRules p ! 1) pk" using that by (simp add: desiredRules_def selects_def)
    show "T' (ruTable (desiredRules p ! 1), IPNet (Addr4 0) 0 32) = Some Blackhole"
      by (simp add: desiredRules_def T'_def)
    show "inNet (IPNet (Addr4 0) 0 32) ?d" using Contains_4 [of 0 0 ?d] unsigned_less [of ?d, where 'a = nat] by (simp add: inNet_def isNet4_def)
    show "\<forall>m c. T' (ruTable (desiredRules p ! 1), m) = Some c \<longrightarrow> c = Blackhole"
      using hole tables by (auto simp: desiredRules_def T'_def)
  qed
  show "ruPriority r < PeerRulePref \<or> a = Dev i" if c: "Contains p (Addr4 ?d)"
  proof (rule first [OF own(1)])
    have "inNet (ipNet p) ?d" using c isNet4_ipNet [OF p(2), of v] by (simp add: inNet_def ipNet_def p(1))
    then show "inNet (ipNet p) ?d" and "selects sel (desiredRules p ! 0) pk"
      by (simp_all add: desiredRules_def selects_def)
    show "T' (ruTable (desiredRules p ! 0), ipNet p) = Some (Dev i)"
      using tables by (simp add: desiredRules_def T'_def)
    show "\<forall>m c. T' (ruTable (desiredRules p ! 0), m) = Some c \<longrightarrow> c = Dev i"
      using peer tables by (auto simp: desiredRules_def T'_def)
  qed
qed

subsection \<open>The iptables pass\<close>

text \<open>
  What \<^verbatim>\<open>iptables(8)\<close> documents: \<^verbatim>\<open>-P\<close> sets the policy, \<^verbatim>\<open>-C\<close> tells whether the rule is there, \<^verbatim>\<open>-A\<close> appends it.
\<close>

definition iptLaws :: "('w \<Rightarrow> bool) \<Rightarrow> ('w \<Rightarrow> rule multiset) \<Rightarrow> (string list \<Rightarrow> ('w, goError, unit) io) \<Rightarrow> bool" where
  "iptLaws policyDrop ipt run \<longleftrightarrow> (\<forall>D V r.
     triple (\<lambda>w. policyDrop w = D \<and> ipt w = V) (run forwardDrop) (\<lambda>x w. policyDrop w = (D \<or> \<not> isl x) \<and> ipt w = V)
     \<and> triple (\<lambda>w. policyDrop w = D \<and> ipt w = V) (run (iptablesArgs r ''-C''))
          (\<lambda>x w. (isl x \<longleftrightarrow> r \<notin># V) \<and> policyDrop w = D \<and> ipt w = V)
     \<and> triple (\<lambda>w. policyDrop w = D \<and> ipt w = V) (run (iptablesArgs r ''-A''))
          (\<lambda>x w. policyDrop w = D \<and> ipt w = (if isl x then V else add_mset r V)))"

definition onlyMissing :: "rule multiset \<Rightarrow> rule multiset \<Rightarrow> bool" where
  "onlyMissing V V' \<longleftrightarrow> V \<subseteq># V' \<and> (\<forall>r. count V' r \<le> max 1 (count V r))"

lemma ensureRules_triple:
  assumes laws: "iptLaws policyDrop ipt run"
  shows "triple (\<lambda>w. policyDrop w = D \<and> ipt w = V) (ensureRules run rs)
    (\<lambda>x w. policyDrop w = D \<and> onlyMissing V (ipt w) \<and> (\<not> isl x \<longrightarrow> set rs \<subseteq> set_mset (ipt w)))"
proof (induction rs arbitrary: V)
  case Nil
  then show ?case by (auto simp: onlyMissing_def intro: triple_ret)
next
  case (Cons r rs)
  let ?Q = "\<lambda>x w. policyDrop w = D \<and> onlyMissing V (ipt w) \<and> (\<not> isl x \<longrightarrow> set (r # rs) \<subseteq> set_mset (ipt w))"
  have check: "triple (\<lambda>w. policyDrop w = D \<and> ipt w = V) (run (iptablesArgs r ''-C''))
      (\<lambda>x w. (isl x \<longleftrightarrow> r \<notin># V) \<and> policyDrop w = D \<and> ipt w = V)"
    and add: "triple (\<lambda>w. policyDrop w = D \<and> ipt w = V) (run (iptablesArgs r ''-A''))
      (\<lambda>x w. policyDrop w = D \<and> ipt w = (if isl x then V else add_mset r V))"
    using laws by (simp_all add: iptLaws_def)
  have present: "triple (\<lambda>w. policyDrop w = D \<and> ipt w = V) (ensureRules run rs) ?Q" if "r \<in># V"
    by (rule triple_post [OF Cons.IH]) (use that in \<open>auto simp: onlyMissing_def dest: mset_subset_eqD\<close>)
  have added: "triple (\<lambda>w. policyDrop w = D \<and> ipt w = add_mset r V) (ensureRules run rs) ?Q" if "r \<notin># V"
  proof (rule triple_post [OF Cons.IH])
    fix x w assume *: "policyDrop w = D \<and> onlyMissing (add_mset r V) (ipt w) \<and> (\<not> isl x \<longrightarrow> set rs \<subseteq> set_mset (ipt w))"
    then have sub: "add_mset r V \<subseteq># ipt w" and cnt: "\<And>s. count (ipt w) s \<le> max 1 (count (add_mset r V) s)"
      by (auto simp: onlyMissing_def)
    have "count (ipt w) s \<le> max 1 (count V s)" for s
      using cnt [of s] that by (cases "s = r") (auto simp: not_in_iff)
    moreover have "V \<subseteq># ipt w" "r \<in># ipt w"
      using sub by (auto dest: mset_subset_eq_insertD subset_mset.less_imp_le)
    ultimately show "?Q x w" using * by (auto simp: onlyMissing_def)
  qed
  have append: "triple (\<lambda>w. policyDrop w = D \<and> ipt w = V) (bindE (mapErr g (run (iptablesArgs r ''-A''))) (\<lambda>_. ensureRules run rs)) ?Q"
    if "r \<notin># V" for g :: "goError \<Rightarrow> goError"
    by (rule triple_bindE [OF triple_mapErr [OF add],
          where R = "\<lambda>x w. policyDrop w = D \<and> ipt w = (if isl x then V else add_mset r V)"])
      (use added [OF that] in \<open>auto simp: onlyMissing_def\<close>)
  show ?case
    unfolding ensureRules.simps
  proof (rule triple_bind [OF check])
    fix x :: "goError + unit"
    show "triple (\<lambda>w. (isl x \<longleftrightarrow> r \<notin># V) \<and> policyDrop w = D \<and> ipt w = V) (case x of Inr _ \<Rightarrow> ensureRules run rs
        | Inl _ \<Rightarrow> bindE (mapErr (WrapErr (''iptables -t '' @ rTable r @ '' -A '' @ rChain r @ '' '' @ Join '' '' (rSpec r)))
                 (run (iptablesArgs r ''-A''))) (\<lambda>_. ensureRules run rs)) ?Q"
      by (rule triple_conj_pre, cases x) (use append present in \<open>auto split: sum.split\<close>)
  qed
qed

lemma ensureIptables_triple:
  assumes laws: "iptLaws policyDrop ipt (dpRun d)"
  shows "triple (\<lambda>w. policyDrop w = D \<and> ipt w = V) (ensureIptables d p)
    (\<lambda>x w. onlyMissing V (ipt w) \<and> (\<not> policyDrop w \<longrightarrow> ipt w = V)
       \<and> (\<not> isl x \<longrightarrow> policyDrop w \<and> set (rules p) \<subseteq> set_mset (ipt w)))"
proof -
  have drop: "triple (\<lambda>w. policyDrop w = D \<and> ipt w = V) (mapErr g (dpRun d forwardDrop))
      (\<lambda>x w. policyDrop w = (D \<or> \<not> isl x) \<and> ipt w = V)" for g :: "goError \<Rightarrow> goError"
    using laws by (intro triple_mapErr [where R = "\<lambda>x w. policyDrop w = (D \<or> \<not> isl x) \<and> ipt w = V"]) (simp_all add: iptLaws_def)
  show ?thesis
    unfolding ensureIptables_def
  proof (rule triple_bindE [OF drop])
    fix u :: unit
    show "triple (\<lambda>w. policyDrop w = (D \<or> \<not> isl (Inr u)) \<and> ipt w = V) (ensureRules (dpRun d) (rules p))
        (\<lambda>x w. onlyMissing V (ipt w) \<and> (\<not> policyDrop w \<longrightarrow> ipt w = V)
          \<and> (\<not> isl x \<longrightarrow> policyDrop w \<and> set (rules p) \<subseteq> set_mset (ipt w)))"
      by (rule triple_post [OF triple_pre [OF ensureRules_triple [OF laws, of True V]]]) auto
  qed (auto simp: onlyMissing_def)
qed

lemma ensureIptables_maintains:
  assumes "\<And>args. maintains I (dpRun d args)"
  shows "maintains I (ensureIptables d p)"
proof -
  have "maintains I (ensureRules (dpRun d) rs)" for rs
    by (induction rs) (auto intro!: triple_rules assms split: sum.split)
  then show ?thesis by (auto simp: ensureIptables_def intro!: triple_rules assms)
qed

lemma sweepRules_maintains:
  assumes "\<And>r. maintains I (RuleDel nl r)"
  shows "maintains I (sweepRules nl want found rs)"
  by (induction rs arbitrary: found) (auto intro!: triple_rules assms)

lemma ensureRouting_maintains:
  assumes "maintains I (LinkByName nl WgInterface)" "\<And>r. maintains I (RouteReplace nl r)" "maintains I (RuleList nl)"
    "\<And>r. maintains I (RuleDel nl r)" "\<And>r. maintains I (RuleAdd nl r)"
  shows "maintains I (ensureRouting nl p)"
proof -
  have "maintains I (ensureRule nl want)" for want
    by (auto simp: ensureRule_def intro!: triple_rules assms sweepRules_maintains)
  then have "maintains I (ensureRuleList nl wants)" for wants
    by (induction wants) (auto intro!: triple_rules)
  then show ?thesis by (auto simp: ensureRouting_def intro!: triple_rules assms)
qed

lemma Ensure_run:
  assumes "ParsePrefix cidr = Inr p" and "run_state (Ensure nl d cidr) w = ((err, d'), w')"
  obtains x w1 y where "run_state (ensureRouting nl (Masked p)) w = (x, w1)"
    and "run_state (ensureIptables d (Masked p)) w1 = (y, w')"
    and "err = joinErr (errOf x) (errOf y)" and "Err d' = err"
  using assms by (auto simp: Ensure_def Let_def recordErr_def Err_def split: prod.splits)

lemma errOf_None: "errOf x = None \<longleftrightarrow> \<not> isl x"
  by (cases x) (simp_all add: errOf_def)

section \<open>Properties\<close>

text \<open>A simulated iptables: the policy, and the appended rules.\<close>

definition simRule :: "string list \<Rightarrow> rule" where
  "simRule args = \<lparr>rTable = args ! 3, rChain = args ! 5, rSpec = drop 6 args\<rparr>"

definition simIptables :: "string list \<Rightarrow> (netSim, goError, unit) io" where
  "simIptables args = (if args = forwardDrop then writeSim (\<lambda>w. w\<lparr>nsDrop := True\<rparr>) (Inr ())
     else if args ! 4 = ''-C'' then readSim (\<lambda>w. if simRule args \<in> simRule ` set (nsIptables w) then Inr () else Inl (ErrorText ''Bad rule''))
     else writeSim (\<lambda>w. w\<lparr>nsIptables := nsIptables w @ [args]\<rparr>) (Inr ()))"

definition simDatapath :: "netSim Datapath" where
  "simDatapath = \<lparr>dpRun = simIptables, dpErr = None\<rparr>"

definition simTables :: "netSim \<Rightarrow> tables" where
  "simTables w = (\<lambda>(t, n). map_option actionOf (List.find (\<lambda>r. rtTable r = t \<and> rtDst r = Some n) (nsRoutes w)))"

lemma find_filter_kept: "(\<And>x. P x \<Longrightarrow> Q x) \<Longrightarrow> List.find P (filter Q xs) = List.find P xs"
  by (induction xs) auto

lemma simRule_args: "simRule (iptablesArgs r op) = r" "iptablesArgs r op \<noteq> forwardDrop" "iptablesArgs r op ! 4 = op"
  by (simp_all add: simRule_def iptablesArgs_def forwardDrop_def)

lemma simTables_replace:
  assumes "rtDst r = Some n"
  shows "simTables (w\<lparr>nsRoutes := r # filter (\<lambda>x. \<not> sameRoute r x) (nsRoutes w)\<rparr>)
    = (simTables w)((rtTable r, n) \<mapsto> actionOf r)"
proof (rule ext, clarify)
  fix t m
  let ?Q = "\<lambda>x. \<not> sameRoute r x"
  show "simTables (w\<lparr>nsRoutes := r # filter ?Q (nsRoutes w)\<rparr>) (t, m) = ((simTables w)((rtTable r, n) \<mapsto> actionOf r)) (t, m)"
  proof (cases "t = rtTable r \<and> m = n")
    case False
    have "List.find (\<lambda>r. rtTable r = t \<and> rtDst r = Some m) (filter ?Q (nsRoutes w))
        = List.find (\<lambda>r. rtTable r = t \<and> rtDst r = Some m) (nsRoutes w)"
      by (rule find_filter_kept) (use False assms in \<open>auto simp: sameRoute_def\<close>)
    then show ?thesis using False assms by (auto simp: simTables_def)
  qed (use assms in \<open>simp add: simTables_def\<close>)
qed

lemma simTables_simps [simp]:
  "simTables (w\<lparr>nsRules := x\<rparr>) = simTables w" "simTables (w\<lparr>nsDrop := b\<rparr>) = simTables w"
  "simTables (w\<lparr>nsIptables := y\<rparr>) = simTables w"
  by (simp_all add: simTables_def)

definition simRouter :: "netSim netlink" where
  "simRouter = simNetlink\<lparr>LinkByName := \<lambda>n. readSim (\<lambda>_. Inr \<lparr>lnIndex = 7, lnName = n, lnMTU = 1420\<rparr>)\<rparr>"

lemma routingLaws_sim: "routingLaws (\<lambda>w. set (nsRules w)) simTables 7 simRouter"
  by (auto simp: routingLaws_def triple_def simRouter_def simNetlink_def simTables_replace)

lemma iptLaws_sim: "iptLaws nsDrop (\<lambda>w. image_mset simRule (mset (nsIptables w))) simIptables"
  by (auto simp: iptLaws_def triple_def simIptables_def simRule_args)



definition examplePacket :: "32 word \<Rightarrow> packet" where
  "examplePacket dst = \<lparr>pkIif = WgInterface, pkDst = dst\<rparr>"

text \<open>
  A packet for 1.1.1.1 from a peer, with a main table that has a default route: the blackhole rule decides
  it, as it must.
\<close>

definition mainRule :: Rule where
  "mainRule = \<lparr>ruPriority = 32766, ruTable = RT_TABLE_MAIN, ruDst = None, ruIifName = [], ruOther = []\<rparr>"

definition simPod :: netSim where
  "simPod = \<lparr>nsLinks = [], nsAddrs = [], nsRoutes = [noRoute\<lparr>rtDst := Some (IPNet (Addr4 0) 0 32), rtTable := RT_TABLE_MAIN, rtLinkIndex := 2\<rparr>],
     nsRules = [mainRule], nsKey = 1, nsPeers = [], nsClock = 0, nsDrop = False, nsIptables = []\<rparr>"


definition routingKeeps :: "('w \<Rightarrow> bool) \<Rightarrow> 'w netlink \<Rightarrow> bool" where
  "routingKeeps I nl \<longleftrightarrow> maintains I (LinkByName nl WgInterface) \<and> (\<forall>r. maintains I (RouteReplace nl r))
     \<and> maintains I (RuleList nl) \<and> (\<forall>r. maintains I (RuleDel nl r)) \<and> (\<forall>r. maintains I (RuleAdd nl r))"

lemma ensureIptables_drops:
  assumes laws: "iptLaws policyDrop ipt (dpRun d)" and ok: "\<And>w. \<not> isl (fst (run_state (dpRun d forwardDrop) w))"
    and run: "run_state (ensureIptables d p) w = (y, w')"
  shows "policyDrop w'"
proof -
  obtain x w1 where x: "run_state (dpRun d forwardDrop) w = (x, w1)" by force
  then obtain u where u: "x = Inr u" using ok [of w] by (cases x) simp_all
  have "triple (\<lambda>v. policyDrop v = policyDrop w \<and> ipt v = ipt w) (dpRun d forwardDrop)
      (\<lambda>x v. policyDrop v = (policyDrop w \<or> \<not> isl x) \<and> ipt v = ipt w)"
    using laws by (simp add: iptLaws_def)
  from triple_run [OF this _ x] have "policyDrop w1" by (simp add: u)
  moreover have "run_state (ensureRules (dpRun d) (rules p)) w1 = (y, w')" using run x u by (simp add: ensureIptables_def)
  ultimately show ?thesis using triple_run [OF ensureRules_triple [OF laws, of True "ipt w1"]] by simp
qed





text \<open>
  The comment on \<^verbatim>\<open>ensureRule\<close> says that it leaves the wanted rule as the only one at its priority. A rule there
  with a further selector is taken for the wanted one: it stays, and the wanted rule is not added.
\<close>

theorem ensureRule_keeps_selector:
  assumes "nsRules w = [want\<lparr>ruOther := s\<rparr>]"
  shows "run_state (ensureRule simNetlink want) w = (Inr (), w)"
  using assms by (simp add: ensureRule_def simNetlink_def ruleMatches_def)

end
