(* ===== verification/Flags.thy ===== *)
theory Flags
  imports Resources
begin

text \<open>
  Command lines: Go's package \<^verbatim>\<open>flag\<close>, as far as the programs use it (string, bool and int flags), with
  the conversions of \<^verbatim>\<open>strconv\<close> it calls, and the flags of \<open>src/cmd/agent/main.go\<close>.
\<close>

section \<open>Values\<close>

definition ParseBool :: "string \<Rightarrow> bool option" where
  "ParseBool s = (if s \<in> set [''1'', ''t'', ''T'', ''TRUE'', ''true'', ''True''] then Some True
     else if s \<in> set [''0'', ''f'', ''F'', ''FALSE'', ''false'', ''False''] then Some False else None)"

datatype numError = ErrSyntax | ErrRange

definition lowerChar :: "char \<Rightarrow> char" where
  "lowerChar c = (if 65 \<le> (of_char c :: nat) \<and> (of_char c :: nat) \<le> 90 then char_of ((of_char c :: nat) + 32) else c)"

text \<open>The value of a digit of any base.\<close>

definition digitOf :: "char \<Rightarrow> int option" where
  "digitOf c = (let l = (of_char (lowerChar c) :: int) in
     if isDigit c then Some (int (digitVal c))
     else if 97 \<le> l \<and> l \<le> 122 then Some (l - 97 + 10) else None)"

text \<open>\<^verbatim>\<open>underscoreOK\<close>: underscores separate digits, and a base prefix counts as a digit.\<close>

fun underscoreLoop :: "bool \<Rightarrow> char \<Rightarrow> string \<Rightarrow> bool" where
  "underscoreLoop hex prev [] = (prev \<noteq> CHR ''_'')"
| "underscoreLoop hex prev (c # cs) =
     (if isDigit c \<or> hex \<and> lowerChar c \<in> set ''abcdef'' then underscoreLoop hex (CHR ''0'') cs
      else if c = CHR ''_'' then prev = CHR ''0'' \<and> underscoreLoop hex (CHR ''_'') cs
      else prev \<noteq> CHR ''_'' \<and> underscoreLoop hex (CHR ''!'') cs)"

definition underscoreOK :: "string \<Rightarrow> bool" where
  "underscoreOK s = (case s of
     z # b # rest \<Rightarrow> if z = CHR ''0'' \<and> lowerChar b \<in> set ''box'' then underscoreLoop (lowerChar b = CHR ''x'') (CHR ''0'') rest
                     else underscoreLoop False (CHR ''^'') s
   | _ \<Rightarrow> underscoreLoop False (CHR ''^'') s)"

text \<open>The digits from the left; the check for overflow comes with each digit.\<close>

fun uintLoop :: "int \<Rightarrow> int \<Rightarrow> string \<Rightarrow> numError + int" where
  "uintLoop base n [] = Inr n"
| "uintLoop base n (c # cs) =
     (if c = CHR ''_'' then uintLoop base n cs
      else case digitOf c of
        None \<Rightarrow> Inl ErrSyntax
      | Some d \<Rightarrow>
        if d \<ge> base then Inl ErrSyntax
        else if n * base + d \<ge> 2 ^ 64 then Inl ErrRange
        else uintLoop base (n * base + d) cs)"

text \<open>The base that the prefix gives, and the digits after it.\<close>

definition basePrefix :: "string \<Rightarrow> int \<times> string" where
  "basePrefix s = (case s of
     z # rest \<Rightarrow>
       if z \<noteq> CHR ''0'' then (10, s)
       else (case rest of
         b # x # xs \<Rightarrow>
           if lowerChar b = CHR ''b'' then (2, x # xs)
           else if lowerChar b = CHR ''o'' then (8, x # xs)
           else if lowerChar b = CHR ''x'' then (16, x # xs)
           else (8, rest)
       | _ \<Rightarrow> (8, rest))
   | [] \<Rightarrow> (10, s))"

definition ParseUint0 :: "string \<Rightarrow> numError + int" where
  "ParseUint0 s =
     (if s = [] then Inl ErrSyntax
      else case basePrefix s of (base, ds) \<Rightarrow>
        (case uintLoop base 0 ds of
           Inl e \<Rightarrow> Inl e
         | Inr n \<Rightarrow> if CHR ''_'' \<in> set ds \<and> \<not> underscoreOK s then Inl ErrSyntax else Inr n))"

text \<open>\<^verbatim>\<open>strconv.ParseInt(s, 0, 64)\<close>.\<close>

definition ParseInt0 :: "string \<Rightarrow> numError + int" where
  "ParseInt0 s =
     (if s = [] then Inl ErrSyntax
      else let neg = (hd s = CHR ''-''); ds = (if hd s = CHR ''+'' \<or> hd s = CHR ''-'' then tl s else s) in
        case ParseUint0 ds of
          Inl e \<Rightarrow> Inl e
        | Inr n \<Rightarrow>
          if \<not> neg \<and> n \<ge> 2 ^ 63 then Inl ErrRange
          else if neg \<and> n > 2 ^ 63 then Inl ErrRange
          else Inr (if neg then - n else n))"

section \<open>Parsing\<close>

datatype flagKind = StringFlag | BoolFlag | IntFlag
datatype flagValue = StringValue string | BoolValue bool | IntValue int
datatype flagError = ErrHelp | FlagError string

definition numErrorText :: "numError \<Rightarrow> string" where
  "numErrorText e = (case e of ErrSyntax \<Rightarrow> ''parse error'' | ErrRange \<Rightarrow> ''value out of range'')"

definition SetFlag :: "flagKind \<Rightarrow> string \<Rightarrow> string + flagValue" where
  "SetFlag kind s = (case kind of
     StringFlag \<Rightarrow> Inr (StringValue s)
   | BoolFlag \<Rightarrow> (case ParseBool s of None \<Rightarrow> Inl ''parse error'' | Some b \<Rightarrow> Inr (BoolValue b))
   | IntFlag \<Rightarrow> (case ParseInt0 s of Inl e \<Rightarrow> Inl (numErrorText e) | Inr i \<Rightarrow> Inr (IntValue i)))"

text \<open>The name of a flag and, after the first \<^verbatim>\<open>=\<close> that is not its first character, the value.\<close>

definition flagNameValue :: "string \<Rightarrow> string \<times> string option" where
  "flagNameValue name = (case Cut (CHR ''='') (tl name) of
     None \<Rightarrow> (name, None)
   | Some (n, v) \<Rightarrow> (hd name # n, Some v))"

datatype flagWord = StopHere | StopAfter | BadSyntax | NamedFlag string

definition flagWordOf :: "string \<Rightarrow> flagWord" where
  "flagWordOf s =
     (if length s < 2 \<or> hd s \<noteq> CHR ''-'' then StopHere
      else if s = ''--'' then StopAfter
      else let name = (if s ! 1 = CHR ''-'' then drop 2 s else drop 1 s) in
        if name = [] \<or> hd name = CHR ''-'' \<or> hd name = CHR ''='' then BadSyntax else NamedFlag name)"

text \<open>\<^verbatim>\<open>parseOne\<close> on the word \<open>s\<close>: the flag set and the words left, or why parsing ends.\<close>

datatype flagStep = FlagsDone | FlagFails flagError | FlagSets string flagValue "string list"

definition setOne :: "flagKind \<Rightarrow> string \<Rightarrow> string \<Rightarrow> string list \<Rightarrow> flagStep" where
  "setOne kind name v rest = (case SetFlag kind v of
     Inr x \<Rightarrow> FlagSets name x rest
   | Inl e \<Rightarrow> FlagFails (FlagError (
       if kind = BoolFlag then ''invalid boolean value '' @ fmtQ v @ '' for -'' @ name @ '': '' @ e
       else ''invalid value '' @ fmtQ v @ '' for flag -'' @ name @ '': '' @ e)))"

definition parseOne :: "(string \<times> flagKind) list \<Rightarrow> string \<Rightarrow> string list \<Rightarrow> flagStep" where
  "parseOne defs s args =
     (case flagWordOf s of
        StopHere \<Rightarrow> FlagsDone
      | StopAfter \<Rightarrow> FlagsDone
      | BadSyntax \<Rightarrow> FlagFails (FlagError (''bad flag syntax: '' @ s))
      | NamedFlag word \<Rightarrow>
        (case flagNameValue word of (name, val) \<Rightarrow>
          (case map_of defs name of
             None \<Rightarrow> FlagFails (if name = ''help'' \<or> name = ''h'' then ErrHelp
                       else FlagError (''flag provided but not defined: -'' @ name))
           | Some kind \<Rightarrow>
             if kind = BoolFlag then setOne kind name (case val of None \<Rightarrow> ''true'' | Some v \<Rightarrow> v) args
             else (case val of
                Some v \<Rightarrow> setOne kind name v args
              | None \<Rightarrow> (case args of
                  [] \<Rightarrow> FlagFails (FlagError (''flag needs an argument: -'' @ name))
                | v # rest \<Rightarrow> setOne kind name v rest)))))"

lemma SetFlag_Inr: "setOne kind name v rest = FlagSets n x r \<longleftrightarrow> n = name \<and> r = rest \<and> SetFlag kind v = Inr x"
  by (auto simp: setOne_def split: sum.split)

lemma parseOne_rest: "parseOne defs s args = FlagSets n x rest \<Longrightarrow> length rest \<le> length args"
  by (auto simp: parseOne_def SetFlag_Inr split: flagWord.splits prod.splits option.splits if_splits list.splits)

text \<open>
  \<^verbatim>\<open>FlagSet.Parse\<close>: the flags defined, by name; the values set, the last one first. Parsing stops at the
  first word that is no flag, or after \<^verbatim>\<open>--\<close>.
\<close>

function parseFlags :: "(string \<times> flagKind) list \<Rightarrow> string list \<Rightarrow> (string \<times> flagValue) list \<Rightarrow> flagError + (string \<times> flagValue) list" where
  "parseFlags defs [] got = Inr got"
| "parseFlags defs (s # args) got =
     (case parseOne defs s args of
        FlagsDone \<Rightarrow> Inr got
      | FlagFails e \<Rightarrow> Inl e
      | FlagSets name x rest \<Rightarrow> parseFlags defs rest ((name, x) # got))"
  by pat_completeness auto
termination
  by (relation "measure (\<lambda>(_, args, _). length args)") (auto simp: less_Suc_eq_le dest: parseOne_rest)

definition stringFlag :: "(string \<times> flagValue) list \<Rightarrow> string \<Rightarrow> string \<Rightarrow> string" where
  "stringFlag got name dflt = (case map_of got name of Some (StringValue s) \<Rightarrow> s | _ \<Rightarrow> dflt)"

definition boolFlag :: "(string \<times> flagValue) list \<Rightarrow> string \<Rightarrow> bool \<Rightarrow> bool" where
  "boolFlag got name dflt = (case map_of got name of Some (BoolValue b) \<Rightarrow> b | _ \<Rightarrow> dflt)"

definition intFlag :: "(string \<times> flagValue) list \<Rightarrow> string \<Rightarrow> int \<Rightarrow> int" where
  "intFlag got name dflt = (case map_of got name of Some (IntValue i) \<Rightarrow> i | _ \<Rightarrow> dflt)"

text \<open>Every value that is set has the kind its flag was defined with.\<close>

definition kindOf :: "flagValue \<Rightarrow> flagKind" where
  "kindOf v = (case v of StringValue _ \<Rightarrow> StringFlag | BoolValue _ \<Rightarrow> BoolFlag | IntValue _ \<Rightarrow> IntFlag)"

lemma SetFlag_kind: "SetFlag kind s = Inr v \<Longrightarrow> kindOf v = kind"
  by (auto simp: SetFlag_def kindOf_def split: flagKind.splits option.splits sum.splits)

lemma parseOne_kind: "parseOne defs s args = FlagSets n x rest \<Longrightarrow> map_of defs n = Some (kindOf x)"
  by (auto simp: parseOne_def SetFlag_Inr split: flagWord.splits prod.splits option.splits if_splits list.splits dest!: SetFlag_kind)

lemma parseFlags_typed:
  assumes "parseFlags defs args got = Inr out" and "\<forall>(n, v) \<in> set got. map_of defs n = Some (kindOf v)"
  shows "\<forall>(n, v) \<in> set out. map_of defs n = Some (kindOf v)"
  using assms by (induction defs args got rule: parseFlags.induct) (auto split: flagStep.splits dest: parseOne_kind)

text \<open>A printed number is read back, so an int flag accepts what is rendered with \<^verbatim>\<open>%d\<close>.\<close>

lemma digitOf_digit: "d < 10 \<Longrightarrow> digitOf (digit d) = Some (int d)"
  by (simp add: digitOf_def)

lemma uintLoop_append:
  "uintLoop base n (xs @ ys) = (case uintLoop base n xs of Inl e \<Rightarrow> Inl e | Inr m \<Rightarrow> uintLoop base m ys)"
  by (induction base n xs rule: uintLoop.induct) (auto split: option.split)

lemma digit_underscore: "d < 10 \<Longrightarrow> digit d \<noteq> CHR ''_''"
  using isDigit_digit [of d] by (auto simp: isDigit_def)

lemma uintLoop_Itoa: "n < 2 ^ 64 \<Longrightarrow> uintLoop 10 0 (Itoa n) = Inr (int n)"
proof (induction n rule: Itoa.induct)
  case (1 n)
  have d: "int n = int (n div 10) * 10 + int (n mod 10)" by presburger
  show ?case
  proof (cases "n < 10")
    case False
    then have "uintLoop 10 0 (Itoa (n div 10)) = Inr (int (n div 10))" using 1 by simp
    then show ?thesis
      using False 1(2) d by (simp add: Itoa.simps [of n] uintLoop_append digitOf_digit digit_underscore)
  qed (simp add: Itoa_small digitOf_digit digit_underscore)
qed

lemma ParseInt0_Itoa:
  assumes "0 < n" and "n < 2 ^ 63"
  shows "ParseInt0 (Itoa n) = Inr (int n)"
proof -
  have dig: "isDigit (hd (Itoa n))" using Itoa_digits [of n] by simp
  have no: "CHR ''_'' \<notin> set (Itoa n)" using Itoa_digits [of n] by (auto simp: isDigit_def)
  have "basePrefix (Itoa n) = (10, Itoa n)"
    using hd_Itoa [OF assms(1)] by (cases "Itoa n") (auto simp: basePrefix_def)
  then have "ParseUint0 (Itoa n) = Inr (int n)"
    using uintLoop_Itoa [of n] assms(2) no by (simp add: ParseUint0_def)
  moreover have "hd (Itoa n) \<noteq> CHR ''+''" "hd (Itoa n) \<noteq> CHR ''-''" using dig by (auto simp: isDigit_def)
  ultimately show ?thesis using assms(2) by (simp add: ParseInt0_def Let_def)
qed

section \<open>The agent\<close>

record agentFlags =
  afState :: string
  afIface :: string
  afFallback :: string
  afListenPort :: int
  afVerbosity :: int

text \<open>
  What a command line of the agent asks for: the client with its arguments, the gateway's agent, or to exit
  with a status. The imported packages may define further flags, \<open>extra\<close>.
\<close>

datatype agentRun = RunClient "string list" | RunAgent agentFlags | ExitWith int

definition agentFlagDefs :: "(string \<times> flagKind) list" where
  "agentFlagDefs = [(''state'', StringFlag), (''wg-iface'', StringFlag), (''wg-userspace-implementation-fallback'', StringFlag),
     (''wg-listen-port'', IntFlag), (''v'', IntFlag)]"

definition clientFlagDefs :: "(string \<times> flagKind) list" where
  "clientFlagDefs = [(''wireguard'', StringFlag), (''check'', BoolFlag), (''v'', IntFlag)]"

text \<open>The flags of \<^verbatim>\<open>runClient\<close>: \<^verbatim>\<open>--wireguard\<close> and \<^verbatim>\<open>--check\<close>; \<open>None\<close> is a usage error.\<close>

definition parseClient :: "string list \<Rightarrow> (string \<times> bool) option" where
  "parseClient args = (case parseFlags clientFlagDefs args [] of
     Inl _ \<Rightarrow> None
   | Inr got \<Rightarrow> Some (stringFlag got ''wireguard'' [], boolFlag got ''check'' False))"

text \<open>\<^verbatim>\<open>main\<close> up to the values of the flags; the package's \<^verbatim>\<open>Parse\<close> exits with 0 on a request for help and with 2 on an error.\<close>

definition agentMain :: "(string \<times> flagKind) list \<Rightarrow> string list \<Rightarrow> agentRun" where
  "agentMain extra args =
     (if args \<noteq> [] \<and> hd args = ''client'' then RunClient (tl args)
      else (case parseFlags (agentFlagDefs @ extra) args [] of
          Inl ErrHelp \<Rightarrow> ExitWith 0
        | Inl _ \<Rightarrow> ExitWith 2
        | Inr got \<Rightarrow> RunAgent \<lparr>
            afState = stringFlag got ''state'' ''./state.json'',
            afIface = stringFlag got ''wg-iface'' WgInterface,
            afFallback = stringFlag got ''wg-userspace-implementation-fallback'' UserspaceImplementation,
            afListenPort = intFlag got ''wg-listen-port'' 51820,
            afVerbosity = intFlag got ''v'' 1\<rparr>))"

end
