(* ===== verification/Agent.thy ===== *)
theory Agent
  imports Datapath Flags
begin

text \<open>
  The gateway's agent: reading and watching the state file (\<open>src/internal/agent\<close>), and the process that
  applies it, re-asserts the datapath and answers readiness probes (\<open>src/cmd/agent/main.go\<close>).

  The file system, the JSON decoder, the digest and the HTTP client are parameters. The process is a
  state machine: its three activities (the watcher, the ticker, the health handler) are steps that
  interleave in any order with each other and with the other programs in the pod.
\<close>

section \<open>The state file\<close>

record ('w, 'k) agentHost =
  agWg :: "('w, 'k) wgHost"
  agAgent :: wgAgent
  agReadFile :: "string \<Rightarrow> ('w, string, string) io"
  agUnmarshal :: "string \<Rightarrow> string + State"
  agDigest :: "string \<Rightarrow> string"
  agNewRequest :: "string \<Rightarrow> goError option"
  agDo :: "string \<Rightarrow> ('w, goError, int \<times> string) io"
  agCombinedOutput :: "string list \<Rightarrow> ('w, goError \<times> string, unit) io"
  agNewWatcher :: "('w, goError, unit) io"
  agWatchAdd :: "string \<Rightarrow> ('w, goError, unit) io"

definition GetDesiredState :: "('w, 'k) agentHost \<Rightarrow> string \<Rightarrow> ('w, goError, State \<times> string) io" where
  "GetDesiredState h path =
     bindE (mapErr ErrorText (agReadFile h path)) (\<lambda>jsonFile.
       ret (case agUnmarshal h jsonFile of
              Inl e \<Rightarrow> Inl (ErrorText e)
            | Inr state \<Rightarrow> Inr (state, agDigest h jsonFile)))"

fun peersProblem :: "nat \<Rightarrow> WireguardPeer list \<Rightarrow> goError option" where
  "peersProblem i [] = None"
| "peersProblem i (peer # peers) =
     (if address peer = [] then Some (ErrorText (''peer with index '' @ Itoa i @ '' does not have the address defined''))
      else if publicKey peer = [] then Some (ErrorText (''peer with index '' @ Itoa i @ '' does not have a public key defined''))
      else peersProblem (Suc i) peers)"

definition IsStateValid :: "State \<Rightarrow> goError option" where
  "IsStateValid state =
     (if ServerPrivateKey state = [] then Some (ErrorText ''server private key is not defined'')
      else if length (ServerPrivateKey state) \<noteq> 44 then Some (ErrorText ''server private key should be of length 44'')
      else peersProblem 0 (Peers state))"

section \<open>gluetun's health\<close>

text \<open>The body is read up to 512 bytes.\<close>

definition GluetunHealthy :: "('w, 'k) agentHost \<Rightarrow> string \<Rightarrow> ('w, goError option) state" where
  "GluetunHealthy h url =
     (case agNewRequest h url of
        Some err \<Rightarrow> ret (Some (WrapErr (''gluetun health '' @ url) err))
      | None \<Rightarrow> do {
          resp \<leftarrow> agDo h url;
          ret (case resp of
                 Inl err \<Rightarrow> Some (WrapErr (''gluetun health '' @ url) err)
               | Inr (status, body) \<Rightarrow>
                   if status = 200 then None
                   else Some (ErrorText (''gluetun health '' @ url @ '': '' @ fmtInt status @ '' '' @ TrimSpace (take 512 body))))
        })"

section \<open>Watching the state file\<close>

text \<open>
  What an event leads to, given what was read: the digest to remember, and the state to pass on, if any.
\<close>

definition onEvent :: "string \<Rightarrow> goError + (State \<times> string) \<Rightarrow> string \<times> State option" where
  "onEvent hash r = (case r of
     Inl _ \<Rightarrow> (hash, None)
   | Inr (state, newHash) \<Rightarrow>
       if newHash = hash then (hash, None)
       else (newHash, if IsStateValid state = None then Some state else None))"

text \<open>
  The first reading, before the watch starts; its digest is empty when the file cannot be read or parsed.
\<close>

definition onStart :: "goError + (State \<times> string) \<Rightarrow> string \<times> State option" where
  "onStart r = (case r of
     Inl _ \<Rightarrow> ([], None)
   | Inr (state, hash) \<Rightarrow> (hash, if IsStateValid state = None then Some state else None))"

record fsEvent =
  evWrite :: bool
  evCreate :: bool

section \<open>The process\<close>

text \<open>What the process keeps: the digest of the watcher and the datapath.\<close>

record 'w agentProc =
  apHash :: string
  apDatapath :: "'w Datapath"

text \<open>The callback of \<^verbatim>\<open>OnStateChange\<close>.\<close>

definition receiveState :: "('w, 'k) agentHost \<Rightarrow> 'w Datapath \<Rightarrow> State \<Rightarrow> ('w, 'w Datapath) state" where
  "receiveState h dp state = do {
     err \<leftarrow> Sync (agWg h) (agAgent h) state;
     case err of
       Inl _ \<Rightarrow> ret dp
     | Inr _ \<Rightarrow> do {
         (_, dp') \<leftarrow> Ensure (netlinkOps (agWg h)) dp (PeerCIDR state);
         ret dp'
       }
   }"

definition passOn :: "('w, 'k) agentHost \<Rightarrow> 'w Datapath \<Rightarrow> string \<times> State option \<Rightarrow> ('w, 'w agentProc) state" where
  "passOn h dp d = (case d of
     (hash, None) \<Rightarrow> ret \<lparr>apHash = hash, apDatapath = dp\<rparr>
   | (hash, Some state) \<Rightarrow> do {
       dp' \<leftarrow> receiveState h dp state;
       ret \<lparr>apHash = hash, apDatapath = dp'\<rparr>
     })"

text \<open>The WireGuard settings that \<^verbatim>\<open>main\<close> takes from its flags.\<close>

definition agentOf :: "agentFlags \<Rightarrow> wgAgent" where
  "agentOf fl = \<lparr>wgIface = afIface fl, wgListenPort = afListenPort fl, wgFallback = afFallback fl\<rparr>"

text \<open>\<^verbatim>\<open>filepath.Dir\<close>: the part up to the last slash, cleaned as \<^verbatim>\<open>filepath.Clean\<close> does.\<close>

fun SplitChar :: "char \<Rightarrow> string \<Rightarrow> string list" where
  "SplitChar sep [] = [[]]"
| "SplitChar sep (c # cs) =
     (if c = sep then [] # SplitChar sep cs
      else (case SplitChar sep cs of [] \<Rightarrow> [[c]] | x # xs \<Rightarrow> (c # x) # xs))"

text \<open>One element on the elements so far, the last of them first.\<close>

definition cleanElem :: "bool \<Rightarrow> string \<Rightarrow> string list \<Rightarrow> string list" where
  "cleanElem rooted e out =
     (if e = [] \<or> e = ''.'' then out
      else if e = ''..'' then (case out of
          [] \<Rightarrow> if rooted then [] else [''..'']
        | x # xs \<Rightarrow> if x = ''..'' then e # out else xs)
      else e # out)"

definition CleanPath :: "string \<Rightarrow> string" where
  "CleanPath path =
     (let rooted = (path \<noteq> [] \<and> hd path = CHR ''/'');
          cleaned = (if rooted then ''/'' else []) @ Join ''/'' (rev (fold (cleanElem rooted) (SplitChar (CHR ''/'') path) [])) in
      if cleaned = [] then ''.'' else cleaned)"

definition Dir :: "string \<Rightarrow> string" where
  "Dir path = CleanPath (case CutLast (CHR ''/'') path of None \<Rightarrow> [] | Some (d, _) \<Rightarrow> d @ ''/'')"

lemma Dir_state: "Dir ''/tmp/wireguard/state.json'' = ''/tmp/wireguard''" "Dir ''./state.json'' = ''.''" "Dir ''/state.json'' = ''/''"
  by code_simp+

text \<open>
  \<^verbatim>\<open>OnStateChange\<close>: the first reading is handled before the directory is watched, and an error of the watch
  ends the process.
\<close>

definition OnStateChange :: "('w, 'k) agentHost \<Rightarrow> string \<Rightarrow> 'w Datapath \<Rightarrow> ('w, goError, 'w agentProc) io" where
  "OnStateChange h path dp =
     bindE (agNewWatcher h) (\<lambda>_. do {
       r \<leftarrow> GetDesiredState h path;
       p \<leftarrow> passOn h dp (onStart r);
       err \<leftarrow> agWatchAdd h (Dir path);
       ret (case err of Inl e \<Rightarrow> Inl e | Inr _ \<Rightarrow> Inr p)
     })"

definition watchEvent :: "('w, 'k) agentHost \<Rightarrow> string \<Rightarrow> fsEvent \<Rightarrow> 'w agentProc \<Rightarrow> ('w, 'w agentProc) state" where
  "watchEvent h path event p =
     (if evWrite event \<or> evCreate event
      then do { r \<leftarrow> GetDesiredState h path; passOn h (apDatapath p) (onEvent (apHash p) r) }
      else ret p)"

text \<open>One tick of \<^verbatim>\<open>reassert\<close>.\<close>

definition reassert :: "('w, 'k) agentHost \<Rightarrow> string \<Rightarrow> 'w agentProc \<Rightarrow> ('w, 'w agentProc) state" where
  "reassert h path p = do {
     r \<leftarrow> GetDesiredState h path;
     case r of
       Inl _ \<Rightarrow> ret p
     | Inr (state, _) \<Rightarrow> do {
         (_, dp') \<leftarrow> Ensure (netlinkOps (agWg h)) (apDatapath p) (PeerCIDR state);
         ret (p\<lparr>apDatapath := dp'\<rparr>)
       }
   }"

definition StatusOK :: int where "StatusOK = 200"
definition StatusServiceUnavailable :: int where "StatusServiceUnavailable = 503"

definition gluetunHealthURL :: string where
  "gluetunHealthURL = ''http://'' @ GluetunHealthAddress @ ''/''"

text \<open>The \<^verbatim>\<open>/health\<close> handler; the status code it writes.\<close>

definition health :: "('w, 'k) agentHost \<Rightarrow> string \<Rightarrow> 'w agentProc \<Rightarrow> ('w, int) state" where
  "health h path p = do {
     r \<leftarrow> GetDesiredState h path;
     case r of
       Inl _ \<Rightarrow> ret StatusServiceUnavailable
     | Inr (state, _) \<Rightarrow>
         if IsStateValid state \<noteq> None then ret StatusServiceUnavailable
         else do {
           err \<leftarrow> Sync (agWg h) (agAgent h) state;
           if isl err then ret StatusServiceUnavailable
           else if Err (apDatapath p) \<noteq> None then ret StatusServiceUnavailable
           else do {
             path' \<leftarrow> CheckPeerPath (netlinkOps (agWg h)) (PeerCIDR state);
             if path' \<noteq> None then ret StatusServiceUnavailable
             else do {
               gluetun \<leftarrow> GluetunHealthy h gluetunHealthURL;
               ret (if gluetun \<noteq> None then StatusServiceUnavailable else StatusOK)
             }
           }
         }
   }"

text \<open>
  The running process: it starts with a datapath that is not asserted yet and the first reading of the
  state; then file events, ticks and probes happen in any order, and between them the other programs of
  the pod change the world as \<open>others\<close> allows.
\<close>

datatype agentEvent = FileEvent fsEvent | Tick | Probe int | Outside

inductive agentStep ::
    "('w, 'k) agentHost \<Rightarrow> string \<Rightarrow> ('w \<Rightarrow> 'w \<Rightarrow> bool) \<Rightarrow> 'w agentProc \<times> 'w \<Rightarrow> agentEvent \<Rightarrow> 'w agentProc \<times> 'w \<Rightarrow> bool"
  for h path others where
  fsnotify: "run_state (watchEvent h path e p) w = (p', w') \<Longrightarrow> agentStep h path others (p, w) (FileEvent e) (p', w')"
| ticked: "run_state (reassert h path p) w = (p', w') \<Longrightarrow> agentStep h path others (p, w) Tick (p', w')"
| probed: "run_state (health h path p) w = (code, w') \<Longrightarrow> agentStep h path others (p, w) (Probe code) (p, w')"
| outside: "others w w' \<Longrightarrow> agentStep h path others (p, w) Outside (p, w')"

inductive agentReach ::
    "('w, 'k) agentHost \<Rightarrow> string \<Rightarrow> ('w \<Rightarrow> 'w \<Rightarrow> bool) \<Rightarrow> 'w agentProc \<times> 'w \<Rightarrow> bool"
  for h path others where
  start: "run_state (OnStateChange h path (New (agCombinedOutput h))) w = (Inr p, w') \<Longrightarrow> agentReach h path others (p, w')"
| step: "agentReach h path others s \<Longrightarrow> agentStep h path others s e s' \<Longrightarrow> agentReach h path others s'"

inductive_cases agentStepE: "agentStep h path others s e s'"

inductive_simps agentStep_Probe: "agentStep h path others (p, w) (Probe code) s'"

section \<open>Calls that leave something alone\<close>

definition netKeeps :: "('w \<Rightarrow> bool) \<Rightarrow> 'w netlink \<Rightarrow> bool" where
  "netKeeps I nl \<longleftrightarrow> (\<forall>n. maintains I (LinkByName nl n)) \<and> (\<forall>i. maintains I (LinkByIndex nl i))
     \<and> (\<forall>n m t. maintains I (LinkAdd nl n m t)) \<and> (\<forall>l m. maintains I (LinkSetMTU nl l m)) \<and> (\<forall>l. maintains I (LinkSetUp nl l))
     \<and> (\<forall>l. maintains I (AddrList nl l)) \<and> (\<forall>l a. maintains I (AddrAdd nl l a)) \<and> (\<forall>l a. maintains I (AddrDel nl l a))
     \<and> (\<forall>l. maintains I (RouteList nl l)) \<and> (\<forall>r. maintains I (RouteAdd nl r)) \<and> (\<forall>r. maintains I (RouteReplace nl r))
     \<and> (\<forall>a i s. maintains I (RouteGetFrom nl a i s)) \<and> maintains I (RuleList nl)
     \<and> (\<forall>r. maintains I (RuleAdd nl r)) \<and> (\<forall>r. maintains I (RuleDel nl r))"

definition hostKeeps :: "('w \<Rightarrow> bool) \<Rightarrow> 'w host \<Rightarrow> bool" where
  "hostKeeps I h \<longleftrightarrow> (\<forall>p m. maintains I (MkdirAll h p m)) \<and> (\<forall>p. maintains I (Stat h p)) \<and> (\<forall>p m d. maintains I (Mknod h p m d))
     \<and> (\<forall>p a. maintains I (StartProcess h p a)) \<and> maintains I (nowMillis h) \<and> (\<forall>t. maintains I (SleepMillis h t))"

definition wgKeeps :: "('w \<Rightarrow> bool) \<Rightarrow> ('w, 'k) wgctrl \<Rightarrow> bool" where
  "wgKeeps I c \<longleftrightarrow> maintains I (wgNew c) \<and> (\<forall>i. maintains I (wgDevice c i))
     \<and> (\<forall>i cfg. maintains I (wgConfigureDevice c i cfg)) \<and> maintains I (wgClose c)"

lemma SyncLink_maintains:
  assumes n: "netKeeps I nl" and h: "hostKeeps I h"
  shows "maintains I (SyncLink nl h iface mtu fallback)"
proof -
  have "maintains I (waitLoop fuel nl h iface timeout deadline)" for fuel timeout deadline
    by (induction fuel) (use n h in \<open>auto simp: netKeeps_def hostKeeps_def intro!: triple_rules split: sum.split\<close>)
  then have wait: "maintains I (waitForLink nl h iface timeout)" for timeout
    using h by (auto simp: waitForLink_def hostKeeps_def intro!: triple_rules)
  have user: "maintains I (createLinkUsingUserspaceImpl h iface fallback)"
    using h by (auto simp: createLinkUsingUserspaceImpl_def hostKeeps_def intro!: triple_rules split: sum.split statError.split)
  have "maintains I (createLink nl h iface mtu fallback)"
    using n by (auto simp: createLink_def createLinkUsingKernelModule_def netKeeps_def intro!: triple_rules user wait split: sum.split)
  then show ?thesis
    using n by (auto simp: SyncLink_def netKeeps_def intro!: triple_rules split: sum.split errno.split)
qed

lemma SyncAddress_maintains:
  assumes "netKeeps I nl"
  shows "maintains I (SyncAddress nl iface want)"
proof -
  have "maintains I (removeAddrs nl link ps)" for link ps
    by (induction ps) (use assms in \<open>auto simp: netKeeps_def intro!: triple_rules\<close>)
  then show ?thesis
    using assms by (auto simp: SyncAddress_def netKeeps_def Let_def intro!: triple_rules)
qed

lemma Sync_maintains:
  assumes n: "netKeeps I (netlinkOps h)" and o: "hostKeeps I (hostOps h)" and c: "wgKeeps I (ctl h)"
  shows "maintains I (Sync h wg st)"
proof -
  have route: "maintains I (syncRoute (netlinkOps h) iface cidr gw)" for iface cidr gw
    using n by (auto simp: syncRoute_def netKeeps_def intro!: triple_rules)
  have wire: "maintains I (syncWireguard h st iface port)" for iface port
    using c by (auto simp: syncWireguard_def CreateWireguardConfiguration_def createPeersConfiguration_def wgKeeps_def
        intro!: triple_rules)
  show ?thesis
    unfolding Sync_def Let_def
    by (auto intro!: triple_rules SyncLink_maintains [OF n o] SyncAddress_maintains [OF n] route wire split: sum.split)
qed

lemma CheckPeerPath_maintains:
  assumes "\<And>a i s. maintains I (RouteGetFrom nl a i s)" and "\<And>i. maintains I (LinkByIndex nl i)"
  shows "maintains I (CheckPeerPath nl cidr)"
proof -
  have "maintains I (lookupPeerPath nl a b)" for a b
    by (auto simp: lookupPeerPath_def intro!: triple_rules assms split: list.split)
  then show ?thesis by (auto simp: CheckPeerPath_def intro!: triple_rules split: sum.split)
qed

lemma GetDesiredState_maintains:
  "(\<And>f. maintains I (agReadFile h f)) \<Longrightarrow> maintains I (GetDesiredState h path)"
  by (auto simp: GetDesiredState_def intro!: triple_rules)

lemma GluetunHealthy_maintains: "(\<And>u. maintains I (agDo h u)) \<Longrightarrow> maintains I (GluetunHealthy h url)"
  by (auto simp: GluetunHealthy_def intro!: triple_rules split: option.split)

section \<open>What the process keeps\<close>

lemma Ensure_result:
  assumes laws: "iptLaws policyDrop ipt (dpRun d)" and run: "run_state (Ensure nl d cidr) w = ((err, d'), w')"
  shows "dpRun d' = dpRun d" and "Err d' = err" and "err = None \<Longrightarrow> policyDrop w'"
proof -
  show "dpRun d' = dpRun d" "Err d' = err"
    using run by (auto simp: Ensure_def Let_def recordErr_def Err_def split: sum.splits prod.splits)
  assume none: "err = None"
  then obtain p where "ParsePrefix cidr = Inr p"
    using run by (cases "ParsePrefix cidr") (auto simp: Ensure_def Let_def)
  then obtain x w1 y where y: "run_state (ensureIptables d (Masked p)) w1 = (y, w')" "err = joinErr (errOf x) (errOf y)"
    by (rule Ensure_run [OF _ run])
  then have "\<not> isl y" using none by (metis errOf_None joinErr_None)
  with triple_run [OF ensureIptables_triple [OF laws, of "policyDrop w1" "ipt w1"] _ y(1)]
  show "policyDrop w'" by simp
qed

text \<open>The program runs the host's iptables throughout, and an asserted datapath has the DROP policy.\<close>

definition agentInv :: "('w, 'k) agentHost \<Rightarrow> ('w \<Rightarrow> bool) \<Rightarrow> 'w Datapath \<Rightarrow> 'w \<Rightarrow> bool" where
  "agentInv h policyDrop dp w \<longleftrightarrow> dpRun dp = runIptables (agCombinedOutput h) \<and> (Err dp = None \<longrightarrow> policyDrop w)"

definition agentKeeps :: "('w \<Rightarrow> bool) \<Rightarrow> ('w, 'k) agentHost \<Rightarrow> bool" where
  "agentKeeps I h \<longleftrightarrow> netKeeps I (netlinkOps (agWg h)) \<and> hostKeeps I (hostOps (agWg h)) \<and> wgKeeps I (ctl (agWg h))
     \<and> (\<forall>f. maintains I (agReadFile h f)) \<and> (\<forall>u. maintains I (agDo h u))
     \<and> (\<forall>d. maintains I (agWatchAdd h d))"

lemma Ensure_inv:
  assumes "iptLaws policyDrop ipt (runIptables (agCombinedOutput h))" and "agentInv h policyDrop d w"
    and "run_state (Ensure nl d cidr) w = ((err, d'), w')"
  shows "agentInv h policyDrop d' w'"
  using assms Ensure_result [of policyDrop ipt d nl cidr w err d' w'] by (auto simp: agentInv_def)

lemma agentInv_maintains:
  "agentInv h P dp w \<Longrightarrow> maintains P m \<Longrightarrow> run_state m w = (r, w') \<Longrightarrow> agentInv h P dp w'"
  by (auto simp: agentInv_def dest: maintains_run)

lemma passOn_inv:
  assumes laws: "iptLaws P ipt (runIptables (agCombinedOutput h))" and keeps: "agentKeeps P h"
    and inv: "agentInv h P dp w" and run: "run_state (passOn h dp d) w = (p, w')"
  shows "agentInv h P (apDatapath p) w'"
proof (cases "snd d")
  case None
  then show ?thesis using run inv by (auto simp: passOn_def split: prod.splits)
next
  case (Some state)
  let ?sync = "Sync (agWg h) (agAgent h) state"
  obtain e w1 where e: "run_state ?sync w = (e, w1)" by force
  have sync: "maintains P ?sync" using keeps by (auto simp: agentKeeps_def intro!: Sync_maintains)
  note inv1 = agentInv_maintains [OF inv sync e]
  show ?thesis
  proof (cases e)
    case (Inl x)
    then show ?thesis using run Some e inv1 by (auto simp: passOn_def receiveState_def split: prod.splits)
  next
    case (Inr u)
    obtain err dp' w2 where ens: "run_state (Ensure (netlinkOps (agWg h)) dp (PeerCIDR state)) w1 = ((err, dp'), w2)"
      by (metis prod.exhaust)
    then have "apDatapath p = dp'" "w' = w2"
      using run Some e Inr by (auto simp: passOn_def receiveState_def split: prod.splits)
    then show ?thesis using Ensure_inv [OF laws inv1 ens] by simp
  qed
qed

lemma reassert_inv:
  assumes laws: "iptLaws P ipt (runIptables (agCombinedOutput h))" and keeps: "agentKeeps P h"
    and inv: "agentInv h P (apDatapath p) w" and run: "run_state (reassert h path p) w = (p', w')"
  shows "agentInv h P (apDatapath p') w'"
proof -
  obtain r w1 where r: "run_state (GetDesiredState h path) w = (r, w1)" by force
  have "maintains P (GetDesiredState h path)"
    using keeps by (auto simp: agentKeeps_def intro!: GetDesiredState_maintains)
  note inv1 = agentInv_maintains [OF inv this r]
  show ?thesis
  proof (cases r)
    case (Inl x)
    then show ?thesis using run r inv1 by (auto simp: reassert_def)
  next
    case (Inr sd)
    obtain state hash where sd: "sd = (state, hash)" by force
    obtain err dp' w2 where ens: "run_state (Ensure (netlinkOps (agWg h)) (apDatapath p) (PeerCIDR state)) w1 = ((err, dp'), w2)"
      by (metis prod.exhaust)
    then have "apDatapath p' = dp'" "w' = w2" using run r Inr sd by (auto simp: reassert_def)
    then show ?thesis using Ensure_inv [OF laws inv1 ens] by simp
  qed
qed

lemma health_maintains: "agentKeeps I h \<Longrightarrow> maintains I (health h path p)"
  unfolding health_def agentKeeps_def
  by (auto simp: netKeeps_def [of I "netlinkOps (agWg h)"] intro!: triple_rules GetDesiredState_maintains Sync_maintains CheckPeerPath_maintains GluetunHealthy_maintains
      split: sum.split)

lemma agentReach_inv:
  assumes laws: "iptLaws P ipt (runIptables (agCombinedOutput h))" and keeps: "agentKeeps P h"
    and others: "\<And>w w'. others w w' \<Longrightarrow> P w \<Longrightarrow> P w'" and reach: "agentReach h path others s"
  shows "agentInv h P (apDatapath (fst s)) (snd s)"
  using reach
proof induction
  case (start w p w')
  then obtain w0 r w1 w2 where r: "run_state (GetDesiredState h path) w0 = (r, w1)"
    and p: "run_state (passOn h (New (agCombinedOutput h)) (onStart r)) w1 = (p, w2)"
    and add: "run_state (agWatchAdd h (Dir path)) w2 = (Inr (), w')"
    by (auto simp: OnStateChange_def split: prod.splits sum.splits)
  have "agentInv h P (New (agCombinedOutput h)) w1" by (simp add: agentInv_def New_def Err_def)
  then have "agentInv h P (apDatapath p) w2" by (rule passOn_inv [OF laws keeps _ p])
  moreover have "maintains P (agWatchAdd h (Dir path))" using keeps by (simp add: agentKeeps_def)
  ultimately show ?case using agentInv_maintains add by fastforce
next
  case (step s e s')
  obtain p w where s: "s = (p, w)" by force
  have inv: "agentInv h P (apDatapath p) w" using step.IH s by simp
  from step.hyps(2) show ?case
    unfolding s
  proof (rule agentStepE)
    fix ev p0 w0 p' w' assume *: "(p, w) = (p0, w0)" "s' = (p', w')" "run_state (watchEvent h path ev p0) w0 = (p', w')"
    show ?thesis
    proof (cases "evWrite ev \<or> evCreate ev")
      case True
      obtain r w1 where r: "run_state (GetDesiredState h path) w = (r, w1)" by force
      have "maintains P (GetDesiredState h path)"
        using keeps by (auto simp: agentKeeps_def intro!: GetDesiredState_maintains)
      note inv1 = agentInv_maintains [OF inv this r]
      have "run_state (passOn h (apDatapath p) (onEvent (apHash p) r)) w1 = (p', w')"
        using * True r by (simp add: watchEvent_def)
      from passOn_inv [OF laws keeps inv1 this] show ?thesis using * by simp
    qed (use * inv in \<open>simp add: watchEvent_def\<close>)
  next
    fix p0 w0 p' w' assume *: "(p, w) = (p0, w0)" "s' = (p', w')" "run_state (reassert h path p0) w0 = (p', w')"
    then have "run_state (reassert h path p) w = (p', w')" by simp
    from reassert_inv [OF laws keeps inv this] show ?thesis using * by simp
  next
    fix p0 w0 code w' assume *: "(p, w) = (p0, w0)" "s' = (p0, w')" "run_state (health h path p0) w0 = (code, w')"
    then show ?thesis using agentInv_maintains [OF inv health_maintains [OF keeps]] by auto
  next
    fix w0 w' p0 assume "(p, w) = (p0, w0)" "s' = (p0, w')" "others w0 w'"
    then show ?thesis using inv others by (auto simp: agentInv_def)
  qed
qed

text \<open>What a positive probe went through.\<close>

lemma health_OK:
  assumes "run_state (health h path p) w = (StatusOK, w')"
  obtains st hash w1 w2 w3 where "run_state (GetDesiredState h path) w = (Inr (st, hash), w1)" and "IsStateValid st = None"
    and "run_state (Sync (agWg h) (agAgent h) st) w1 = (Inr (), w2)" and "Err (apDatapath p) = None"
    and "run_state (CheckPeerPath (netlinkOps (agWg h)) (PeerCIDR st)) w2 = (None, w3)"
    and "run_state (GluetunHealthy h gluetunHealthURL) w3 = (None, w')"
proof -
  obtain r w1 where r: "run_state (GetDesiredState h path) w = (r, w1)" by force
  have no: "StatusOK \<noteq> StatusServiceUnavailable" by (simp add: StatusOK_def StatusServiceUnavailable_def)
  then obtain st hash where st: "r = Inr (st, hash)" "IsStateValid st = None"
    using assms r by (cases r) (auto simp: health_def split: if_splits)
  obtain e w2 where e: "run_state (Sync (agWg h) (agAgent h) st) w1 = (e, w2)" by force
  obtain q w3 where q: "run_state (CheckPeerPath (netlinkOps (agWg h)) (PeerCIDR st)) w2 = (q, w3)" by force
  obtain g w4 where g: "run_state (GluetunHealthy h gluetunHealthURL) w3 = (g, w4)" by force
  have "\<not> isl e" "Err (apDatapath p) = None" "q = None" "g = None" "w4 = w'"
    using assms r st e q g no by (auto simp: health_def split: if_splits)
  then show thesis using that [of st hash w1 w2 w3] r st e q g by (cases e) auto
qed

section \<open>Properties\<close>

definition probeKeeps :: "('w \<Rightarrow> bool) \<Rightarrow> ('w, 'k) agentHost \<Rightarrow> bool" where
  "probeKeeps I h \<longleftrightarrow> (\<forall>a i s. maintains I (RouteGetFrom (netlinkOps (agWg h)) a i s))
     \<and> (\<forall>i. maintains I (LinkByIndex (netlinkOps (agWg h)) i)) \<and> (\<forall>u. maintains I (agDo h u))"



text \<open>A pod whose state file holds the example state, with gluetun's tunnel up.\<close>

definition simAgentHost :: "(netSim, 8 word) agentHost" where
  "simAgentHost = \<lparr>agWg = simWg, agAgent = simAgent, agReadFile = (\<lambda>_. ret (Inr ''{}'')),
     agUnmarshal = (\<lambda>_. Inr exampleState), agDigest = (\<lambda>s. s), agNewRequest = (\<lambda>_. None),
     agDo = (\<lambda>_. ret (Inr (200, []))), agCombinedOutput = (\<lambda>args. mapErr (\<lambda>e. (e, [])) (simIptables args)),
     agNewWatcher = ret (Inr ()), agWatchAdd = (\<lambda>_. ret (Inr ()))\<rparr>"

definition simGateway :: netSim where
  "simGateway = simNet\<lparr>nsLinks := [\<lparr>lnIndex = 7, lnName = ''wg0'', lnMTU = 1420\<rparr>, \<lparr>lnIndex = 2, lnName = ''tun0'', lnMTU = 1320\<rparr>]\<rparr>"

lemma mapErr_mapErr: "mapErr f (mapErr g m) = mapErr (\<lambda>e. f (g e)) m"
  by (rule state.expand, rule ext) (auto split: prod.splits sum.splits)

lemma iptLaws_mapErr: "iptLaws P ipt run \<Longrightarrow> iptLaws P ipt (\<lambda>args. mapErr g (run args))"
  unfolding iptLaws_def by (intro allI conjI; elim allE conjE) (erule triple_mapErr; simp)+

lemma simAgentHost_laws:
  "iptLaws nsDrop (\<lambda>w. image_mset simRule (mset (nsIptables w))) (runIptables (agCombinedOutput simAgentHost))"
  "agentKeeps nsDrop simAgentHost" "probeKeeps (\<lambda>w. simView (nsPeers w) = v) simAgentHost"
proof -
  have "runIptables (agCombinedOutput simAgentHost) = (\<lambda>args. mapErr (\<lambda>e. NoteErr e (TrimSpace [])) (simIptables args))"
    by (simp add: simAgentHost_def runIptables_def [abs_def] mapErr_mapErr)
  then show "iptLaws nsDrop (\<lambda>w. image_mset simRule (mset (nsIptables w))) (runIptables (agCombinedOutput simAgentHost))"
    using iptLaws_mapErr [OF iptLaws_sim] by simp
  show "agentKeeps nsDrop simAgentHost"
    by (simp add: agentKeeps_def simAgentHost_def simWg_def netKeeps_def hostKeeps_def wgKeeps_def simNetlink_def simHost_def
        simWgctrl_def maintains_def triple_def)
  show "probeKeeps (\<lambda>w. simView (nsPeers w) = v) simAgentHost"
    by (simp add: probeKeeps_def simAgentHost_def simWg_def simNetlink_def maintains_def triple_def)
qed


lemma IsStateValid_iff:
  "IsStateValid st = None \<longleftrightarrow> length (ServerPrivateKey st) = 44 \<and> (\<forall>p \<in> set (Peers st). address p \<noteq> [] \<and> publicKey p \<noteq> [])"
proof -
  have "peersProblem i ps = None \<longleftrightarrow> (\<forall>p \<in> set ps. address p \<noteq> [] \<and> publicKey p \<noteq> [])" for i ps
    by (induction ps arbitrary: i) auto
  then show ?thesis by (auto simp: IsStateValid_def)
qed

text \<open>
  The states that the watcher passes on over its lifetime: \<open>r0\<close> is what the first reading returns, and \<open>rs\<close>
  what the reading after each write or create event returns.
\<close>

definition passedOn :: "State option \<Rightarrow> State list" where
  "passedOn s = (case s of None \<Rightarrow> [] | Some st \<Rightarrow> [st])"

fun watchEvents :: "string \<Rightarrow> (goError + (State \<times> string)) list \<Rightarrow> State list" where
  "watchEvents hash [] = []"
| "watchEvents hash (r # rs) = (let (hash', s) = onEvent hash r in passedOn s @ watchEvents hash' rs)"

definition watchHistory :: "goError + (State \<times> string) \<Rightarrow> (goError + (State \<times> string)) list \<Rightarrow> State list" where
  "watchHistory r0 rs = (let (hash, s) = onStart r0 in passedOn s @ watchEvents hash rs)"

definition readings :: "(goError + (State \<times> string)) list \<Rightarrow> (State \<times> string) list" where
  "readings rs = map projr (filter (\<lambda>r. \<not> isl r) rs)"

lemma readings_simps [simp]:
  "readings [] = []" "readings (Inl e # rs) = readings rs" "readings (Inr x # rs) = x # readings rs"
  by (simp_all add: readings_def)

abbreviation validStates :: "(State \<times> string) list \<Rightarrow> State list" where
  "validStates xs \<equiv> filter (\<lambda>st. IsStateValid st = None) (map fst xs)"

lemma validStates_Cons: "validStates (x # xs) = passedOn (if IsStateValid (fst x) = None then Some (fst x) else None) @ validStates xs"
  by (simp add: passedOn_def)

lemma watchEvents_after:
  assumes "\<And>y z. y \<in> set (x # readings rs) \<Longrightarrow> z \<in> set (x # readings rs) \<Longrightarrow> snd y = snd z \<Longrightarrow> y = z"
  shows "watchEvents (snd x) rs = validStates (tl (remdups_adj (x # readings rs)))"
  using assms
proof (induction rs arbitrary: x)
  case (Cons r rs)
  show ?case
  proof (cases r)
    case (Inl e)
    then show ?thesis using Cons.IH [of x] Cons.prems by (simp add: onEvent_def passedOn_def)
  next
    case (Inr y)
    have sub: "a = b" if "a \<in> set (y # readings rs)" "b \<in> set (y # readings rs)" "snd a = snd b" for a b
      using Cons.prems [of a b] that Inr by simp
    have ih: "watchEvents (snd y) rs = validStates (tl (remdups_adj (y # readings rs)))"
      by (rule Cons.IH) (rule sub)
    show ?thesis
    proof (cases "snd y = snd x")
      case True
      then have "y = x" using Cons.prems [of y x] Inr by simp
      then show ?thesis using ih Inr by (simp add: onEvent_def passedOn_def case_prod_beta)
    next
      case False
      have "watchEvents (snd x) (r # rs) = passedOn (if IsStateValid (fst y) = None then Some (fst y) else None) @ watchEvents (snd y) rs"
        using Inr False by (simp add: onEvent_def case_prod_beta)
      also have "\<dots> = validStates (y # tl (remdups_adj (y # readings rs)))"
        unfolding ih by (simp only: validStates_Cons)
      also have "y # tl (remdups_adj (y # readings rs)) = remdups_adj (y # readings rs)"
        by (cases "remdups_adj (y # readings rs)") (auto dest: arg_cong [where f = hd])
      finally have "watchEvents (snd x) (r # rs) = validStates (remdups_adj (y # readings rs))" .
      moreover have "x \<noteq> y" using False by auto
      ultimately show ?thesis using Inr by (simp del: watchEvents.simps)
    qed
  qed
qed simp

lemma watchEvents_first:
  assumes "\<And>y z. y \<in> set (readings rs) \<Longrightarrow> z \<in> set (readings rs) \<Longrightarrow> snd y = snd z \<Longrightarrow> y = z"
    and "\<And>y. y \<in> set (readings rs) \<Longrightarrow> snd y \<noteq> []"
  shows "watchEvents [] rs = validStates (remdups_adj (readings rs))"
  using assms
proof (induction rs)
  case (Cons r rs)
  show ?case
  proof (cases r)
    case (Inl e)
    then show ?thesis using Cons by (simp add: onEvent_def passedOn_def)
  next
    case (Inr y)
    have "watchEvents [] (r # rs) = passedOn (if IsStateValid (fst y) = None then Some (fst y) else None) @ watchEvents (snd y) rs"
      using Inr Cons.prems(2) [of y] by (auto simp: onEvent_def case_prod_beta)
    also have "\<dots> = validStates (y # tl (remdups_adj (y # readings rs)))"
      using Cons.prems(1) Inr by (subst watchEvents_after) (simp_all only: validStates_Cons readings_simps)
    also have "y # tl (remdups_adj (y # readings rs)) = remdups_adj (y # readings rs)"
      by (cases "remdups_adj (y # readings rs)") (auto dest: arg_cong [where f = hd])
    finally show ?thesis using Inr by simp
  qed
qed simp

text \<open>
  C28. The watcher passes on each state of the file exactly once: over any history of readings, failed ones
  included, the states it passes on are those of the file's successive contents, adjacent repetitions
  removed, that are valid, in order. So a repeated event causes no second synchronisation, no change of
  content is missed, and an unreadable or invalid state never replaces the one in force. This relies on
  digests that are not empty and that differ for different contents.
\<close>

theorem watchHistory_exact:
  assumes "\<And>x y. x \<in> set (readings (r0 # rs)) \<Longrightarrow> y \<in> set (readings (r0 # rs)) \<Longrightarrow> snd x = snd y \<Longrightarrow> x = y"
    and "\<And>x. x \<in> set (readings (r0 # rs)) \<Longrightarrow> snd x \<noteq> []"
  shows "watchHistory r0 rs = filter (\<lambda>st. IsStateValid st = None) (map fst (remdups_adj (readings (r0 # rs))))"
proof -
  have "watchHistory r0 rs = watchEvents [] (r0 # rs)"
    using assms(2) by (cases r0) (auto simp: watchHistory_def onStart_def onEvent_def case_prod_beta passedOn_def)
  also have "\<dots> = validStates (remdups_adj (readings (r0 # rs)))"
    by (rule watchEvents_first) (fact assms)+
  finally show ?thesis .
qed

definition exampleReadings :: "(goError + (State \<times> string)) list" where
  "exampleReadings = [Inr (exampleState, ''d1''), Inr (exampleState, ''d1''), Inr (exampleState\<lparr>ServerPrivateKey := []\<rparr>, ''d2''),
     Inl (ErrorText ''unexpected end of JSON input''), Inr (exampleState\<lparr>Peers := []\<rparr>, ''d3'')]"

text \<open>A missing file, a state, the same state again, one without a key, half a file, and another state.\<close>

theorem watchHistory_exact_witness:
  "map (\<lambda>st. length (Peers st)) (watchHistory (Inl (ErrorText ''no such file'')) exampleReadings) = [3, 0]"
proof -
  let ?a = "(exampleState, ''d1'')" and ?b = "(exampleState\<lparr>ServerPrivateKey := []\<rparr>, ''d2'')"
    and ?c = "(exampleState\<lparr>Peers := []\<rparr>, ''d3'')"
  have r: "readings (Inl (ErrorText ''no such file'') # exampleReadings) = [?a, ?a, ?b, ?c]"
    by (simp add: exampleReadings_def)
  have "watchHistory (Inl (ErrorText ''no such file'')) exampleReadings
      = filter (\<lambda>st. IsStateValid st = None) (map fst (remdups_adj [?a, ?a, ?b, ?c]))"
    unfolding r [symmetric] by (rule watchHistory_exact) (auto simp: exampleReadings_def)
  also have "remdups_adj [?a, ?a, ?b, ?c] = [?a, ?b, ?c]" by simp
  finally have "watchHistory (Inl (ErrorText ''no such file'')) exampleReadings
      = filter (\<lambda>st. IsStateValid st = None) [exampleState, exampleState\<lparr>ServerPrivateKey := []\<rparr>, exampleState\<lparr>Peers := []\<rparr>]"
    by simp
  moreover have "map (\<lambda>st. length (Peers st)) (filter (\<lambda>st. IsStateValid st = None)
      [exampleState, exampleState\<lparr>ServerPrivateKey := []\<rparr>, exampleState\<lparr>Peers := []\<rparr>]) = [3, 0]"
    by code_simp
  ultimately show ?thesis by (simp only:)
qed

end
