(* ===== verification/Registration.thy ===== *)
theory Registration
  imports Kernel Peers
begin

text \<open>
  How a client sidecar registers its pod, \<open>src/internal/sidecar/config.go\<close>, \<open>key.go\<close> and
  \<open>peer.go\<close>: the configuration read from the environment, the private key kept in a file, and
  the WireguardPeer named after the pod.

  The file system, the key generator and the Kubernetes client are parameters. The reader of the client
  is a watch cache, so what it returns may be older than what the API server holds: the safety theorem
  about \<open>ensurePeer\<close> assumes nothing of its answers.
\<close>

section \<open>Configuration\<close>

definition DefaultKeyPath :: string where "DefaultKeyPath = ''/var/run/wireguard/key''"

record Config =
  cfgWireguard :: string
  cfgWireguardNamespace :: string
  cfgKeyPath :: string
  cfgPodName :: string
  cfgPodNamespace :: string
  cfgPodUID :: string

definition podEnv :: "string list" where
  "podEnv = [''POD_NAME'', ''POD_NAMESPACE'', ''POD_UID'', ''POD_IP'', ''HOST_IP'']"

text \<open>The name and the namespace that \<^verbatim>\<open>--wireguard\<close> gives: \<open>name\<close> or \<open>namespace/name\<close>.\<close>

definition parseWireguard :: "string \<Rightarrow> goError + string \<times> string" where
  "parseWireguard wireguard =
     (case Cut CHR ''/'' wireguard of
        None \<Rightarrow> Inr (wireguard, [])
      | Some (ns, n) \<Rightarrow>
        if ns = [] \<or> n = [] \<or> CHR ''/'' \<in> set n
        then Inl (ErrorText (''--wireguard '' @ fmtQ wireguard @ '' must be a name or namespace/name''))
        else Inr (n, ns))"

definition ConfigFromEnv :: "string \<Rightarrow> string \<Rightarrow> (string \<Rightarrow> string) \<Rightarrow> goError + Config" where
  "ConfigFromEnv wireguard keyPath getenv =
     (if wireguard = [] then Inl (ErrorText ''--wireguard is required'')
      else case parseWireguard wireguard of
        Inl e \<Rightarrow> Inl e
      | Inr (name, namespace) \<Rightarrow>
        let missing = filter (\<lambda>name. getenv name = []) podEnv in
        if missing \<noteq> [] then Inl (ErrorText (''missing environment: '' @ Join '', '' missing))
        else let podIP = getenv ''POD_IP'' in
          if podIP = getenv ''HOST_IP''
          then Inl (ErrorText (''refusing to start: POD_IP '' @ podIP
            @ '' equals HOST_IP, so the pod shares the node's network namespace and replacing its default route would cut the node off''))
          else Inr \<lparr>cfgWireguard = name, cfgWireguardNamespace = namespace, cfgKeyPath = keyPath,
            cfgPodName = getenv ''POD_NAME'', cfgPodNamespace = getenv ''POD_NAMESPACE'',
            cfgPodUID = getenv ''POD_UID''\<rparr>)"

section \<open>The private key\<close>

text \<open>
  The calls of \<^verbatim>\<open>os\<close> and of \<open>wgtypes\<close> that \<^verbatim>\<open>LoadOrCreateKey\<close> makes. The file that \<^verbatim>\<open>OpenFile\<close>
  returns is named by its path.
\<close>

record ('w, 'k) keyStore =
  ReadFile :: "string \<Rightarrow> ('w, statError, string) io"
  OpenExcl :: "string \<Rightarrow> int \<Rightarrow> ('w, string, unit) io"
  WriteString :: "string \<Rightarrow> string \<Rightarrow> ('w, string, unit) io"
  CloseFile :: "string \<Rightarrow> ('w, string, unit) io"
  NewPrivateKey :: "('w, string, 'k) io"

text \<open>The tail of \<^verbatim>\<open>LoadOrCreateKey\<close>: the deferred close joins its error to the one of the write.\<close>

definition storeKey :: "'k wgKeys \<Rightarrow> ('w, 'k) keyStore \<Rightarrow> string \<Rightarrow> 'k \<Rightarrow> ('w, goError, 'k) io" where
  "storeKey K s path key = (let wrap = (\<lambda>e. WrapErr (''write key '' @ path) (ErrorText e)) in
     bindE (mapErr wrap (OpenExcl s path 384)) (\<lambda>_. do {
       r \<leftarrow> WriteString s path (KeyString K key);
       c \<leftarrow> CloseFile s path;
       ret (case joinErr (case r of Inl e \<Rightarrow> Some (wrap e) | Inr _ \<Rightarrow> None)
                         (case c of Inl e \<Rightarrow> Some (wrap e) | Inr _ \<Rightarrow> None) of
              None \<Rightarrow> Inr key
            | Some e \<Rightarrow> Inl e)
     }))"

definition LoadOrCreateKey :: "'k wgKeys \<Rightarrow> ('w, 'k) keyStore \<Rightarrow> string \<Rightarrow> ('w, goError, 'k) io" where
  "LoadOrCreateKey K s path = do {
     content \<leftarrow> ReadFile s path;
     case content of
       Inr text \<Rightarrow> ret (case ParseKey K (TrimSpace text) of
           None \<Rightarrow> Inl (WrapErr (''key file '' @ path @ '' holds no valid WireGuard key'')
             (ErrorText ''wgtypes: failed to parse key''))
         | Some key \<Rightarrow> Inr key)
     | Inl (StatError e) \<Rightarrow> ret (Inl (WrapErr (''read key '' @ path) (ErrorText e)))
     | Inl NotExist \<Rightarrow>
         bindE (mapErr (\<lambda>e. WrapErr ''generate key'' (ErrorText e)) (NewPrivateKey s)) (storeKey K s path)
   }"

section \<open>The WireguardPeer of the pod\<close>

datatype peerAction = actionCreate | actionKeep | actionReplace | actionRefuse

definition desiredPeer :: "Config \<Rightarrow> string \<Rightarrow> WireguardPeer" where
  "desiredPeer cfg key = \<lparr>
     peerMeta = (newMeta (cfgPodName cfg) (cfgPodNamespace cfg))\<lparr>OwnerReferences :=
       [\<lparr>orAPIVersion = ''v1'', orKind = ''Pod'', orName = cfgPodName cfg, orUID = cfgPodUID cfg,
         orController = Some True\<rparr>]\<rparr>,
     peerSpec = \<lparr>spec_PublicKey = key, spec_WireguardRef = cfgWireguard cfg,
       spec_WireguardNamespace = cfgWireguardNamespace cfg\<rparr>,
     peerStatus = emptyPeerStatus\<rparr>"

text \<open>
  \<^verbatim>\<open>metav1.GetControllerOf\<close> and the three calls of the client. A delete carries the UID it is
  preconditioned on.
\<close>

record 'w peerClient =
  GetControllerOf :: "ObjectMeta \<Rightarrow> OwnerReference option"
  getPeer :: "NamespacedName \<Rightarrow> ('w, apiError, WireguardPeer) io"
  deletePeer :: "WireguardPeer \<Rightarrow> string \<Rightarrow> ('w, apiError, unit) io"
  createPeer :: "WireguardPeer \<Rightarrow> ('w, apiError, unit) io"

definition controlledByPod :: "'w peerClient \<Rightarrow> WireguardPeer \<Rightarrow> bool" where
  "controlledByPod c p = (case GetControllerOf c (peerMeta p) of
     None \<Rightarrow> False | Some ref \<Rightarrow> orAPIVersion ref = ''v1'' \<and> orKind ref = ''Pod'')"

text \<open>The UID of the controller; \<open>want\<close>, which \<open>desiredPeer\<close> builds, always has one.\<close>

definition decidePeer :: "'w peerClient \<Rightarrow> WireguardPeer option \<Rightarrow> WireguardPeer \<Rightarrow> peerAction" where
  "decidePeer c existing want =
     (case existing of
        None \<Rightarrow> actionCreate
      | Some peer \<Rightarrow>
        if \<not> controlledByPod c peer then actionRefuse
        else if map_option orUID (GetControllerOf c (peerMeta peer))
              \<noteq> map_option orUID (GetControllerOf c (peerMeta want)) then actionReplace
        else if publicKey peer \<noteq> publicKey want
           \<or> spec_WireguardRef (peerSpec peer) \<noteq> spec_WireguardRef (peerSpec want)
           \<or> spec_WireguardNamespace (peerSpec peer) \<noteq> spec_WireguardNamespace (peerSpec want)
          then actionReplace
        else actionKeep)"

definition createMine :: "'w peerClient \<Rightarrow> string \<Rightarrow> WireguardPeer \<Rightarrow> ('w, goError, WireguardPeer option) io" where
  "createMine c what want = do {
     r \<leftarrow> createPeer c want;
     ret (case r of
            Inl e \<Rightarrow> if e = AlreadyExists then Inr None
                     else Inl (WrapErr (''create WireguardPeer '' @ what) (ApiErr e))
          | Inr _ \<Rightarrow> Inr None)
   }"

definition ensurePeer :: "'w peerClient \<Rightarrow> Config \<Rightarrow> string \<Rightarrow> ('w, goError, WireguardPeer option) io" where
  "ensurePeer c cfg key =
     (let nn = NamespacedName (cfgPodNamespace cfg) (cfgPodName cfg); what = nnString nn;
          want = desiredPeer cfg key in
      bindE
        (do { got \<leftarrow> getPeer c nn;
              ret (case got of
                     Inr p \<Rightarrow> Inr (Some p)
                   | Inl e \<Rightarrow> if e = NotFound then Inr None
                              else Inl (WrapErr (''get WireguardPeer '' @ what) (ApiErr e))) })
        (\<lambda>existing.
          case (decidePeer c existing want, existing) of
            (actionKeep, _) \<Rightarrow> ret (Inr existing)
          | (actionRefuse, _) \<Rightarrow> ret (Inl (ErrorText (''WireguardPeer '' @ what
              @ '' exists and no Pod controls it, so this pod cannot register under its name'')))
          | (actionReplace, Some old) \<Rightarrow> do {
              r \<leftarrow> deletePeer c old (UID (peerMeta old));
              case r of
                Inl e \<Rightarrow> if e = NotFound \<or> e = Conflict then createMine c what want
                         else ret (Inl (WrapErr (''delete stale WireguardPeer '' @ what) (ApiErr e)))
              | Inr _ \<Rightarrow> createMine c what want
            }
          | _ \<Rightarrow> createMine c what want))"


section \<open>The environment\<close>

lemma parseWireguard_iff:
  assumes "wg \<noteq> []"
  shows "parseWireguard wg = Inr (n, ns) \<longleftrightarrow>
     wg = (if ns = [] then n else nnString (NamespacedName ns n)) \<and> n \<noteq> [] \<and> CHR ''/'' \<notin> set n \<and> CHR ''/'' \<notin> set ns"
proof (cases "Cut CHR ''/'' wg")
  case None
  then show ?thesis
    using assms None [unfolded Cut_None] by (auto simp: parseWireguard_def nnString_def)
next
  case (Some ab)
  then obtain a b where ab: "Cut CHR ''/'' wg = Some (a, b)" by (cases ab) simp
  then have wg: "wg = a @ CHR ''/'' # b" "CHR ''/'' \<notin> set a" by (simp_all add: Cut_Some)
  have "a @ CHR ''/'' # b = ns @ CHR ''/'' # n \<and> CHR ''/'' \<notin> set ns \<longleftrightarrow> a = ns \<and> b = n"
    using ab by (metis Cut_Some Pair_inject option.inject wg)
  then show ?thesis
    using ab wg by (auto simp: parseWireguard_def nnString_def)
qed

text \<open>
  C36. The sidecar starts exactly with a configuration whose gateway name prints as the \<^verbatim>\<open>--wireguard\<close>
  flag it was given, as a name or as \<open>namespace/name\<close>, whose identity is that of the environment, and
  with a pod address that differs from the host's: every variable is set, and a pod in the node's
  network namespace is refused.
\<close>

theorem ConfigFromEnv_exact:
  "ConfigFromEnv wg path env = Inr cfg \<longleftrightarrow>
     wg = (if cfgWireguardNamespace cfg = [] then cfgWireguard cfg
           else nnString (NamespacedName (cfgWireguardNamespace cfg) (cfgWireguard cfg)))
     \<and> cfgWireguard cfg \<noteq> [] \<and> CHR ''/'' \<notin> set (cfgWireguard cfg) \<and> CHR ''/'' \<notin> set (cfgWireguardNamespace cfg)
     \<and> cfgKeyPath cfg = path \<and> cfgPodName cfg = env ''POD_NAME'' \<and> cfgPodNamespace cfg = env ''POD_NAMESPACE''
     \<and> cfgPodUID cfg = env ''POD_UID'' \<and> list_all (\<lambda>v. env v \<noteq> []) podEnv \<and> env ''POD_IP'' \<noteq> env ''HOST_IP''"
proof (cases "wg = []")
  case True
  then show ?thesis by (auto simp: ConfigFromEnv_def nnString_def)
next
  case False
  have missing: "filter (\<lambda>v. env v = []) podEnv \<noteq> [] \<longleftrightarrow> \<not> list_all (\<lambda>v. env v \<noteq> []) podEnv"
    by (auto simp: list_all_iff filter_empty_conv)
  have "ConfigFromEnv wg path env = Inr cfg \<longleftrightarrow> (\<exists>n ns. parseWireguard wg = Inr (n, ns)
      \<and> list_all (\<lambda>v. env v \<noteq> []) podEnv \<and> env ''POD_IP'' \<noteq> env ''HOST_IP''
      \<and> cfg = \<lparr>cfgWireguard = n, cfgWireguardNamespace = ns, cfgKeyPath = path, cfgPodName = env ''POD_NAME'',
          cfgPodNamespace = env ''POD_NAMESPACE'', cfgPodUID = env ''POD_UID''\<rparr>)"
    using False by (auto simp: ConfigFromEnv_def Let_def missing split: sum.split if_splits)
  also have "\<dots> \<longleftrightarrow> parseWireguard wg = Inr (cfgWireguard cfg, cfgWireguardNamespace cfg)
      \<and> list_all (\<lambda>v. env v \<noteq> []) podEnv \<and> env ''POD_IP'' \<noteq> env ''HOST_IP''
      \<and> cfgKeyPath cfg = path \<and> cfgPodName cfg = env ''POD_NAME''
      \<and> cfgPodNamespace cfg = env ''POD_NAMESPACE'' \<and> cfgPodUID cfg = env ''POD_UID''"
    by (cases cfg) auto
  finally show ?thesis
    by (simp only: parseWireguard_iff [OF False]) blast
qed

section \<open>The key file\<close>

text \<open>
  What the calls promise of the file at \<open>path\<close>, whose content is \<open>view\<close>: an exclusive create succeeds
  only where there is no file, and a write that succeeds has appended its whole argument.
\<close>

definition keyFileLaws :: "('w \<Rightarrow> string option) \<Rightarrow> ('w, 'k) keyStore \<Rightarrow> string \<Rightarrow> bool" where
  "keyFileLaws view s path \<longleftrightarrow> (\<forall>c t m.
     triple (\<lambda>w. view w = c) (ReadFile s path)
       (\<lambda>r w. view w = c \<and> (\<forall>u. r = Inr u \<longrightarrow> c = Some u) \<and> (r = Inl NotExist \<longrightarrow> c = None))
     \<and> triple (\<lambda>w. view w = c) (NewPrivateKey s) (\<lambda>_ w. view w = c)
     \<and> triple (\<lambda>w. view w = c) (OpenExcl s path m)
         (\<lambda>r w. if isl r then view w = c else c = None \<and> view w = Some [])
     \<and> triple (\<lambda>w. view w = Some []) (WriteString s path t) (\<lambda>r w. \<not> isl r \<longrightarrow> view w = Some t)
     \<and> triple (\<lambda>w. view w = c) (CloseFile s path) (\<lambda>_ w. view w = c))"

text \<open>A key is spelled in base64, which has no white space.\<close>

definition plainKeys :: "'k wgKeys \<Rightarrow> bool" where
  "plainKeys K \<longleftrightarrow> (\<forall>k. list_all (\<lambda>c. \<not> isSpace c) (KeyString K k))"

lemma dropWhile_none: "list_all (\<lambda>c. \<not> P c) s \<Longrightarrow> dropWhile P s = s"
  by (cases s) simp_all

lemma TrimSpace_key: "plainKeys K \<Longrightarrow> TrimSpace (KeyString K k) = KeyString K k"
  by (simp add: plainKeys_def TrimSpace_def dropWhile_none list_all_rev)

definition holdsKey :: "'k wgKeys \<Rightarrow> string option \<Rightarrow> 'k \<Rightarrow> bool" where
  "holdsKey K c k \<longleftrightarrow> (\<exists>t. c = Some t \<and> ParseKey K (TrimSpace t) = Some k)"

lemma storeKey_triple:
  assumes "keyLaws K" and "plainKeys K" and laws: "keyFileLaws view s path"
  shows "triple (\<lambda>w. view w = c) (storeKey K s path k)
    (\<lambda>r w. (c \<noteq> None \<longrightarrow> view w = c \<and> isl r) \<and> (\<forall>j. r = Inr j \<longrightarrow> holdsKey K (view w) j))"
proof -
  have opn: "triple (\<lambda>w. view w = c) (OpenExcl s path 384) (\<lambda>r w. if isl r then view w = c else c = None \<and> view w = Some [])"
    and wrt: "triple (\<lambda>w. view w = Some []) (WriteString s path (KeyString K k)) (\<lambda>r w. \<not> isl r \<longrightarrow> view w = Some (KeyString K k))"
    and cls: "\<And>v. triple (\<lambda>w. view w = v) (CloseFile s path) (\<lambda>_ w. view w = v)"
    using laws unfolding keyFileLaws_def by blast+
  have holds: "holdsKey K (Some (KeyString K k)) k"
    using assms(1) by (simp add: holdsKey_def TrimSpace_key [OF assms(2)] keyLaws_def)
  have cls': "triple (\<lambda>w. c = None \<and> (\<not> isl r \<longrightarrow> view w = Some (KeyString K k))) (CloseFile s path)
      (\<lambda>_ w. c = None \<and> (\<not> isl r \<longrightarrow> view w = Some (KeyString K k)))" for r :: "string + unit"
    using cls by (cases "isl r") (auto simp: triple_def)
  show ?thesis
    unfolding storeKey_def Let_def
    apply (rule triple_bindE [where R = "\<lambda>r w. if isl r then view w = c else c = None \<and> view w = Some []"])
      apply (rule triple_mapErr [OF opn]; simp)
     apply simp
    apply (rule triple_bind [where R = "\<lambda>r w. c = None \<and> (\<not> isl r \<longrightarrow> view w = Some (KeyString K k))"])
     apply (rule tripleI, simp, drule triple_run [OF wrt, rotated], simp, simp)
    apply (rule triple_bind [OF cls'])
    apply (rule triple_ret)
    using holds by (auto split: sum.splits option.splits)
qed

lemma LoadOrCreateKey_triple:
  assumes "keyLaws K" and "plainKeys K" and laws: "keyFileLaws view s path"
  shows "triple (\<lambda>w. view w = c) (LoadOrCreateKey K s path)
    (\<lambda>r w. (c \<noteq> None \<longrightarrow> view w = c) \<and> (\<forall>k. r = Inr k \<longrightarrow> holdsKey K (view w) k)
       \<and> (\<forall>k. holdsKey K c k \<longrightarrow> r = Inr k \<or> (\<exists>e. r = Inl (WrapErr (''read key '' @ path) e))))"
proof -
  have rd: "triple (\<lambda>w. view w = c) (ReadFile s path)
       (\<lambda>r w. view w = c \<and> (\<forall>u. r = Inr u \<longrightarrow> c = Some u) \<and> (r = Inl NotExist \<longrightarrow> c = None))"
    and gen: "\<And>v. triple (\<lambda>w. view w = v) (NewPrivateKey s) (\<lambda>_ w. view w = v)"
    using laws unfolding keyFileLaws_def by blast+
  let ?Q = "\<lambda>r w. (c \<noteq> None \<longrightarrow> view w = c) \<and> (\<forall>k. r = Inr k \<longrightarrow> holdsKey K (view w) k)
       \<and> (\<forall>k. holdsKey K c k \<longrightarrow> r = Inr k \<or> (\<exists>e. r = Inl (WrapErr (''read key '' @ path) e)))"
  have create: "triple (\<lambda>w. view w = c) (bindE (mapErr g (NewPrivateKey s)) (storeKey K s path)) ?Q" if "c = None" for g
    apply (rule triple_bindE [where R = "\<lambda>_ w. view w = c"])
      apply (rule triple_mapErr [OF gen]; simp)
     apply (simp add: that holdsKey_def)
    apply (rule triple_post [OF storeKey_triple [OF assms]])
    by (simp add: that holdsKey_def)
  have cont: "triple (\<lambda>w. view w = c \<and> (\<forall>u. r = Inr u \<longrightarrow> c = Some u) \<and> (r = Inl NotExist \<longrightarrow> c = None))
     (case r of Inl NotExist \<Rightarrow> bindE (mapErr g (NewPrivateKey s)) (storeKey K s path)
        | Inl (StatError e) \<Rightarrow> ret (Inl (WrapErr (''read key '' @ path) (ErrorText e)))
        | Inr text \<Rightarrow> ret (case ParseKey K (TrimSpace text) of None \<Rightarrow> Inl (E text) | Some key \<Rightarrow> Inr key)) ?Q"
    for r g E
  proof (cases r)
    case (Inl e)
    show ?thesis
    proof (cases e)
      case NotExist
      then show ?thesis using Inl create by (cases c) (auto intro!: tripleI dest: triple_run)
    qed (simp add: Inl triple_ret)
  qed (auto intro!: triple_ret simp: holdsKey_def split: option.split)
  show ?thesis
    unfolding LoadOrCreateKey_def by (rule triple_bind [OF rd]) (rule cont)
qed

text \<open>
  C31. The key survives a restart: a key that \<^verbatim>\<open>LoadOrCreateKey\<close> returns is in the file, so a later
  call finds the same key or cannot read the file; and a file that exists, with a valid key or without, is
  never changed, whatever the outcome.
\<close>

theorem LoadOrCreateKey_roundtrip:
  assumes "keyLaws K" and "plainKeys K" and "keyFileLaws view s path"
    and "run_state (LoadOrCreateKey K s path) w = (r, w1)"
  shows "(view w \<noteq> None \<longrightarrow> view w1 = view w)
    \<and> (\<forall>k. r = Inr k \<longrightarrow> holdsKey K (view w1) k
        \<and> (\<forall>w2 r' w3. view w2 = view w1 \<longrightarrow> run_state (LoadOrCreateKey K s path) w2 = (r', w3) \<longrightarrow>
             (r' = Inr k \<or> (\<exists>e. r' = Inl (WrapErr (''read key '' @ path) e))) \<and> view w3 = view w1))"
proof -
  have load: "(view w \<noteq> None \<longrightarrow> view w' = view w) \<and> (\<forall>k. r = Inr k \<longrightarrow> holdsKey K (view w') k)
       \<and> (\<forall>k. holdsKey K (view w) k \<longrightarrow> r = Inr k \<or> (\<exists>e. r = Inl (WrapErr (''read key '' @ path) e)))"
    if "run_state (LoadOrCreateKey K s path) w = (r, w')" for w r w'
    by (rule triple_run [OF LoadOrCreateKey_triple [OF assms(1-3), of "view w"] refl that])
  have again: "(r' = Inr k \<or> (\<exists>e. r' = Inl (WrapErr (''read key '' @ path) e))) \<and> view w3 = view w1"
    if "holdsKey K (view w1) k" "view w2 = view w1" "run_state (LoadOrCreateKey K s path) w2 = (r', w3)" for k w2 r' w3
  proof -
    have "view w2 \<noteq> None" using that(1,2) by (auto simp: holdsKey_def)
    then show ?thesis using load [OF that(3)] that(1,2) by simp
  qed
  note first = load [OF assms(4)]
  show ?thesis
  proof (rule conjI [OF conjunct1 [OF first]], rule allI, rule impI)
    fix k
    assume "r = Inr k"
    then have held: "holdsKey K (view w1) k" using conjunct1 [OF conjunct2 [OF first]] by simp
    show "holdsKey K (view w1) k
        \<and> (\<forall>w2 r' w3. view w2 = view w1 \<longrightarrow> run_state (LoadOrCreateKey K s path) w2 = (r', w3) \<longrightarrow>
             (r' = Inr k \<or> (\<exists>e. r' = Inl (WrapErr (''read key '' @ path) e))) \<and> view w3 = view w1)"
      using again [OF held] by (intro conjI [OF held] allI impI) assumption
  qed
qed

text \<open>An instance: two keys, and a world that is the content of the one file.\<close>

definition boolKeys :: "bool wgKeys" where
  "boolKeys = \<lparr>
     ParseKey = (\<lambda>s. if s = simKey CHR ''B'' then Some True else if s = simKey CHR ''A'' then Some False else None),
     KeyString = (\<lambda>k. simKey (if k then CHR ''B'' else CHR ''A'')),
     PublicKeyOf = Not\<rparr>"

definition simKeyStore :: "(string option, bool) keyStore" where
  "simKeyStore = \<lparr>
     ReadFile = (\<lambda>_. readSim (\<lambda>w. case w of None \<Rightarrow> Inl NotExist | Some t \<Rightarrow> Inr t)),
     OpenExcl = (\<lambda>_ _. State (\<lambda>w. case w of None \<Rightarrow> (Inr (), Some []) | Some t \<Rightarrow> (Inl ''file exists'', Some t))),
     WriteString = (\<lambda>_ t. writeSim (map_option (\<lambda>u. u @ t)) (Inr ())),
     CloseFile = (\<lambda>_. ret (Inr ())),
     NewPrivateKey = ret (Inr True)\<rparr>"

lemma boolKeys_laws: "keyLaws boolKeys" "plainKeys boolKeys"
  by (simp_all add: keyLaws_def plainKeys_def boolKeys_def simKey_def isSpace_def list_all_iff)

lemma simKeyStore_laws: "keyFileLaws (\<lambda>w. w) simKeyStore path"
  by (auto simp: keyFileLaws_def simKeyStore_def triple_def split: option.splits)

theorem LoadOrCreateKey_roundtrip_witness:
  "let (r, w1) = run_state (LoadOrCreateKey boolKeys simKeyStore DefaultKeyPath) None;
       (r', w3) = run_state (LoadOrCreateKey boolKeys simKeyStore DefaultKeyPath) w1 in
   r = Inr True \<and> w1 = Some (simKey CHR ''B'') \<and> holdsKey boolKeys w1 True \<and> r' = Inr True \<and> w3 = w1"
proof -
  let ?load = "LoadOrCreateKey boolKeys simKeyStore DefaultKeyPath"
  have first: "run_state ?load None = (Inr True, Some (simKey CHR ''B''))"
    by (simp add: LoadOrCreateKey_def storeKey_def simKeyStore_def boolKeys_def Let_def)
  note trip = LoadOrCreateKey_roundtrip [OF boolKeys_laws simKeyStore_laws [of DefaultKeyPath] first]
  obtain r' w3 where again: "run_state ?load (Some (simKey CHR ''B'')) = (r', w3)"
    by (metis prod.exhaust)
  have "isl r' = False"
    using again by (auto simp: LoadOrCreateKey_def simKeyStore_def boolKeys_def simKey_def TrimSpace_def isSpace_def)
  then have "r' = Inr True \<and> w3 = Some (simKey CHR ''B'')"
    using trip again by fastforce
  moreover have "holdsKey boolKeys (Some (simKey CHR ''B'')) True"
    using spec [OF conjunct2 [OF trip], of True] by simp
  ultimately show ?thesis
    using first again by (simp add: Let_def)
qed

section \<open>Registering the pod\<close>

text \<open>
  What \<^verbatim>\<open>GetControllerOf\<close> documents: the owner reference marked as the controller. And the writes the
  registration may make: it creates the peer of this pod, and deletes a peer that it has read and that
  a Pod controls, on the condition that it still has the UID read.
\<close>

definition controllerLaw :: "'w peerClient \<Rightarrow> bool" where
  "controllerLaw c \<longleftrightarrow> (\<forall>m. GetControllerOf c m = List.find (\<lambda>r. orController r = Some True) (OwnerReferences m))"

definition isMine :: "'w peerClient \<Rightarrow> Config \<Rightarrow> string \<Rightarrow> WireguardPeer \<Rightarrow> bool" where
  "isMine c cfg key p \<longleftrightarrow> controlledByPod c p \<and> map_option orUID (GetControllerOf c (peerMeta p)) = Some (cfgPodUID cfg)
     \<and> peerSpec p = peerSpec (desiredPeer cfg key)"

definition registerKeeps :: "('w \<Rightarrow> bool) \<Rightarrow> 'w peerClient \<Rightarrow> Config \<Rightarrow> string \<Rightarrow> bool" where
  "registerKeeps I c cfg key \<longleftrightarrow>
     (\<forall>nn. maintains I (getPeer c nn)) \<and> maintains I (createPeer c (desiredPeer cfg key))
     \<and> (\<forall>p. controlledByPod c p \<and> \<not> isMine c cfg key p
          \<longrightarrow> maintains I (deletePeer c p (UID (peerMeta p))))"

lemma controller_desired: "controllerLaw c \<Longrightarrow>
  GetControllerOf c (peerMeta (desiredPeer cfg key)) = Some \<lparr>orAPIVersion = ''v1'', orKind = ''Pod'',
    orName = cfgPodName cfg, orUID = cfgPodUID cfg, orController = Some True\<rparr>"
  by (simp add: controllerLaw_def desiredPeer_def)

lemma desiredPeer_spec:
  "peerSpec p = peerSpec (desiredPeer cfg key) \<longleftrightarrow> publicKey p = publicKey (desiredPeer cfg key)
     \<and> spec_WireguardRef (peerSpec p) = spec_WireguardRef (peerSpec (desiredPeer cfg key))
     \<and> spec_WireguardNamespace (peerSpec p) = spec_WireguardNamespace (peerSpec (desiredPeer cfg key))"
  by (cases "peerSpec p") (simp add: desiredPeer_def)

lemma decidePeer_cases:
  assumes "controllerLaw c"
  shows "decidePeer c (Some p) (desiredPeer cfg key) = actionReplace \<longleftrightarrow>
      controlledByPod c p \<and> \<not> isMine c cfg key p"
    and "decidePeer c (Some p) (desiredPeer cfg key) = actionKeep \<longleftrightarrow> isMine c cfg key p"
    and "decidePeer c (Some p) want = actionRefuse \<longleftrightarrow> \<not> controlledByPod c p"
    and "decidePeer c (Some p) want \<noteq> actionCreate" and "decidePeer c None want = actionCreate"
  by (auto simp: decidePeer_def controller_desired [OF assms] controlledByPod_def isMine_def desiredPeer_spec split: option.splits)

lemma ensurePeer_maintains:
  assumes "controllerLaw c" and "registerKeeps I c cfg key"
  shows "maintains I (ensurePeer c cfg key)"
proof -
  have create: "maintains I (createMine c what (desiredPeer cfg key))" for what
    using assms(2) by (auto simp: createMine_def registerKeeps_def intro!: triple_rules)
  have delete: "maintains I (deletePeer c p (UID (peerMeta p)))" if "decidePeer c (Some p) (desiredPeer cfg key) = actionReplace" for p
    using assms that by (auto simp: decidePeer_cases(1) registerKeeps_def)
  have get: "maintains I (getPeer c nn)" for nn
    using assms(2) by (simp add: registerKeeps_def)
  show ?thesis
    unfolding ensurePeer_def Let_def
    apply (intro maintains_bindE maintains_bind get maintains_ret)
    apply (auto split: peerAction.split option.split intro!: triple_rules create delete)
    done
qed

lemma ensurePeer_result:
  assumes "controllerLaw c"
  shows "triple (\<lambda>_. True) (ensurePeer c cfg key) (\<lambda>r _. \<forall>p. r = Inr (Some p) \<longrightarrow> isMine c cfg key p)"
proof -
  have create: "triple P (createMine c what want) (\<lambda>r _. \<forall>p. r = Inr (Some p) \<longrightarrow> isMine c cfg key p)" for P what want
    unfolding createMine_def by (rule triple_bind [OF triple_True]) (auto intro!: triple_ret split: sum.split)
  show ?thesis
    unfolding ensurePeer_def Let_def
    apply (rule triple_bindE [OF triple_True])
     apply simp
    subgoal for existing
      using decidePeer_cases(2) [OF assms, where cfg = cfg and key = key]
      by (cases existing) (auto split: peerAction.split intro!: triple_ret create triple_bind [OF triple_True] triple_if split: sum.split)
    done
qed

text \<open>
  C30. Whatever the API server answers, a registration pass writes nothing but this: it creates the peer
  of its pod, and it deletes a peer that a Pod controls and that is not this pod's with this key and
  gateway, pinned to the UID it read; a peer that no Pod controls is left as it is. And a peer it returns
  is controlled by this pod and has its key and gateway.
\<close>

theorem ensurePeer_safe:
  assumes "controllerLaw c" and "registerKeeps I c cfg key" and "I w"
    and "run_state (ensurePeer c cfg key) w = (r, w')"
  shows "I w' \<and> (\<forall>p. r = Inr (Some p) \<longrightarrow> isMine c cfg key p)"
  using maintains_run [OF ensurePeer_maintains [OF assms(1,2)] assms(3,4)]
    triple_run [OF ensurePeer_result [OF assms(1)] TrueI assms(4)] ..

text \<open>An API server with the one peer the registration is about, and a log of the deleted peers.\<close>

record regSim =
  rsPeer :: "WireguardPeer option"
  rsDeleted :: "WireguardPeer list"

definition simPeerClient :: "regSim peerClient" where
  "simPeerClient = \<lparr>
     GetControllerOf = (\<lambda>m. List.find (\<lambda>r. orController r = Some True) (OwnerReferences m)),
     getPeer = (\<lambda>_. readSim (\<lambda>w. case rsPeer w of None \<Rightarrow> Inl NotFound | Some p \<Rightarrow> Inr p)),
     deletePeer = (\<lambda>p uid. State (\<lambda>w. case rsPeer w of
        None \<Rightarrow> (Inl NotFound, w)
      | Some q \<Rightarrow> if UID (peerMeta q) \<noteq> uid then (Inl Conflict, w)
                 else (Inr (), w\<lparr>rsPeer := None, rsDeleted := p # rsDeleted w\<rparr>))),
     createPeer = (\<lambda>p. State (\<lambda>w. case rsPeer w of
        Some _ \<Rightarrow> (Inl AlreadyExists, w)
      | None \<Rightarrow> (Inr (), w\<lparr>rsPeer := Some (p\<lparr>peerMeta := (peerMeta p)\<lparr>UID := ''assigned''\<rparr>\<rparr>)\<rparr>)))\<rparr>"

definition exampleConfig :: Config where
  "exampleConfig = \<lparr>cfgWireguard = ''vpn'', cfgWireguardNamespace = ''infra'', cfgKeyPath = DefaultKeyPath,
     cfgPodName = ''app-0'', cfgPodNamespace = ''apps'', cfgPodUID = ''uid-2''\<rparr>"

text \<open>The peer that an earlier pod of the same name left behind.\<close>

definition stalePeer :: WireguardPeer where
  "stalePeer = desiredPeer (exampleConfig\<lparr>cfgPodUID := ''uid-1''\<rparr>) (simKey CHR ''x'')"

lemma simPeerClient_controller: "controllerLaw simPeerClient"
  by (simp add: controllerLaw_def simPeerClient_def)

lemmas sim_register = simPeerClient_def ensurePeer_def decidePeer_def createMine_def controlledByPod_def
  stalePeer_def desiredPeer_def exampleConfig_def

theorem ensurePeer_safe_witness:
  "let (r, w') = run_state (ensurePeer simPeerClient exampleConfig (simKey CHR ''y'')) \<lparr>rsPeer = Some stalePeer, rsDeleted = []\<rparr> in
   r = Inr None \<and> map publicKey (rsDeleted w') = [simKey CHR ''x''] \<and> list_all (controlledByPod simPeerClient) (rsDeleted w')"
proof -
  let ?I = "\<lambda>w. list_all (controlledByPod simPeerClient) (rsDeleted w)"
  let ?w = "\<lparr>rsPeer = Some stalePeer, rsDeleted = []\<rparr>"
  obtain r w' where run: "run_state (ensurePeer simPeerClient exampleConfig (simKey CHR ''y'')) ?w = (r, w')"
    by (metis prod.exhaust)
  have "registerKeeps ?I simPeerClient exampleConfig (simKey CHR ''y'')"
    by (auto simp: registerKeeps_def simPeerClient_def intro!: maintains_readSim maintainsI split: option.split)
  then have "?I w'"
    using ensurePeer_safe [OF simPeerClient_controller _ _ run, of ?I] by simp
  moreover have "r = Inr None \<and> map publicKey (rsDeleted w') = [simKey CHR ''x'']"
    using run by (auto simp: sim_register Let_def simKey_def)
  ultimately show ?thesis using run by simp
qed

text \<open>
  What the API server promises while nobody else writes the peer at \<open>nn\<close>, which is \<open>view\<close>: a read is up to
  date, a delete removes the object unless its UID is another, and a create stores what it is given.
\<close>

definition quietServer :: "('w \<Rightarrow> WireguardPeer option) \<Rightarrow> 'w peerClient \<Rightarrow> NamespacedName \<Rightarrow> bool" where
  "quietServer view c nn \<longleftrightarrow> (\<forall>v p q uid.
     triple (\<lambda>w. view w = v) (getPeer c nn)
       (\<lambda>r w. view w = v \<and> (\<forall>p. r = Inr p \<longrightarrow> v = Some p) \<and> (r = Inl NotFound \<longrightarrow> v = None))
     \<and> triple (\<lambda>w. view w = Some q) (deletePeer c q uid)
         (\<lambda>r w. case r of Inr _ \<Rightarrow> view w = None
                | Inl e \<Rightarrow> e \<noteq> NotFound \<and> (e = Conflict \<longrightarrow> UID (peerMeta q) \<noteq> uid))
     \<and> (peerKey p = nn \<longrightarrow> triple (\<lambda>w. view w = None) (createPeer c p)
         (\<lambda>r w. case r of
            Inr _ \<Rightarrow> \<exists>q. view w = Some q \<and> OwnerReferences (peerMeta q) = OwnerReferences (peerMeta p) \<and> peerSpec q = peerSpec p
          | Inl e \<Rightarrow> e \<noteq> AlreadyExists)))"

lemma isMine_created:
  assumes "controllerLaw c" and "OwnerReferences (peerMeta q) = OwnerReferences (peerMeta (desiredPeer cfg key))"
    and "peerSpec q = peerSpec (desiredPeer cfg key)"
  shows "isMine c cfg key q"
  using assms by (simp add: isMine_def controlledByPod_def controllerLaw_def desiredPeer_def)

lemma createMine_triple:
  assumes "controllerLaw c" and "quietServer view c nn" and "peerKey (desiredPeer cfg key) = nn"
  shows "triple (\<lambda>w. view w = None) (createMine c what (desiredPeer cfg key))
    (\<lambda>r w. \<forall>x. r = Inr x \<longrightarrow> x = None \<and> (\<exists>q. view w = Some q \<and> isMine c cfg key q))"
proof -
  have "triple (\<lambda>w. view w = None) (createPeer c (desiredPeer cfg key))
     (\<lambda>r w. case r of Inr _ \<Rightarrow> \<exists>q. view w = Some q \<and> OwnerReferences (peerMeta q) = OwnerReferences (peerMeta (desiredPeer cfg key))
              \<and> peerSpec q = peerSpec (desiredPeer cfg key)
        | Inl e \<Rightarrow> e \<noteq> AlreadyExists)"
    using assms(2,3) unfolding quietServer_def by blast
  then show ?thesis
    unfolding createMine_def
    by (rule triple_bind) (auto intro!: triple_ret dest: isMine_created [OF assms(1)] split: sum.splits if_splits)
qed

text \<open>One pass, by the peer that is there.\<close>

text \<open>What a pass leaves of a peer that nobody else writes; \<open>v\<close> is the one it found.\<close>

definition registers :: "'w peerClient \<Rightarrow> Config \<Rightarrow> string \<Rightarrow> ('w \<Rightarrow> WireguardPeer option) \<Rightarrow> WireguardPeer option
    \<Rightarrow> goError + WireguardPeer option \<Rightarrow> 'w \<Rightarrow> bool" where
  "registers c cfg key view v r w \<longleftrightarrow>
     (\<forall>x. r = Inr x \<longrightarrow> (\<exists>q. view w = Some q \<and> isMine c cfg key q \<and> x \<in> {None, Some q}))
     \<and> (\<forall>q. v = Some q \<and> isMine c cfg key q \<longrightarrow> view w = v \<and> (r = Inr (Some q)
          \<or> (\<exists>e. r = Inl (WrapErr (''get WireguardPeer '' @ nnString (NamespacedName (cfgPodNamespace cfg) (cfgPodName cfg))) e))))"

lemma replaceMine_triple:
  assumes "controllerLaw c" and "quietServer view c nn" and nn: "nn = NamespacedName (cfgPodNamespace cfg) (cfgPodName cfg)"
  shows "triple (\<lambda>w. view w = Some q) (do {
        r \<leftarrow> deletePeer c q (UID (peerMeta q));
        case r of
          Inl e \<Rightarrow> if e = NotFound \<or> e = Conflict then createMine c what (desiredPeer cfg key) else ret (Inl (F e))
        | Inr _ \<Rightarrow> createMine c what (desiredPeer cfg key) })
     (\<lambda>r w. \<forall>x. r = Inr x \<longrightarrow> x = None \<and> (\<exists>q. view w = Some q \<and> isMine c cfg key q))"
proof -
  have "triple (\<lambda>w. view w = Some q) (deletePeer c q (UID (peerMeta q)))
       (\<lambda>r w. case r of Inr _ \<Rightarrow> view w = None
              | Inl e \<Rightarrow> e \<noteq> NotFound \<and> (e = Conflict \<longrightarrow> UID (peerMeta q) \<noteq> UID (peerMeta q)))"
    using assms(2) unfolding quietServer_def by blast
  then have del: "triple (\<lambda>w. view w = Some q) (deletePeer c q (UID (peerMeta q)))
       (\<lambda>r w. case r of Inr _ \<Rightarrow> view w = None | Inl e \<Rightarrow> e \<noteq> NotFound \<and> e \<noteq> Conflict)"
    by (rule triple_post) (auto split: sum.splits)
  have key: "peerKey (desiredPeer cfg key) = nn" by (simp add: desiredPeer_def metaKey_def nn)
  show ?thesis
    by (rule triple_bind [OF del]) (auto intro!: triple_ret createMine_triple [OF assms(1,2) key] triple_if tripleI split: sum.split)
qed

lemma decided_triple:
  assumes "controllerLaw c" and "quietServer view c nn" and nn: "nn = NamespacedName (cfgPodNamespace cfg) (cfgPodName cfg)"
    and pods: "pred_option (controlledByPod c) v"
  shows "triple (\<lambda>w. view w = v)
     (case (decidePeer c v (desiredPeer cfg key), v) of
            (actionKeep, _) \<Rightarrow> ret (Inr v)
          | (actionRefuse, _) \<Rightarrow> ret (Inl E)
          | (actionReplace, Some old) \<Rightarrow> do {
              r \<leftarrow> deletePeer c old (UID (peerMeta old));
              case r of
                Inl e \<Rightarrow> if e = NotFound \<or> e = Conflict then createMine c what (desiredPeer cfg key)
                         else ret (Inl (F e))
              | Inr _ \<Rightarrow> createMine c what (desiredPeer cfg key)
            }
          | _ \<Rightarrow> createMine c what (desiredPeer cfg key)) (registers c cfg key view v)"
proof (cases v)
  case None
  have "peerKey (desiredPeer cfg key) = nn" by (simp add: desiredPeer_def metaKey_def nn)
  then show ?thesis
    using None triple_post [OF createMine_triple [OF assms(1,2), of cfg key what], of "registers c cfg key view v"]
    by (simp add: decidePeer_def registers_def)
next
  case (Some q)
  then have pod: "controlledByPod c q" using pods by simp
  show ?thesis
  proof (cases "isMine c cfg key q")
    case True
    then show ?thesis
      using Some decidePeer_cases(2) [OF assms(1), of q cfg key] by (auto simp: registers_def intro!: triple_ret)
  next
    case False
    then have dec: "decidePeer c (Some q) (desiredPeer cfg key) = actionReplace"
      using pod decidePeer_cases(1) [OF assms(1), of q cfg key] by simp
    show ?thesis
      using False replaceMine_triple [OF assms(1-3), of q what key F] by (simp add: Some dec) (erule triple_post, auto simp: registers_def)
  qed
qed

lemma ensurePeer_triple:
  assumes "controllerLaw c" and "quietServer view c nn" and nn: "nn = NamespacedName (cfgPodNamespace cfg) (cfgPodName cfg)"
    and "pred_option (controlledByPod c) v"
  shows "triple (\<lambda>w. view w = v) (ensurePeer c cfg key) (registers c cfg key view v)"
proof -
  have get: "triple (\<lambda>w. view w = v) (getPeer c nn)
       (\<lambda>r w. view w = v \<and> (\<forall>p. r = Inr p \<longrightarrow> v = Some p) \<and> (r = Inl NotFound \<longrightarrow> v = None))"
    using assms(2) unfolding quietServer_def by blast
  show ?thesis
    unfolding ensurePeer_def Let_def nn [symmetric]
    apply (rule triple_bindE [where R = "\<lambda>x w. view w = v \<and> ((\<exists>e. x = Inl (WrapErr (''get WireguardPeer '' @ nnString nn) e)) \<or> x = Inr v)"])
      apply (rule triple_bind [OF get], rule triple_ret)
      apply (auto split: sum.split) [1]
     apply (auto simp: registers_def nn) [1]
    subgoal for x
    proof (cases "x = v")
      case True
      show ?thesis unfolding True by (rule triple_pre [OF decided_triple [OF assms]]) simp
    qed (rule tripleI, simp)
    done
qed


lemma simPeerClient_quiet: "quietServer rsPeer simPeerClient nn"
  by (auto simp: quietServer_def simPeerClient_def triple_def split: option.splits if_splits)


end
