(* ===== verification/Tunnel.thy ===== *)
theory Tunnel
  imports Agent Registration
begin

text \<open>
  The tunnel of a client sidecar, \<open>src/internal/sidecar/tunnel.go\<close>, \<open>routes.go\<close>, \<open>routes_linux.go\<close>,
  \<open>apply.go\<close> and \<open>check.go\<close>: what the status of its WireguardPeer asks for, the device and the routes
  that give it, and the startup check.
\<close>

section \<open>The wanted tunnel\<close>

definition errWaiting :: goError where "errWaiting = ErrorText ''waiting for the operator''"

text \<open>\<^verbatim>\<open>errors.Is(err, errWaiting)\<close>, for an error that wraps it as its first part.\<close>

fun isWaiting :: "goError \<Rightarrow> bool" where
  "isWaiting (NoteErr e _) = (e = errWaiting)"
| "isWaiting e = (e = errWaiting)"

record 'k Tunnel =
  tnAddress :: Prefix
  tnServerKey :: 'k
  tnEndpoint :: AddrPort
  tnLocalCIDRs :: "Prefix list"

definition notReadyWhy :: "string condOps \<Rightarrow> WireguardPeer \<Rightarrow> string" where
  "notReadyWhy C peer = (case FindStatusCondition C (st_Conditions (peerStatus peer)) ''Ready'' of
     None \<Rightarrow> []
   | Some c \<Rightarrow> '' (Ready='' @ condStatus c @ '' '' @ condReason c @ '': '' @ condMessage c @ '')'')"

fun parseLocalCIDRs :: "string \<Rightarrow> string list \<Rightarrow> goError + Prefix list" where
  "parseLocalCIDRs name [] = Inr []"
| "parseLocalCIDRs name (c # cs) =
     (case ParsePrefix c of
        Inl e \<Rightarrow> Inl (WrapErr (''parse status.localCIDRs entry '' @ fmtQ c @ '' of WireguardPeer '' @ name) (ParseError e))
      | Inr p \<Rightarrow>
        if pBits p = 0
        then Inl (ErrorText (''status.localCIDRs entry '' @ fmtQ c @ '' of WireguardPeer '' @ name
               @ '' covers every address, so nothing would go through the tunnel''))
        else case parseLocalCIDRs name cs of
               Inl e \<Rightarrow> Inl e
             | Inr ps \<Rightarrow> Inr (Masked p # ps))"

definition desiredTunnel :: "string condOps \<Rightarrow> 'k wgKeys \<Rightarrow> WireguardPeer \<Rightarrow> goError + 'k Tunnel" where
  "desiredTunnel C K peer =
     (let st = peerStatus peer; name = peerName peer;
          waiting = (\<lambda>field. Inl (NoteErr errWaiting (''WireguardPeer '' @ name @ '' has no status.'' @ field))) in
      if st_Address st = [] then waiting (''address'' @ notReadyWhy C peer)
      else if st_Endpoint st = [] then waiting ''endpoint''
      else if st_ServerPublicKey st = [] then waiting ''serverPublicKey''
      else if st_LocalCIDRs st = [] then waiting ''localCIDRs''
      else case ParseAddr (st_Address st) of
        Inl e \<Rightarrow> Inl (WrapErr (''parse status.address '' @ fmtQ (st_Address st) @ '' of WireguardPeer '' @ name) (ParseError e))
      | Inr addr \<Rightarrow>
        if \<not> Is4 addr then Inl (ErrorText (''status.address '' @ fmtQ (st_Address st) @ '' of WireguardPeer '' @ name @ '' is not IPv4''))
        else case ParseAddrPort (st_Endpoint st) of
          Inl e \<Rightarrow> Inl (WrapErr (''parse status.endpoint '' @ fmtQ (st_Endpoint st) @ '' of WireguardPeer '' @ name) (ParseError e))
        | Inr endpoint \<Rightarrow>
          (case ParseKey K (st_ServerPublicKey st) of
             None \<Rightarrow> Inl (WrapErr (''parse status.serverPublicKey of WireguardPeer '' @ name) (ErrorText ''wgtypes: failed to parse key''))
           | Some serverKey \<Rightarrow>
             (case parseLocalCIDRs name (st_LocalCIDRs st) of
                Inl e \<Rightarrow> Inl e
              | Inr cidrs \<Rightarrow> Inr \<lparr>tnAddress = PrefixFrom addr 32, tnServerKey = serverKey,
                  tnEndpoint = endpoint, tnLocalCIDRs = cidrs\<rparr>)))"

section \<open>The device\<close>

definition allowedAll :: "IPNet list" where
  "allowedAll = [IPNet (Addr4 0) 0 32]"

definition deviceMatches :: "'k Device option \<Rightarrow> 'k \<Rightarrow> 'k Tunnel \<Rightarrow> IPNet list \<Rightarrow> bool" where
  "deviceMatches dev key t allowed =
     (case dev of
        None \<Rightarrow> False
      | Some d \<Rightarrow>
        if dvPrivateKey d \<noteq> key then False
        else (case dvPeers d of
          [p] \<Rightarrow>
            if dpPublicKey p \<noteq> tnServerKey t \<or> dpKeepalive p \<noteq> Keepalive then False
            else (case dpEndpoint p of
              None \<Rightarrow> False
            | Some ap \<Rightarrow>
              if AddrPort (Unmap (apAddr ap)) (apPort ap) \<noteq> tnEndpoint t then False
              else (case dpAllowedIPs p of [n] \<Rightarrow> IPNetString n = IPNetString (hd allowed) | _ \<Rightarrow> False))
        | _ \<Rightarrow> False))"

text \<open>The configuration to make, \<open>None\<close> when the device already matches.\<close>

definition deviceConfig :: "'k Device option \<Rightarrow> 'k \<Rightarrow> 'k Tunnel \<Rightarrow> 'k WgConfig option" where
  "deviceConfig dev key t =
     (if deviceMatches dev key t allowedAll then None
      else Some \<lparr>cfPrivateKey = Some key, cfListenPort = None, cfReplacePeers = True,
        cfPeers = [(newPeerConfig (tnServerKey t))\<lparr>pcEndpoint := Some (tnEndpoint t),
          pcKeepalive := Some Keepalive, pcReplaceAllowedIPs := True, pcAllowedIPs := allowedAll\<rparr>]\<rparr>)"

text \<open>
  Time is in milliseconds, zero for \<^verbatim>\<open>time.Time{}\<close>. The text of a duration of whole seconds, as
  \<^verbatim>\<open>time.Duration.String\<close> prints it.
\<close>

definition durationString :: "int \<Rightarrow> string" where
  "durationString secs = (let h = secs div 3600; m = secs div 60 mod 60; s = secs mod 60 in
     (if h = 0 then [] else fmtInt h @ ''h'') @ (if h = 0 \<and> m = 0 then [] else fmtInt m @ ''m'') @ fmtInt s @ ''s'')"

definition handshakeMaxAge :: int where "handshakeMaxAge = 180 * 1000"

definition checkDevice :: "'k Device \<Rightarrow> int \<Rightarrow> goError option" where
  "checkDevice dev now =
     (if length (dvPeers dev) \<noteq> 1
      then Some (ErrorText (dvName dev @ '' has '' @ Itoa (length (dvPeers dev)) @ '' peers, want 1''))
      else let last = dpLastHandshake (hd (dvPeers dev)) in
        if last = 0 then Some (ErrorText (dvName dev @ '' has not completed a handshake with its peer''))
        else let age = now - last in
          if handshakeMaxAge \<le> age
          then Some (ErrorText (dvName dev @ [CHR 0x27] @ ''s last handshake was '' @ durationString ((age + 500) div 1000)
                 @ '' ago, more than '' @ durationString (handshakeMaxAge div 1000)))
          else None)"

section \<open>The route plan\<close>

definition routeProtocol :: int where "routeProtocol = 151"

record route =
  roDst :: Prefix
  roGw :: Addr
  roLinkIndex :: int
  roPriority :: int
  roProtocol :: int
  roScope :: int

record routePlan =
  plGw :: Addr
  plGwLink :: int
  plLocal :: "Prefix list"
  plStale :: "route list"

definition isDefault :: "route \<Rightarrow> bool" where
  "isDefault r \<longleftrightarrow> pBits (roDst r) = 0"

definition isStale :: "int \<Rightarrow> Prefix list \<Rightarrow> route \<Rightarrow> bool" where
  "isStale wgIndex localCIDRs r \<longleftrightarrow>
     (if isDefault r then roLinkIndex r \<noteq> wgIndex
      else roProtocol r = routeProtocol \<and> roDst r \<notin> set localCIDRs)"

definition planRoutes :: "route list \<Rightarrow> int \<Rightarrow> Prefix list \<Rightarrow> goError + routePlan" where
  "planRoutes have wgIndex localCIDRs =
     (let outside = IndexFunc (\<lambda>r. isDefault r \<and> roLinkIndex r \<noteq> wgIndex \<and> IsValid (roGw r)) have;
          gw = (case outside of
                  Some i \<Rightarrow> Some i
                | None \<Rightarrow> IndexFunc (\<lambda>r. roProtocol r = routeProtocol \<and> IsValid (roGw r)) have) in
      case gw of
        None \<Rightarrow> Inl (ErrorText ''no CNI gateway: the main table has no default route via a gateway outside wg0 and no route this client installed'')
      | Some i \<Rightarrow> Inr \<lparr>plGw = roGw (have ! i), plGwLink = roLinkIndex (have ! i), plLocal = localCIDRs,
          plStale = filter (isStale wgIndex localCIDRs) have\<rparr>)"

section \<open>Applying the plan\<close>

definition toRoute :: "Route \<Rightarrow> route" where
  "toRoute r = \<lparr>
     roDst = (case rtDst r of
        None \<Rightarrow> PrefixFrom (Addr4 0) 0
      | Some n \<Rightarrow> if IsValid (netIP n) then PrefixFrom (Unmap (netIP n)) (int (netOnes n)) else zeroPrefix),
     roGw = (case rtGw r of None \<Rightarrow> zeroAddr | Some gw \<Rightarrow> Unmap gw),
     roLinkIndex = rtLinkIndex r, roPriority = rtPriority r, roProtocol = rtProtocol r, roScope = rtScope r\<rparr>"

definition localRoute :: "Addr \<Rightarrow> int \<Rightarrow> Prefix \<Rightarrow> Route" where
  "localRoute gw link p = noRoute\<lparr>rtDst := Some (ipNet p), rtGw := Some gw, rtLinkIndex := link,
     rtProtocol := routeProtocol, rtTable := RT_TABLE_MAIN\<rparr>"

definition wgDefault :: "int \<Rightarrow> Route" where
  "wgDefault wgIndex = noRoute\<lparr>rtDst := Some (IPNet (Addr4 0) 0 32), rtLinkIndex := wgIndex,
     rtScope := SCOPE_LINK, rtProtocol := routeProtocol, rtTable := RT_TABLE_MAIN\<rparr>"

fun replaceLocals :: "'w netlink \<Rightarrow> Addr \<Rightarrow> int \<Rightarrow> Prefix list \<Rightarrow> ('w, goError, unit) io" where
  "replaceLocals nl gw link [] = ret (Inr ())"
| "replaceLocals nl gw link (p # ps) =
     bindE (mapErr (\<lambda>e. WrapErr (''replace route '' @ PrefixString p @ '' via '' @ AddrString gw) (errnoError e))
             (RouteReplace nl (localRoute gw link p)))
       (\<lambda>_. replaceLocals nl gw link ps)"

definition staleRoute :: "route \<Rightarrow> Route" where
  "staleRoute r = noRoute\<lparr>rtDst := Some (ipNet (roDst r)), rtLinkIndex := roLinkIndex r, rtPriority := roPriority r,
     rtProtocol := roProtocol r, rtScope := roScope r, rtTable := RT_TABLE_MAIN,
     rtGw := (if IsValid (roGw r) then Some (roGw r) else None)\<rparr>"

fun deleteStale :: "'w netlink \<Rightarrow> route list \<Rightarrow> ('w, goError, unit) io" where
  "deleteStale nl [] = ret (Inr ())"
| "deleteStale nl (r # rs) = do {
     x \<leftarrow> RouteDel nl (staleRoute r);
     case x of
       Inl e \<Rightarrow> if e \<noteq> ESRCH then ret (Inl (WrapErr (''delete route '' @ PrefixString (roDst r)) (errnoError e)))
                else deleteStale nl rs
     | Inr _ \<Rightarrow> deleteStale nl rs
   }"

definition noIPv6Stack :: "errno \<Rightarrow> bool" where
  "noIPv6Stack e \<longleftrightarrow> e = EOPNOTSUPP \<or> e = EAFNOSUPPORT"

text \<open>The routes the loop of \<^verbatim>\<open>deleteIPv6Defaults\<close> does not skip, and what it deletes for each.\<close>

definition isIPv6Default :: "Route \<Rightarrow> bool" where
  "isIPv6Default r \<longleftrightarrow>
     \<not> (case rtDst r of None \<Rightarrow> False | Some n \<Rightarrow> Is4 (Unmap (netIP n)))
     \<and> \<not> (case rtGw r of None \<Rightarrow> False | Some gw \<Rightarrow> Is4 (Unmap gw))
     \<and> (case rtDst r of None \<Rightarrow> True | Some n \<Rightarrow> netOnes n = 0)"

definition ipv6Delete :: "Route \<Rightarrow> Route" where
  "ipv6Delete r = noRoute\<lparr>rtDst := Some (IPNet (Addr6 0 []) 0 128), rtGw := rtGw r, rtLinkIndex := rtLinkIndex r,
     rtPriority := rtPriority r, rtScope := rtScope r, rtTable := RT_TABLE_MAIN\<rparr>"

fun deleteIPv6List :: "'w netlink \<Rightarrow> Route list \<Rightarrow> ('w, goError, unit) io" where
  "deleteIPv6List nl [] = ret (Inr ())"
| "deleteIPv6List nl (r # rs) =
     (if \<not> isIPv6Default r then deleteIPv6List nl rs
      else do {
        x \<leftarrow> RouteDel nl (ipv6Delete r);
        case x of
          Inl e \<Rightarrow> if e \<noteq> ESRCH \<and> \<not> noIPv6Stack e
                   then ret (Inl (WrapErr ''delete IPv6 default route'' (errnoError e)))
                   else deleteIPv6List nl rs
        | Inr _ \<Rightarrow> deleteIPv6List nl rs
      })"

definition deleteIPv6Defaults :: "'w netlink \<Rightarrow> ('w, goError, unit) io" where
  "deleteIPv6Defaults nl = do {
     listed \<leftarrow> RouteListMain nl FAMILY_V6;
     case listed of
       Inl e \<Rightarrow> if noIPv6Stack e then ret (Inr ()) else ret (Inl (WrapErr ''list routes'' (errnoError e)))
     | Inr rs \<Rightarrow> deleteIPv6List nl rs
   }"

definition ensureRoutes :: "'w netlink \<Rightarrow> int \<Rightarrow> Prefix list \<Rightarrow> ('w, goError, unit) io" where
  "ensureRoutes nl wgIndex localCIDRs =
     bindE (mapErr (\<lambda>e. WrapErr ''list routes'' (errnoError e)) (RouteListMain nl FAMILY_V4)) (\<lambda>listed.
       case planRoutes (map toRoute listed) wgIndex localCIDRs of
         Inl e \<Rightarrow> ret (Inl e)
       | Inr plan \<Rightarrow>
         bindE (replaceLocals nl (plGw plan) (plGwLink plan) (plLocal plan)) (\<lambda>_.
         bindE (mapErr (\<lambda>e. WrapErr ''replace the default route via wg0'' (errnoError e)) (RouteReplace nl (wgDefault wgIndex))) (\<lambda>_.
         bindE (deleteStale nl (plStale plan)) (\<lambda>_. deleteIPv6Defaults nl))))"

definition routesVia :: "'w netlink \<Rightarrow> Addr \<Rightarrow> int \<Rightarrow> ('w, goError, bool) io" where
  "routesVia nl dst linkIndex =
     bindE (mapErr (\<lambda>e. WrapErr (''route get '' @ AddrString dst) (errnoError e)) (RouteGet nl dst)) (\<lambda>routes.
       ret (Inr (case routes of [] \<Rightarrow> False | r # _ \<Rightarrow> rtLinkIndex r = linkIndex)))"

section \<open>Apply and check\<close>

text \<open>A \<open>wgctrl\<close> client around a computation: the deferred close joins its error to the result.\<close>

definition withClient :: "('w, 'k) wgctrl \<Rightarrow> ('w, goError, unit) io \<Rightarrow> ('w, goError, unit) io" where
  "withClient c body =
     bindE (mapErr (\<lambda>e. WrapErr ''open wgctrl client'' (ErrorText e)) (wgNew c)) (\<lambda>_. do {
       r \<leftarrow> body;
       x \<leftarrow> wgClose c;
       ret (case joinErr (case r of Inl e \<Rightarrow> Some e | Inr _ \<Rightarrow> None)
                         (case x of Inl e \<Rightarrow> Some (WrapErr ''close wgctrl client'' (ErrorText e)) | Inr _ \<Rightarrow> None) of
              None \<Rightarrow> Inr ()
            | Some e \<Rightarrow> Inl e)
     })"

definition Apply :: "('w, 'k) wgHost \<Rightarrow> 'k \<Rightarrow> 'k Tunnel \<Rightarrow> ('w, goError, unit) io" where
  "Apply h key t =
     bindE (mapErr (WrapErr ''sync link'') (SyncLink (netlinkOps h) (hostOps h) WgInterface TunnelMTU UserspaceImplementation)) (\<lambda>_.
     bindE (mapErr (WrapErr ''sync address'') (SyncAddress (netlinkOps h) WgInterface (tnAddress t))) (\<lambda>_.
     withClient (ctl h)
       (bindE (mapErr (\<lambda>e. WrapErr ''read device'' (ErrorText e)) (wgDevice (ctl h) WgInterface)) (\<lambda>dev.
        bindE (case deviceConfig (Some dev) key t of
                 None \<Rightarrow> ret (Inr ())
               | Some cfg \<Rightarrow> mapErr (\<lambda>e. WrapErr ''configure device'' (ErrorText e)) (wgConfigureDevice (ctl h) WgInterface cfg)) (\<lambda>_.
        bindE (mapErr (\<lambda>e. WrapErr (''look up '' @ WgInterface) (errnoError e)) (LinkByName (netlinkOps h) WgInterface)) (\<lambda>link.
          mapErr (WrapErr ''routes'') (ensureRoutes (netlinkOps h) (lnIndex link) (tnLocalCIDRs t))))))))"

definition probeAddress :: string where "probeAddress = ''1.1.1.1''"

definition Check :: "('w, 'k) wgHost \<Rightarrow> string \<Rightarrow> ('w, goError, unit) io" where
  "Check h iface = withClient (ctl h)
     (bindE (mapErr (\<lambda>e. WrapErr (''read device '' @ iface) (ErrorText e)) (wgDevice (ctl h) iface)) (\<lambda>dev. do {
        now \<leftarrow> nowMillis (hostOps h);
        case checkDevice dev now of
          Some e \<Rightarrow> ret (Inl e)
        | None \<Rightarrow>
          bindE (mapErr (\<lambda>e. WrapErr (''look up '' @ iface) (errnoError e)) (LinkByName (netlinkOps h) iface)) (\<lambda>link.
          bindE (routesVia (netlinkOps h) (Addr4 0x01010101) (lnIndex link)) (\<lambda>via.
            ret (if via then Inr () else Inl (ErrorText (probeAddress @ '' does not route via '' @ iface)))))
      }))"


section \<open>The main table\<close>

text \<open>
  What netlink promises of the IPv4 routes of the main table, \<open>tab\<close>, and of its IPv6 default routes,
  \<open>def6\<close>, each of these as the delete that names it. A replace leaves its route in the place of one with
  the same destination and metric; a delete that succeeds, or that finds nothing, leaves no route it
  names, and touches no route of another destination, link or protocol.
\<close>

definition routeKey :: "route \<Rightarrow> Prefix \<times> int" where
  "routeKey r = (roDst r, roPriority r)"

definition replaced :: "route set \<Rightarrow> route \<Rightarrow> route set \<Rightarrow> bool" where
  "replaced T r T' \<longleftrightarrow> r \<in> T' \<and> T' \<subseteq> insert r T \<and> (\<forall>q \<in> T - T'. routeKey q = routeKey r)
     \<and> (inj_on routeKey T \<longrightarrow> inj_on routeKey T')"

definition deleted :: "route set \<Rightarrow> route \<Rightarrow> route set \<Rightarrow> bool" where
  "deleted T r T' \<longleftrightarrow> r \<notin> T' \<and> T' \<subseteq> T \<and> (\<forall>q \<in> T - T'. roDst q = roDst r \<and> roLinkIndex q = roLinkIndex r \<and> roProtocol q = roProtocol r)"

definition isRoute4 :: "Route \<Rightarrow> bool" where
  "isRoute4 r \<longleftrightarrow> rtTable r = RT_TABLE_MAIN \<and> (case rtDst r of None \<Rightarrow> False | Some n \<Rightarrow> Is4 (netIP n))"

definition gone :: "errno + unit \<Rightarrow> bool" where
  "gone x \<longleftrightarrow> (case x of Inl e \<Rightarrow> e = ESRCH | Inr _ \<Rightarrow> True)"

definition gone6 :: "errno + unit \<Rightarrow> bool" where
  "gone6 x \<longleftrightarrow> (case x of Inl e \<Rightarrow> e = ESRCH \<or> noIPv6Stack e | Inr _ \<Rightarrow> True)"

text \<open>The routes that a listing of the IPv4 table gives: an IPv4 network, and a gateway in four bytes or none.\<close>

definition wellRoute :: "route \<Rightarrow> bool" where
  "wellRoute r \<longleftrightarrow> Is4 (pAddr (roDst r)) \<and> 0 \<le> pBits (roDst r) \<and> pBits (roDst r) \<le> 32
     \<and> (isDefault r \<longrightarrow> pAddr (roDst r) = Addr4 0)
     \<and> (roGw r = zeroAddr \<or> IsValid (roGw r) \<and> Unmap (roGw r) = roGw r)"

definition tableLaws :: "('w \<Rightarrow> route set) \<Rightarrow> ('w \<Rightarrow> Route set) \<Rightarrow> 'w netlink \<Rightarrow> bool" where
  "tableLaws tab def6 nl \<longleftrightarrow> (\<forall>T D r.
     triple (\<lambda>w. tab w = T \<and> def6 w = D) (RouteListMain nl FAMILY_V4)
       (\<lambda>x w. tab w = T \<and> def6 w = D \<and> (\<forall>l. x = Inr l \<longrightarrow> toRoute ` set l = T \<and> (\<forall>q \<in> T. wellRoute q)))
     \<and> triple (\<lambda>w. tab w = T \<and> def6 w = D) (RouteListMain nl FAMILY_V6)
       (\<lambda>x w. tab w = T \<and> def6 w = D \<and> (\<forall>l. x = Inr l \<longrightarrow> ipv6Delete ` {r \<in> set l. isIPv6Default r} = D)
          \<and> (\<forall>e. x = Inl e \<and> noIPv6Stack e \<longrightarrow> D = {}))
     \<and> (isRoute4 r \<longrightarrow> triple (\<lambda>w. tab w = T \<and> def6 w = D) (RouteReplace nl r)
         (\<lambda>x w. \<not> isl x \<longrightarrow> replaced T (toRoute r) (tab w) \<and> def6 w = D))
     \<and> (isRoute4 r \<longrightarrow> triple (\<lambda>w. tab w = T \<and> def6 w = D) (RouteDel nl r)
         (\<lambda>x w. gone x \<longrightarrow> deleted T (toRoute r) (tab w) \<and> def6 w = D))
     \<and> triple (\<lambda>w. tab w = T \<and> def6 w = D) (RouteDel nl (ipv6Delete r))
         (\<lambda>x w. gone6 x \<longrightarrow> tab w = T \<and> def6 w = D - {ipv6Delete r}))"

lemma tableLawsD:
  assumes "tableLaws tab def6 nl"
  shows "triple (\<lambda>w. tab w = T \<and> def6 w = D) (RouteListMain nl FAMILY_V4)
       (\<lambda>x w. tab w = T \<and> def6 w = D \<and> (\<forall>l. x = Inr l \<longrightarrow> toRoute ` set l = T \<and> (\<forall>q \<in> T. wellRoute q)))"
    and "triple (\<lambda>w. tab w = T \<and> def6 w = D) (RouteListMain nl FAMILY_V6)
       (\<lambda>x w. tab w = T \<and> def6 w = D \<and> (\<forall>l. x = Inr l \<longrightarrow> ipv6Delete ` {r \<in> set l. isIPv6Default r} = D)
          \<and> (\<forall>e. x = Inl e \<and> noIPv6Stack e \<longrightarrow> D = {}))"
    and "isRoute4 r \<Longrightarrow> triple (\<lambda>w. tab w = T \<and> def6 w = D) (RouteReplace nl r)
         (\<lambda>x w. \<not> isl x \<longrightarrow> replaced T (toRoute r) (tab w) \<and> def6 w = D)"
    and "isRoute4 r \<Longrightarrow> triple (\<lambda>w. tab w = T \<and> def6 w = D) (RouteDel nl r)
         (\<lambda>x w. gone x \<longrightarrow> deleted T (toRoute r) (tab w) \<and> def6 w = D)"
    and "triple (\<lambda>w. tab w = T \<and> def6 w = D) (RouteDel nl (ipv6Delete r))
         (\<lambda>x w. gone6 x \<longrightarrow> tab w = T \<and> def6 w = D - {ipv6Delete r})"
  using assms unfolding tableLaws_def by blast+

subsection \<open>Replacing several routes, deleting several routes\<close>

text \<open>
  The routes \<open>R\<close>, with distinct keys, are in, nothing else is new, and what went had the key of one
  of them; the routes \<open>S\<close> are out, and what went has the destination, the link and the protocol of one of them.
\<close>

definition installed :: "route set \<Rightarrow> route set \<Rightarrow> route set \<Rightarrow> bool" where
  "installed T R T' \<longleftrightarrow> R \<subseteq> T' \<and> T' \<subseteq> T \<union> R \<and> (\<forall>q \<in> T - T'. routeKey q \<in> routeKey ` R)
     \<and> (inj_on routeKey T \<longrightarrow> inj_on routeKey T')"

definition swept :: "route set \<Rightarrow> route set \<Rightarrow> route set \<Rightarrow> bool" where
  "swept T S T' \<longleftrightarrow> S \<inter> T' = {} \<and> T' \<subseteq> T
     \<and> (\<forall>q \<in> T - T'. \<exists>s \<in> S. roDst q = roDst s \<and> roLinkIndex q = roLinkIndex s \<and> roProtocol q = roProtocol s)"

lemma installed_empty [simp]: "installed T {} T"
  by (simp add: installed_def)

lemma installed_step:
  assumes "replaced T r T1" and "installed T1 R T'" and "inj_on routeKey (insert r R)"
  shows "installed T (insert r R) T'"
proof -
  have "r \<in> T'"
  proof (rule ccontr)
    assume "r \<notin> T'"
    then have "r \<in> T1 - T'" using assms(1) by (simp add: replaced_def)
    then have "routeKey r \<in> routeKey ` R" using assms(2) by (simp add: installed_def)
    then have "r \<in> R" using assms(3) by (auto dest: inj_onD)
    with \<open>r \<notin> T'\<close> assms(2) show False by (auto simp: installed_def)
  qed
  then show ?thesis
    using assms(1,2) unfolding replaced_def installed_def by (auto 0 3)
qed

lemma swept_empty [simp]: "swept T {} T"
  by (simp add: swept_def)

lemma swept_step: "deleted T r T1 \<Longrightarrow> swept T1 S T' \<Longrightarrow> swept T (insert r S) T'"
  unfolding deleted_def swept_def by (auto 0 3)

text \<open>The routes the client writes and deletes, as the table shows them.\<close>

definition local4 :: "Prefix \<Rightarrow> bool" where
  "local4 p \<longleftrightarrow> Is4 (pAddr p) \<and> 0 < pBits p \<and> pBits p \<le> 32"

lemma PrefixFrom_4: "Is4 a \<Longrightarrow> 0 \<le> n \<Longrightarrow> n \<le> 32 \<Longrightarrow> PrefixFrom a n = Prefix a n"
  by (cases a) (auto simp: PrefixFrom_def)

lemma Is4_simps: "Is4 a \<Longrightarrow> Unmap a = a" "Is4 a \<Longrightarrow> IsValid a"
  by (cases a; simp)+

definition viaGateway :: "Addr \<Rightarrow> int \<Rightarrow> Prefix \<Rightarrow> route" where
  "viaGateway gw link p = \<lparr>roDst = p, roGw = Unmap gw, roLinkIndex = link, roPriority = 0,
     roProtocol = routeProtocol, roScope = 0\<rparr>"

definition viaTunnel :: "int \<Rightarrow> route" where
  "viaTunnel wgIndex = \<lparr>roDst = Prefix (Addr4 0) 0, roGw = zeroAddr, roLinkIndex = wgIndex, roPriority = 0,
     roProtocol = routeProtocol, roScope = SCOPE_LINK\<rparr>"

lemma toRoute_localRoute: "local4 p \<Longrightarrow> toRoute (localRoute gw link p) = viaGateway gw link p"
  by (cases p) (simp add: local4_def toRoute_def localRoute_def viaGateway_def ipNet_def noRoute_def PrefixFrom_4 Is4_simps)

lemma toRoute_wgDefault: "toRoute (wgDefault i) = viaTunnel i"
  by (simp add: toRoute_def wgDefault_def viaTunnel_def noRoute_def PrefixFrom_4 Is4_simps)

lemma isRoute4_simps [simp]: "isRoute4 (wgDefault i)" "Is4 (pAddr p) \<Longrightarrow> isRoute4 (localRoute gw link p)"
  "Is4 (pAddr (roDst r)) \<Longrightarrow> isRoute4 (staleRoute r)"
  by (simp_all add: isRoute4_def wgDefault_def localRoute_def staleRoute_def ipNet_def)

lemma toRoute_staleRoute: "wellRoute r \<Longrightarrow> toRoute (staleRoute r) = r"
  by (cases r; cases "roDst r")
    (auto simp: wellRoute_def toRoute_def staleRoute_def ipNet_def noRoute_def PrefixFrom_4 Is4_simps zeroAddr_def)

lemma replaceLocals_triple:
  assumes "tableLaws tab def6 nl" and "\<forall>p \<in> set ps. local4 p"
  shows "triple (\<lambda>w. tab w = T \<and> def6 w = D) (replaceLocals nl gw link ps)
    (\<lambda>x w. \<not> isl x \<longrightarrow> installed T (viaGateway gw link ` set ps) (tab w) \<and> def6 w = D)"
  using assms(2)
proof (induction ps arbitrary: T)
  case Nil
  show ?case by (auto intro: triple_ret)
next
  case (Cons p ps)
  let ?r = "viaGateway gw link p" and ?R = "viaGateway gw link ` set ps"
  have p: "local4 p" "isRoute4 (localRoute gw link p)" using Cons.prems by (auto simp: local4_def)
  have keys: "inj_on routeKey (insert ?r ?R)"
    by (auto simp: inj_on_def routeKey_def viaGateway_def)
  have rest: "triple (\<lambda>w. replaced T ?r (tab w) \<and> def6 w = D) (replaceLocals nl gw link ps)
      (\<lambda>x w. \<not> isl x \<longrightarrow> installed T (insert ?r ?R) (tab w) \<and> def6 w = D)"
  proof (rule triple_known [where P = "replaced T ?r" and f = tab])
    fix T1
    assume step: "replaced T ?r T1"
    show "triple (\<lambda>w. tab w = T1 \<and> def6 w = D) (replaceLocals nl gw link ps)
      (\<lambda>x w. \<not> isl x \<longrightarrow> installed T (insert ?r ?R) (tab w) \<and> def6 w = D)"
      by (rule triple_post [OF Cons.IH]) (use Cons.prems installed_step [OF step _ keys] in auto)
  qed
  show ?case
    unfolding replaceLocals.simps
    apply (rule triple_bindE [where R = "\<lambda>x w. \<not> isl x \<longrightarrow> replaced T ?r (tab w) \<and> def6 w = D"])
      apply (rule triple_mapErr [OF tableLawsD(3) [OF assms(1) p(2), unfolded toRoute_localRoute [OF p(1)]]]; simp)
     apply simp
    using rest by simp
qed

lemma installed_snoc:
  assumes "installed T R T1" and "replaced T1 r T'" and "inj_on routeKey (insert r R)"
  shows "installed T (insert r R) T'"
proof -
  have "q \<in> T'" if "q \<in> R" for q
  proof (rule ccontr)
    assume "q \<notin> T'"
    then have "routeKey q = routeKey r" using that assms(1,2) by (auto simp: installed_def replaced_def)
    then have "q = r" using that assms(3) by (auto simp: inj_on_def)
    with \<open>q \<notin> T'\<close> assms(2) show False by (simp add: replaced_def)
  qed
  then have "insert r R \<subseteq> T'" using assms(2) by (auto simp: replaced_def)
  moreover have "T' \<subseteq> T \<union> insert r R" using assms(1,2) by (fastforce simp: installed_def replaced_def)
  moreover have "routeKey q \<in> routeKey ` insert r R" if "q \<in> T - T'" for q
    using that assms(1,2) by (cases "q \<in> T1") (auto simp: installed_def replaced_def)
  moreover have "inj_on routeKey T \<longrightarrow> inj_on routeKey T'" using assms(1,2) by (simp add: installed_def replaced_def)
  ultimately show ?thesis unfolding installed_def by blast
qed

lemma deleteStale_triple:
  assumes "tableLaws tab def6 nl" and "\<forall>r \<in> set rs. wellRoute r"
  shows "triple (\<lambda>w. tab w = T \<and> def6 w = D) (deleteStale nl rs)
    (\<lambda>x w. \<not> isl x \<longrightarrow> swept T (set rs) (tab w) \<and> def6 w = D)"
  using assms(2)
proof (induction rs arbitrary: T)
  case Nil
  show ?case by (auto intro: triple_ret)
next
  case (Cons r rs)
  have r: "wellRoute r" "isRoute4 (staleRoute r)" using Cons.prems by (auto simp: wellRoute_def)
  have rest: "triple (\<lambda>w. deleted T r (tab w) \<and> def6 w = D) (deleteStale nl rs)
      (\<lambda>x w. \<not> isl x \<longrightarrow> swept T (insert r (set rs)) (tab w) \<and> def6 w = D)"
  proof (rule triple_known [where P = "deleted T r" and f = tab])
    fix T1
    assume step: "deleted T r T1"
    show "triple (\<lambda>w. tab w = T1 \<and> def6 w = D) (deleteStale nl rs)
      (\<lambda>x w. \<not> isl x \<longrightarrow> swept T (insert r (set rs)) (tab w) \<and> def6 w = D)"
      by (rule triple_post [OF Cons.IH]) (use Cons.prems swept_step [OF step] in auto)
  qed
  show ?case
    unfolding deleteStale.simps
    apply (rule triple_bind [OF tableLawsD(4) [OF assms(1) r(2), unfolded toRoute_staleRoute [OF r(1)]]])
    subgoal for x
      using rest by (cases x) (auto simp: gone_def intro!: triple_ret)
    done
qed

lemma deleteIPv6List_triple:
  assumes "tableLaws tab def6 nl"
  shows "triple (\<lambda>w. tab w = T \<and> def6 w = D) (deleteIPv6List nl rs)
    (\<lambda>x w. \<not> isl x \<longrightarrow> tab w = T \<and> def6 w = D - ipv6Delete ` {r \<in> set rs. isIPv6Default r})"
proof (induction rs arbitrary: D)
  case Nil
  show ?case by (auto intro: triple_ret)
next
  case (Cons r rs)
  have rest: "triple (\<lambda>w. tab w = T \<and> def6 w = D - {ipv6Delete r}) (deleteIPv6List nl rs)
     (\<lambda>x w. \<not> isl x \<longrightarrow> tab w = T \<and> def6 w = D - {ipv6Delete r} - ipv6Delete ` {r \<in> set rs. isIPv6Default r})"
    by (rule Cons.IH)
  show ?case
  proof (cases "isIPv6Default r")
    case True
    have all: "D - ipv6Delete ` {q \<in> set (r # rs). isIPv6Default q} = D - {ipv6Delete r} - ipv6Delete ` {q \<in> set rs. isIPv6Default q}"
      using True by auto
    show ?thesis
      unfolding deleteIPv6List.simps all
      apply (simp only: True not_True_eq_False if_False)
      apply (rule triple_bind [OF tableLawsD(5) [OF assms]])
      subgoal for x
        by (cases x) (auto simp: gone6_def intro!: triple_ret triple_if triple_pre [OF rest])
      done
  next
    case False
    then have "{q \<in> set (r # rs). isIPv6Default q} = {q \<in> set rs. isIPv6Default q}" by auto
    then show ?thesis using Cons.IH False by (simp only: deleteIPv6List.simps if_True not_False_eq_True)
  qed
qed

lemma deleteIPv6Defaults_triple:
  assumes "tableLaws tab def6 nl"
  shows "triple (\<lambda>w. tab w = T \<and> def6 w = D) (deleteIPv6Defaults nl) (\<lambda>x w. \<not> isl x \<longrightarrow> tab w = T \<and> def6 w = {})"
proof -
  have "triple (\<lambda>w. tab w = T \<and> def6 w = D \<and> (\<forall>l. x = Inr l \<longrightarrow> ipv6Delete ` {r \<in> set l. isIPv6Default r} = D)
          \<and> (\<forall>e. x = Inl e \<and> noIPv6Stack e \<longrightarrow> D = {}))
      (case x of Inl e \<Rightarrow> if noIPv6Stack e then ret (Inr ()) else ret (Inl (WrapErr ''list routes'' (errnoError e)))
        | Inr rs \<Rightarrow> deleteIPv6List nl rs) (\<lambda>x w. \<not> isl x \<longrightarrow> tab w = T \<and> def6 w = {})" for x
  proof (cases x)
    case (Inr rs)
    show ?thesis
    proof (cases "ipv6Delete ` {r \<in> set rs. isIPv6Default r} = D")
      case True
      show ?thesis
        unfolding Inr sum.case by (rule triple_pre [OF triple_post [OF deleteIPv6List_triple [OF assms, of T D rs]]]) (simp_all add: True)
    qed (simp add: Inr triple_def)
  qed (auto intro!: triple_ret)
  then show ?thesis
    unfolding deleteIPv6Defaults_def by (rule triple_bind [OF tableLawsD(2) [OF assms]])
qed

subsection \<open>A whole pass\<close>

definition wanted :: "Addr \<Rightarrow> int \<Rightarrow> int \<Rightarrow> Prefix list \<Rightarrow> route set" where
  "wanted gw link wgIndex ps = insert (viaTunnel wgIndex) (viaGateway gw link ` set ps)"

lemma wanted_keys: "\<forall>p \<in> set ps. local4 p \<Longrightarrow> inj_on routeKey (wanted gw link i ps)"
  by (auto simp: inj_on_def routeKey_def wanted_def viaTunnel_def viaGateway_def local4_def)

definition passed :: "route set \<Rightarrow> int \<Rightarrow> Prefix list \<Rightarrow> route set \<Rightarrow> bool" where
  "passed T wgIndex ps T' \<longleftrightarrow> (\<exists>got plan T1. set got = T \<and> planRoutes got wgIndex ps = Inr plan
     \<and> installed T (wanted (plGw plan) (plGwLink plan) wgIndex ps) T1 \<and> swept T1 {q \<in> T. isStale wgIndex ps q} T')"

lemma planRoutes_plan:
  assumes "planRoutes got wgIndex ps = Inr plan"
  shows "plLocal plan = ps" and "set (plStale plan) = {q \<in> set got. isStale wgIndex ps q}"
  using assms by (auto simp: planRoutes_def Let_def split: option.splits)

lemma ensureRoutes_triple:
  assumes "tableLaws tab def6 nl" and ps: "\<forall>p \<in> set ps. local4 p"
  shows "triple (\<lambda>w. tab w = T \<and> def6 w = D) (ensureRoutes nl wgIndex ps)
    (\<lambda>x w. \<not> isl x \<longrightarrow> (\<forall>q \<in> T. wellRoute q) \<and> passed T wgIndex ps (tab w) \<and> def6 w = {})"
proof -
  have main: "triple (\<lambda>w. tab w = T \<and> def6 w = D)
     (bindE (replaceLocals nl (plGw plan) (plGwLink plan) (plLocal plan)) (\<lambda>_.
         bindE (mapErr g (RouteReplace nl (wgDefault wgIndex))) (\<lambda>_.
         bindE (deleteStale nl (plStale plan)) (\<lambda>_. deleteIPv6Defaults nl))))
     (\<lambda>x w. \<not> isl x \<longrightarrow> passed T wgIndex ps (tab w) \<and> def6 w = {})"
    if plan: "planRoutes got wgIndex ps = Inr plan" and "set got = T" and T: "\<forall>q \<in> T. wellRoute q" for got plan g
  proof -
    let ?R = "viaGateway (plGw plan) (plGwLink plan) ` set ps" and ?W = "wanted (plGw plan) (plGwLink plan) wgIndex ps"
    let ?S = "{q \<in> T. isStale wgIndex ps q}"
    note plan' = planRoutes_plan [OF plan, unfolded \<open>set got = T\<close>]
    have stale: "\<forall>r \<in> set (plStale plan). wellRoute r" using T plan' by auto
    have 4: "triple (\<lambda>w. passed T wgIndex ps (tab w) \<and> def6 w = D) (deleteIPv6Defaults nl)
        (\<lambda>x w. \<not> isl x \<longrightarrow> passed T wgIndex ps (tab w) \<and> def6 w = {})"
    proof (rule triple_known [where P = "passed T wgIndex ps" and f = tab])
      fix T'
      assume "passed T wgIndex ps T'"
      then show "triple (\<lambda>w. tab w = T' \<and> def6 w = D) (deleteIPv6Defaults nl)
        (\<lambda>x w. \<not> isl x \<longrightarrow> passed T wgIndex ps (tab w) \<and> def6 w = {})"
        by (intro triple_post [OF deleteIPv6Defaults_triple [OF assms(1)]]) auto
    qed
    have 3: "triple (\<lambda>w. installed T ?W (tab w) \<and> def6 w = D) (deleteStale nl (plStale plan))
        (\<lambda>x w. \<not> isl x \<longrightarrow> passed T wgIndex ps (tab w) \<and> def6 w = D)"
    proof (rule triple_known [where P = "installed T ?W" and f = tab])
      fix T1
      assume "installed T ?W T1"
      then show "triple (\<lambda>w. tab w = T1 \<and> def6 w = D) (deleteStale nl (plStale plan))
        (\<lambda>x w. \<not> isl x \<longrightarrow> passed T wgIndex ps (tab w) \<and> def6 w = D)"
        using plan \<open>set got = T\<close> unfolding passed_def
        by (intro triple_post [OF deleteStale_triple [OF assms(1) stale]]) (auto simp: plan'(2))
    qed
    have 2: "triple (\<lambda>w. installed T ?R (tab w) \<and> def6 w = D) (mapErr g (RouteReplace nl (wgDefault wgIndex)))
        (\<lambda>x w. \<not> isl x \<longrightarrow> installed T ?W (tab w) \<and> def6 w = D)"
    proof (rule triple_known [where P = "installed T ?R" and f = tab])
      fix T1
      assume "installed T ?R T1"
      from installed_snoc [OF this _ wanted_keys [OF ps, unfolded wanted_def]]
      show "triple (\<lambda>w. tab w = T1 \<and> def6 w = D) (mapErr g (RouteReplace nl (wgDefault wgIndex)))
        (\<lambda>x w. \<not> isl x \<longrightarrow> installed T ?W (tab w) \<and> def6 w = D)"
        by (intro triple_mapErr_ok triple_post [OF tableLawsD(3) [OF assms(1), unfolded toRoute_wgDefault]])
          (auto simp: wanted_def toRoute_wgDefault)
    qed
    show ?thesis
      unfolding plan'(1)
      by (rule triple_bindE_ok [OF replaceLocals_triple [OF assms(1) ps] triple_bindE_ok [OF 2 triple_bindE_ok [OF 3 4]]])
  qed
  show ?thesis
    unfolding ensureRoutes_def
    apply (rule triple_bindE [where R = "\<lambda>x w. tab w = T \<and> def6 w = D \<and> (\<forall>l. x = Inr l \<longrightarrow> toRoute ` set l = T \<and> (\<forall>q \<in> T. wellRoute q))"])
      apply (rule triple_mapErr [OF tableLawsD(1) [OF assms(1)]]; simp)
     apply simp
    subgoal for listed
    proof (cases "toRoute ` set listed = T \<and> (\<forall>q \<in> T. wellRoute q)")
      case True
      then show ?thesis
        using main [of "map toRoute listed"] by (auto split: sum.split intro!: triple_ret)
    qed (auto simp: triple_def)
    done
qed

subsection \<open>What a pass leaves\<close>

text \<open>Where the kernel sends a packet: by a longest matching prefix.\<close>

definition leaves :: "route set \<Rightarrow> Addr \<Rightarrow> int \<Rightarrow> bool" where
  "leaves T d i \<longleftrightarrow> (\<exists>q \<in> T. Contains (roDst q) d \<and> roLinkIndex q = i
     \<and> (\<forall>q' \<in> T. Contains (roDst q') d \<longrightarrow> pBits (roDst q') \<le> pBits (roDst q)))"

text \<open>The gateway of the pod network: that of a default route outside the tunnel, or of a route of the client.\<close>

definition podGateway :: "route set \<Rightarrow> int \<Rightarrow> Addr \<Rightarrow> int \<Rightarrow> bool" where
  "podGateway T wgIndex gw link \<longleftrightarrow> (\<exists>q \<in> T. roGw q = gw \<and> IsValid gw \<and> roLinkIndex q = link
     \<and> (isDefault q \<and> link \<noteq> wgIndex \<or> roProtocol q = routeProtocol))"

lemma planRoutes_gateway:
  "planRoutes got wgIndex ps = Inr plan \<Longrightarrow> podGateway (set got) wgIndex (plGw plan) (plGwLink plan)"
  by (auto simp: planRoutes_def podGateway_def Let_def split: option.splits dest!: IndexFunc_Some intro!: bexI nth_mem)

lemma passed_elim:
  assumes "passed T wgIndex ps T'" and ps: "\<forall>p \<in> set ps. local4 p"
  obtains gw link where "podGateway T wgIndex gw link" and "wanted gw link wgIndex ps \<subseteq> T'"
    and "T' \<subseteq> T \<union> wanted gw link wgIndex ps" and "\<forall>q \<in> T'. \<not> isStale wgIndex ps q"
    and "\<forall>q \<in> T. \<not> isDefault q \<and> roProtocol q \<noteq> routeProtocol \<and> roDst q \<notin> set ps \<longrightarrow> q \<in> T'"
    and "inj_on routeKey T \<longrightarrow> inj_on routeKey T'"
proof -
  obtain got plan T1 where plan: "set got = T" "planRoutes got wgIndex ps = Inr plan"
    and ins: "installed T (wanted (plGw plan) (plGwLink plan) wgIndex ps) T1"
    and swp: "swept T1 {q \<in> T. isStale wgIndex ps q} T'"
    using assms(1) unfolding passed_def by blast
  let ?W = "wanted (plGw plan) (plGwLink plan) wgIndex ps"
  have fresh: "\<not> isStale wgIndex ps q" if "q \<in> ?W" for q
    using that ps by (auto simp: wanted_def isStale_def isDefault_def viaTunnel_def viaGateway_def local4_def)
  have kept: "q \<in> T'" if q: "q \<in> T1" "isDefault q \<and> roLinkIndex q = wgIndex \<or> \<not> isDefault q \<and> roDst q \<in> set ps" for q
  proof (rule ccontr)
    assume "q \<notin> T'"
    then obtain s where "isStale wgIndex ps s" "roDst q = roDst s" "roLinkIndex q = roLinkIndex s"
      using q(1) swp unfolding swept_def by blast
    then show False using q(2) by (auto simp: isStale_def isDefault_def split: if_splits)
  qed
  have W: "?W \<subseteq> T'"
  proof
    fix q
    assume "q \<in> ?W"
    then show "q \<in> T'"
      using ins ps by (intro kept) (auto simp: installed_def wanted_def isDefault_def viaTunnel_def viaGateway_def local4_def)
  qed
  have T': "T' \<subseteq> T \<union> ?W" using ins swp by (auto simp: installed_def swept_def)
  have stale: "\<not> isStale wgIndex ps q" if "q \<in> T'" for q
    using that T' fresh swp by (auto simp: swept_def)
  have old: "q \<in> T'" if q: "q \<in> T" "\<not> isDefault q" "roProtocol q \<noteq> routeProtocol" "roDst q \<notin> set ps" for q
  proof (rule ccontr)
    assume "q \<notin> T'"
    have "routeKey q \<notin> routeKey ` ?W"
      using q by (auto simp: wanted_def routeKey_def isDefault_def viaTunnel_def viaGateway_def)
    then have "q \<in> T1" using q(1) ins by (auto simp: installed_def)
    then obtain s where "isStale wgIndex ps s" "roDst q = roDst s" "roProtocol q = roProtocol s"
      using \<open>q \<notin> T'\<close> swp unfolding swept_def by blast
    then show False using q(2,3) by (auto simp: isStale_def isDefault_def split: if_splits)
  qed
  show thesis
  proof (rule that)
    show "podGateway T wgIndex (plGw plan) (plGwLink plan)"
      using planRoutes_gateway [OF plan(2)] plan(1) by simp
    show "inj_on routeKey T \<longrightarrow> inj_on routeKey T'"
      using ins swp by (auto simp: installed_def swept_def intro: inj_on_subset)
  qed (use W T' stale old in blast)+
qed

text \<open>
  C29. No traffic leaks around the tunnel: after a pass over the routes without an error, an IPv4 packet
  leaves through the tunnel unless its destination is in one of the local ranges or the pod network has a
  route of its own, more specific than a default route, for it; the packets for which neither holds do
  leave through the tunnel. The local ranges go to the gateway of the pod network, the pod network's own
  routes are kept, and no IPv6 default route is left.
\<close>

theorem ensureRoutes_no_leak:
  assumes "tableLaws tab def6 nl" and "list_all local4 ps"
    and "run_state (ensureRoutes nl wgIndex ps) w = (Inr (), w')"
  shows "(\<forall>d i. leaves (tab w') (Addr4 d) i \<longrightarrow> i = wgIndex \<or> (\<exists>p \<in> set ps. Contains p (Addr4 d))
        \<or> (\<exists>q \<in> tab w. \<not> isDefault q \<and> roProtocol q \<noteq> routeProtocol \<and> Contains (roDst q) (Addr4 d) \<and> roLinkIndex q = i))
    \<and> (\<forall>d. (\<forall>p \<in> set ps. \<not> Contains p (Addr4 d)) \<and> (\<forall>q \<in> tab w. Contains (roDst q) (Addr4 d) \<longrightarrow> isDefault q \<or> roProtocol q = routeProtocol)
        \<longrightarrow> leaves (tab w') (Addr4 d) wgIndex)
    \<and> (\<exists>gw link. podGateway (tab w) wgIndex gw link \<and> (\<forall>p \<in> set ps. viaGateway gw link p \<in> tab w'))
    \<and> (\<forall>q \<in> tab w. \<not> isDefault q \<and> roProtocol q \<noteq> routeProtocol \<and> roDst q \<notin> set ps \<longrightarrow> q \<in> tab w')
    \<and> def6 w' = {}"
proof -
  have ps: "\<forall>p \<in> set ps. local4 p" using assms(2) by (simp add: list_all_iff)
  have pass: "passed (tab w) wgIndex ps (tab w')" and v6: "def6 w' = {}"
    using triple_run [OF ensureRoutes_triple [where T = "tab w" and D = "def6 w", OF assms(1) ps] _ assms(3)] by simp_all
  obtain gw link where gw: "podGateway (tab w) wgIndex gw link"
    and wanted: "wanted gw link wgIndex ps \<subseteq> tab w'" and only: "tab w' \<subseteq> tab w \<union> wanted gw link wgIndex ps"
    and fresh: "\<forall>q \<in> tab w'. \<not> isStale wgIndex ps q"
    and kept: "\<forall>q \<in> tab w. \<not> isDefault q \<and> roProtocol q \<noteq> routeProtocol \<and> roDst q \<notin> set ps \<longrightarrow> q \<in> tab w'"
    by (rule passed_elim [OF pass ps])
  have owner: "roDst q \<in> set ps \<or> q \<in> tab w \<and> roProtocol q \<noteq> routeProtocol" if "q \<in> tab w'" "\<not> isDefault q" for q
    using that fresh only by (auto simp: isStale_def wanted_def isDefault_def viaTunnel_def viaGateway_def)
  have default: "viaTunnel wgIndex \<in> tab w'" using wanted by (simp add: wanted_def)
  have "drop_bit 32 d = 0" for d :: "32 word"
    by (rule bit_word_eqI) (auto simp: bit_simps)
  then have all: "Contains (roDst (viaTunnel wgIndex)) (Addr4 d)" for d
    by (simp add: Contains_def viaTunnel_def PrefixIsValid_def)
  have leak: "i = wgIndex \<or> (\<exists>p \<in> set ps. Contains p (Addr4 d))
        \<or> (\<exists>q \<in> tab w. \<not> isDefault q \<and> roProtocol q \<noteq> routeProtocol \<and> Contains (roDst q) (Addr4 d) \<and> roLinkIndex q = i)"
    if "leaves (tab w') (Addr4 d) i" for d i
  proof -
    obtain q where q: "q \<in> tab w'" "Contains (roDst q) (Addr4 d)" "roLinkIndex q = i"
      using \<open>leaves _ _ _\<close> by (auto simp: leaves_def)
    show ?thesis
    proof (cases "isDefault q")
      case True
      then show ?thesis using q fresh by (auto simp: isStale_def)
    next
      case False
      then show ?thesis using q owner [OF q(1) False] by blast
    qed
  qed
  have tunnel: "leaves (tab w') (Addr4 d) wgIndex"
    if "\<forall>p \<in> set ps. \<not> Contains p (Addr4 d)"
      "\<forall>q \<in> tab w. Contains (roDst q) (Addr4 d) \<longrightarrow> isDefault q \<or> roProtocol q = routeProtocol" for d
  proof -
    have "isDefault q" if "q \<in> tab w'" "Contains (roDst q) (Addr4 d)" for q
      using that owner [of q] \<open>\<forall>p \<in> set ps. \<not> Contains p (Addr4 d)\<close>
        \<open>\<forall>q \<in> tab w. Contains (roDst q) (Addr4 d) \<longrightarrow> isDefault q \<or> roProtocol q = routeProtocol\<close> by blast
    then show ?thesis
      unfolding leaves_def using default all by (intro bexI [of _ "viaTunnel wgIndex"]) (auto simp: isDefault_def viaTunnel_def)
  qed
  have locals: "\<forall>p \<in> set ps. viaGateway gw link p \<in> tab w'" using wanted by (auto simp: wanted_def)
  show ?thesis
    using leak tunnel gw locals kept v6 by (intro conjI allI impI exI [of _ gw] exI [of _ link]) auto
qed

text \<open>A main table that keeps the laws, and the one of a pod before its first pass.\<close>

definition simTable :: "netSim netlink" where
  "simTable = simNetlink\<lparr>
     RouteListMain := (\<lambda>f. readSim (\<lambda>w. case f of
        FAMILY_V4 \<Rightarrow> let rs = filter isRoute4 (nsRoutes w) in
          if list_all (\<lambda>r. wellRoute (toRoute r)) rs then Inr rs else Inl EINVAL
      | FAMILY_V6 \<Rightarrow> Inr (filter (\<lambda>r. \<not> isRoute4 r) (nsRoutes w)))),
     RouteReplace := (\<lambda>r. writeSim (\<lambda>w. w\<lparr>nsRoutes :=
        r # filter (\<lambda>x. \<not> (isRoute4 x \<and> routeKey (toRoute x) = routeKey (toRoute r))) (nsRoutes w)\<rparr>) (Inr ())),
     RouteDel := (\<lambda>r. writeSim (\<lambda>w. w\<lparr>nsRoutes :=
        filter (\<lambda>x. \<not> (if isRoute4 r then isRoute4 x \<and> toRoute x = toRoute r
                          else \<not> isRoute4 x \<and> isIPv6Default x \<and> ipv6Delete x = r)) (nsRoutes w)\<rparr>) (Inr ()))\<rparr>"

definition simTab :: "netSim \<Rightarrow> route set" where
  "simTab w = toRoute ` {r \<in> set (nsRoutes w). isRoute4 r}"

definition simDef6 :: "netSim \<Rightarrow> Route set" where
  "simDef6 w = ipv6Delete ` {r \<in> set (nsRoutes w). \<not> isRoute4 r \<and> isIPv6Default r}"

lemma isRoute4_ipv6Delete [simp]: "\<not> isRoute4 (ipv6Delete r)"
  by (simp add: isRoute4_def ipv6Delete_def)

lemma simTable_laws: "tableLaws simTab simDef6 simTable"
proof -
  have def6: "simDef6 (w\<lparr>nsRoutes := filter (\<lambda>x. \<not> (\<not> isRoute4 x \<and> isIPv6Default x \<and> ipv6Delete x = r)) (nsRoutes w)\<rparr>) = simDef6 w - {r}" for w r
    by (auto simp: simDef6_def)
  show ?thesis
    unfolding tableLaws_def simTable_def
    by (auto simp: triple_def def6 Let_def list_all_iff split: if_splits) (auto simp: simTab_def simDef6_def replaced_def deleted_def inj_on_def)
qed

definition podTable :: netSim where
  "podTable = \<lparr>nsLinks = [\<lparr>lnIndex = 7, lnName = WgInterface, lnMTU = TunnelMTU\<rparr>], nsAddrs = [],
     nsRoutes = [
       noRoute\<lparr>rtDst := Some (IPNet (Addr4 0) 0 32), rtGw := Some (Addr4 0x0AF40001), rtLinkIndex := 2, rtProtocol := 3, rtTable := RT_TABLE_MAIN\<rparr>,
       noRoute\<lparr>rtDst := Some (IPNet (Addr4 0x0AF40000) 24 32), rtLinkIndex := 2, rtProtocol := 2, rtScope := SCOPE_LINK, rtTable := RT_TABLE_MAIN\<rparr>,
       noRoute\<lparr>rtLinkIndex := 2, rtProtocol := 3, rtTable := RT_TABLE_MAIN\<rparr>],
     nsRules = [], nsKey = 5, nsPeers = [], nsClock = 0, nsDrop = False, nsIptables = []\<rparr>"

definition exampleLocals :: "Prefix list" where
  "exampleLocals = [Prefix (Addr4 0x0A000000) 8, Prefix (Addr4 0xC0A80000) 16]"

lemma podTable_view: "simTab podTable = {\<lparr>roDst = Prefix (Addr4 0) 0, roGw = Addr4 0x0AF40001, roLinkIndex = 2, roPriority = 0, roProtocol = 3, roScope = 0\<rparr>,
    \<lparr>roDst = Prefix (Addr4 0x0AF40000) 24, roGw = zeroAddr, roLinkIndex = 2, roPriority = 0, roProtocol = 2, roScope = SCOPE_LINK\<rparr>}"
  "simDef6 podTable \<noteq> {}"
proof -
  have "{r \<in> set (nsRoutes podTable). isRoute4 r} = set (filter isRoute4 (nsRoutes podTable))" by simp
  then show "simTab podTable = {\<lparr>roDst = Prefix (Addr4 0) 0, roGw = Addr4 0x0AF40001, roLinkIndex = 2, roPriority = 0, roProtocol = 3, roScope = 0\<rparr>,
    \<lparr>roDst = Prefix (Addr4 0x0AF40000) 24, roGw = zeroAddr, roLinkIndex = 2, roPriority = 0, roProtocol = 2, roScope = SCOPE_LINK\<rparr>}"
    unfolding simTab_def by (simp add: podTable_def isRoute4_def noRoute_def toRoute_def PrefixFrom_4 Is4_simps)
  have "last (nsRoutes podTable) \<in> {r \<in> set (nsRoutes podTable). \<not> isRoute4 r \<and> isIPv6Default r}"
    by (simp add: podTable_def isRoute4_def noRoute_def isIPv6Default_def)
  then show "simDef6 podTable \<noteq> {}"
    unfolding simDef6_def by blast
qed

lemma exampleLocals_4: "list_all local4 exampleLocals"
  by (simp add: exampleLocals_def local4_def)

lemma podTable_pass: "fst (run_state (ensureRoutes simTable 7 exampleLocals) podTable) = Inr ()"
  by code_simp

theorem ensureRoutes_no_leak_witness:
  "let (r, w') = run_state (ensureRoutes simTable 7 exampleLocals) podTable in
   r = Inr () \<and> simDef6 podTable \<noteq> {} \<and> simDef6 w' = {}
   \<and> leaves (simTab w') (Addr4 0x08080808) 7 \<and> \<not> leaves (simTab w') (Addr4 0x08080808) 2"
proof -
  obtain r w' where run: "run_state (ensureRoutes simTable 7 exampleLocals) podTable = (r, w')"
    by (metis prod.exhaust)
  then have r: "r = Inr ()" using podTable_pass by simp
  note facts = ensureRoutes_no_leak [OF simTable_laws exampleLocals_4 run [unfolded r]]
  have locals: "\<forall>p \<in> set exampleLocals. \<not> Contains p (Addr4 0x08080808)" by code_simp
  have pod: "\<forall>q \<in> simTab podTable. Contains (roDst q) (Addr4 0x08080808) \<longrightarrow> isDefault q \<or> roProtocol q = routeProtocol"
    unfolding podTable_view(1) by code_simp
  have "leaves (simTab w') (Addr4 0x08080808) 7"
    using facts locals pod by blast
  moreover have "\<not> leaves (simTab w') (Addr4 0x08080808) 2"
  proof
    assume "leaves (simTab w') (Addr4 0x08080808) 2"
    from mp [OF spec [OF spec [OF conjunct1 [OF facts]]] this] locals pod show False by auto
  qed
  ultimately show ?thesis
    using run r podTable_view(2) facts by simp
qed

lemma podGateway_valid:
  assumes "podGateway T i gw link" and "\<forall>q \<in> T. wellRoute q"
  shows "IsValid gw" and "Unmap gw = gw"
  using assms by (auto simp: podGateway_def wellRoute_def zeroAddr_def)

lemma planRoutes_own:
  assumes none: "\<forall>r \<in> set got. isDefault r \<longrightarrow> roLinkIndex r = wgIndex"
    and own: "\<forall>r \<in> set got. roProtocol r = routeProtocol \<and> IsValid (roGw r) \<longrightarrow> roGw r = gw \<and> roLinkIndex r = link"
    and ex: "\<exists>r \<in> set got. roProtocol r = routeProtocol \<and> IsValid (roGw r)"
  shows "\<exists>plan. planRoutes got wgIndex ps = Inr plan \<and> plGw plan = gw \<and> plGwLink plan = link"
proof -
  have first: "IndexFunc (\<lambda>r. isDefault r \<and> roLinkIndex r \<noteq> wgIndex \<and> IsValid (roGw r)) got = None"
    using none by (auto simp: IndexFunc_None)
  obtain i where i: "IndexFunc (\<lambda>r. roProtocol r = routeProtocol \<and> IsValid (roGw r)) got = Some i"
    using ex IndexFunc_None [of "\<lambda>r. roProtocol r = routeProtocol \<and> IsValid (roGw r)" got]
    by (cases "IndexFunc (\<lambda>r. roProtocol r = routeProtocol \<and> IsValid (roGw r)) got") auto
  then have "got ! i \<in> set got" "roProtocol (got ! i) = routeProtocol" "IsValid (roGw (got ! i))"
    using IndexFunc_Some [OF i] by auto
  then show ?thesis
    using own by (simp add: planRoutes_def first i)
qed

text \<open>
  C32. A restarted sidecar finds its way: after a pass without an error, when the default route is already the
  tunnel's, planning again from any listing of the table, for any local ranges, finds the gateway of the
  pod network that the local ranges were sent to, so the next pass does not fail for want of a gateway.
\<close>

theorem ensureRoutes_restart:
  assumes "tableLaws tab def6 nl" and "list_all local4 ps" and "ps \<noteq> []"
    and "inj_on routeKey (tab w)" and "\<forall>q \<in> tab w. roProtocol q = routeProtocol \<longrightarrow> roPriority q = 0"
    and "run_state (ensureRoutes nl wgIndex ps) w = (Inr (), w')"
  shows "\<exists>gw link. podGateway (tab w) wgIndex gw link \<and> (\<forall>p \<in> set ps. viaGateway gw link p \<in> tab w')
    \<and> (\<forall>got ps'. set got = tab w' \<longrightarrow> (\<exists>plan. planRoutes got wgIndex ps' = Inr plan \<and> plGw plan = gw \<and> plGwLink plan = link))"
proof -
  have ps: "\<forall>p \<in> set ps. local4 p" using assms(2) by (simp add: list_all_iff)
  have pass: "passed (tab w) wgIndex ps (tab w')" and well: "\<forall>q \<in> tab w. wellRoute q"
    using triple_run [OF ensureRoutes_triple [where T = "tab w" and D = "def6 w", OF assms(1) ps] _ assms(6)] by simp_all
  obtain gw link where gw: "podGateway (tab w) wgIndex gw link"
    and wanted: "wanted gw link wgIndex ps \<subseteq> tab w'" and only: "tab w' \<subseteq> tab w \<union> wanted gw link wgIndex ps"
    and fresh: "\<forall>q \<in> tab w'. \<not> isStale wgIndex ps q" and inj: "inj_on routeKey (tab w')"
    by (rule passed_elim [OF pass ps]) (use assms(4) in blast)
  note valid = podGateway_valid [OF gw well]
  have unique: "q = r" if "q \<in> tab w'" "r \<in> wanted gw link wgIndex ps" "routeKey q = routeKey r" for q r
    using that inj wanted by (auto dest: inj_onD)
  have prio: "roPriority q = 0" if "q \<in> tab w'" "roProtocol q = routeProtocol" for q
    using that only assms(5) by (auto simp: wanted_def viaTunnel_def viaGateway_def)
  have gw': "Unmap gw = gw" "IsValid gw" using valid by simp_all
  have own: "roGw q = gw \<and> roLinkIndex q = link"
    if q: "q \<in> tab w'" "roProtocol q = routeProtocol" "IsValid (roGw q)" for q
  proof (cases "isDefault q")
    case True
    then have "pAddr (roDst q) = Addr4 0"
      using q(1) only well ps
      by (cases "q \<in> tab w") (fastforce simp: wellRoute_def wanted_def isDefault_def viaTunnel_def viaGateway_def local4_def)+
    then have "roDst q = Prefix (Addr4 0) 0"
      using True by (cases "roDst q") (simp add: isDefault_def)
    then have "q = viaTunnel wgIndex"
      using prio [OF q(1,2)] by (intro unique [OF q(1)]) (auto simp: wanted_def routeKey_def viaTunnel_def)
    then show ?thesis using q(3) by (simp add: viaTunnel_def zeroAddr_def)
  next
    case False
    then have "roDst q \<in> set ps" using q fresh by (auto simp: isStale_def)
    then have "q = viaGateway gw link (roDst q)"
      using prio [OF q(1,2)] by (intro unique [OF q(1)]) (auto simp: wanted_def routeKey_def viaGateway_def)
    then show ?thesis by (metis gw'(1) viaGateway_def route.select_convs(2,3))
  qed
  have some: "\<exists>r \<in> tab w'. roProtocol r = routeProtocol \<and> IsValid (roGw r)"
    using assms(3) wanted gw'
    by (intro bexI [of _ "viaGateway gw link (hd ps)"]) (auto simp: wanted_def viaGateway_def)
  have none: "\<forall>r \<in> tab w'. isDefault r \<longrightarrow> roLinkIndex r = wgIndex"
    using fresh by (auto simp: isStale_def)
  have "\<exists>plan. planRoutes got wgIndex ps' = Inr plan \<and> plGw plan = gw \<and> plGwLink plan = link" if "set got = tab w'" for got ps'
    by (rule planRoutes_own) (use that own some none in auto)
  then show ?thesis
    using gw wanted unfolding wanted_def by blast
qed

theorem ensureRoutes_restart_witness:
  "let w' = snd (run_state (ensureRoutes simTable 7 exampleLocals) podTable) in
   \<exists>gw link. podGateway (simTab podTable) 7 gw link
     \<and> (\<exists>plan. planRoutes (map toRoute (filter isRoute4 (nsRoutes w'))) 7 [] = Inr plan \<and> plGw plan = gw \<and> plGwLink plan = link)"
proof -
  obtain w' where run: "run_state (ensureRoutes simTable 7 exampleLocals) podTable = (Inr (), w')"
    using podTable_pass by (metis prod.collapse)
  have inj: "inj_on routeKey (simTab podTable)"
    unfolding podTable_view(1) by (simp add: routeKey_def)
  have prio: "\<forall>q \<in> simTab podTable. roProtocol q = routeProtocol \<longrightarrow> roPriority q = 0"
    unfolding podTable_view(1) by simp
  have listing: "set (map toRoute (filter isRoute4 (nsRoutes w'))) = simTab w'"
    by (simp add: simTab_def)
  have "exampleLocals \<noteq> []" by (simp add: exampleLocals_def)
  from ensureRoutes_restart [OF simTable_laws exampleLocals_4 this inj prio run]
  obtain gw link where gw: "podGateway (simTab podTable) 7 gw link"
    and plan: "\<forall>got ps'. set got = simTab w' \<longrightarrow> (\<exists>plan. planRoutes got 7 ps' = Inr plan \<and> plGw plan = gw \<and> plGwLink plan = link)"
    by (elim exE conjE)
  have w': "snd (run_state (ensureRoutes simTable 7 exampleLocals) podTable) = w'" using run by simp
  show ?thesis
    unfolding w' Let_def
    by (rule exI [of _ gw], rule exI [of _ link], rule conjI [OF gw], rule mp [OF spec [OF spec [OF plan]] listing])
qed

section \<open>The wanted tunnel is well formed\<close>

lemma parseLocalCIDRs_cases:
  "case parseLocalCIDRs name cs of
     Inr ps \<Rightarrow> list_all2 (\<lambda>c p. \<exists>q. ParsePrefix c = Inr q \<and> pBits q \<noteq> 0 \<and> p = Masked q) cs ps
   | Inl e \<Rightarrow> \<not> isWaiting e"
proof (induction cs)
  case (Cons c cs)
  then show ?case by (auto simp: errWaiting_def split: sum.splits)
qed simp

text \<open>
  C38. The tunnel read from a status has the status's address as a single IPv4 address, its endpoint and its
  server key parsed, and its local ranges in order, masked, none of them the default route. The
  other outcome is an error, which says that the operator is not done exactly when one of the four
  fields is still empty.
\<close>

theorem desiredTunnel_typed:
  "case desiredTunnel C K peer of
     Inr t \<Rightarrow> (\<exists>a. address peer = string4 a \<and> tnAddress t = Prefix (Addr4 a) 32)
       \<and> ParseAddrPort (st_Endpoint (peerStatus peer)) = Inr (tnEndpoint t)
       \<and> ParseKey K (st_ServerPublicKey (peerStatus peer)) = Some (tnServerKey t)
       \<and> list_all2 (\<lambda>c p. \<exists>q. ParsePrefix c = Inr q \<and> pBits q \<noteq> 0 \<and> p = Masked q)
           (st_LocalCIDRs (peerStatus peer)) (tnLocalCIDRs t)
   | Inl e \<Rightarrow> isWaiting e = (address peer = [] \<or> st_Endpoint (peerStatus peer) = []
       \<or> st_ServerPublicKey (peerStatus peer) = [] \<or> st_LocalCIDRs (peerStatus peer) = [])"
proof -
  have addr: "\<exists>a. s = string4 a \<and> PrefixFrom x 32 = Prefix (Addr4 a) 32" if "ParseAddr s = Inr x" "Is4 x" for s x
    using that by (cases x) (auto simp: PrefixFrom_def dest: ParseAddr_canonical)
  show ?thesis
    using parseLocalCIDRs_cases [where name = "peerName peer" and cs = "st_LocalCIDRs (peerStatus peer)"]
    by (auto simp: desiredTunnel_def Let_def errWaiting_def split: sum.splits option.splits dest: addr)
qed

section \<open>The device settles\<close>

text \<open>What a device reports of its configuration, and what it reports after its peers were replaced.\<close>

type_synonym 'k deviceState = "'k \<times> ('k \<times> AddrPort option \<times> int \<times> IPNet list) list"

definition reported :: "'k Device \<Rightarrow> 'k deviceState" where
  "reported d = (dvPrivateKey d, map (\<lambda>p. (dpPublicKey p, map_option (\<lambda>a. AddrPort (Unmap (apAddr a)) (apPort a)) (dpEndpoint p),
     dpKeepalive p, map canonNet (dpAllowedIPs p))) (dvPeers d))"

definition configured :: "'k WgConfig \<Rightarrow> 'k deviceState \<Rightarrow> bool" where
  "configured cfg s \<longleftrightarrow> cfPrivateKey cfg = Some (fst s)
     \<and> list_all2 (\<lambda>c (k, e, i, ns). k = pcPublicKey c \<and> e = map_option (\<lambda>a. AddrPort (Unmap (apAddr a)) (apPort a)) (pcEndpoint c)
          \<and> pcKeepalive c = Some i \<and> ns = map canonNet (pcAllowedIPs c)) (cfPeers cfg) (snd s)"

lemma IPNetString_canon: "IPNetString (canonNet n) = IPNetString n"
proof -
  have "Unmap (Unmap a) = Unmap a" for a by (cases a) auto
  then show ?thesis by (simp add: canonNet_def IPNetString_def ipString_def)
qed

definition stateMatches :: "'k deviceState \<Rightarrow> 'k \<Rightarrow> 'k Tunnel \<Rightarrow> IPNet list \<Rightarrow> bool" where
  "stateMatches s key t allowed \<longleftrightarrow> fst s = key
     \<and> (\<exists>n. snd s = [(tnServerKey t, Some (tnEndpoint t), Keepalive, [n])] \<and> IPNetString n = IPNetString (hd allowed))"

lemma deviceMatches_reported: "deviceMatches (Some d) key t allowed = stateMatches (reported d) key t allowed"
proof (cases "\<exists>p. dvPeers d = [p]")
  case True
  then obtain p where p: "dvPeers d = [p]" by blast
  show ?thesis
    by (auto simp: deviceMatches_def stateMatches_def reported_def p IPNetString_canon split: option.splits list.splits)
next
  case False
  then have "\<not> deviceMatches (Some d) key t allowed"
    by (auto simp: deviceMatches_def split: list.splits)
  moreover have "\<not> stateMatches (reported d) key t allowed"
    using False by (auto simp: stateMatches_def reported_def)
  ultimately show ?thesis by simp
qed

lemma configured_matches:
  assumes "configured cfg s" and "deviceConfig dev key t = Some cfg"
    and "Unmap (apAddr (tnEndpoint t)) = apAddr (tnEndpoint t)"
  shows "stateMatches s key t allowedAll"
proof -
  have cfg: "cfg = \<lparr>cfPrivateKey = Some key, cfListenPort = None, cfReplacePeers = True,
        cfPeers = [(newPeerConfig (tnServerKey t))\<lparr>pcEndpoint := Some (tnEndpoint t),
          pcKeepalive := Some Keepalive, pcReplaceAllowedIPs := True, pcAllowedIPs := allowedAll\<rparr>]\<rparr>"
    using assms(2) by (auto simp: deviceConfig_def split: if_splits)
  show ?thesis
    using assms(1,3) by (cases "tnEndpoint t")
      (auto simp: cfg configured_def stateMatches_def newPeerConfig_def allowedAll_def canonNet_def list_all2_Cons1)
qed

section \<open>Applying the tunnel\<close>

lemma triple_both:
  "triple P m Q \<Longrightarrow> triple P' m Q' \<Longrightarrow> triple (\<lambda>w. P w \<and> P' w) m (\<lambda>x w. Q x w \<and> Q' x w)"
  by (auto intro!: tripleI dest: triple_run)

text \<open>A table that a pass leaves: the default is the tunnel, nothing stale is left, the local ranges go to one gateway.\<close>

definition tunnelled :: "route set \<Rightarrow> int \<Rightarrow> Prefix list \<Rightarrow> bool" where
  "tunnelled T i ps \<longleftrightarrow> viaTunnel i \<in> T \<and> (\<forall>q \<in> T. \<not> isStale i ps q)
     \<and> (\<exists>gw link. IsValid gw \<and> (\<forall>p \<in> set ps. viaGateway gw link p \<in> T))"

lemma passed_tunnelled:
  assumes "passed T i ps T'" and "\<forall>p \<in> set ps. local4 p" and "\<forall>q \<in> T. wellRoute q"
  shows "tunnelled T' i ps"
proof -
  obtain gw link where gw: "podGateway T i gw link" and W: "wanted gw link i ps \<subseteq> T'" and "\<forall>q \<in> T'. \<not> isStale i ps q"
    by (rule passed_elim [OF assms(1,2)])
  then show ?thesis
    using podGateway_valid(1) [OF gw assms(3)] unfolding tunnelled_def wanted_def by blast
qed

text \<open>A configuration that sets the key and replaces the peers by one, completely described.\<close>

definition onePeer :: "'k WgConfig \<Rightarrow> bool" where
  "onePeer cfg \<longleftrightarrow> cfReplacePeers cfg \<and> cfPrivateKey cfg \<noteq> None
     \<and> (\<exists>c. cfPeers cfg = [c] \<and> \<not> pcRemove c \<and> \<not> pcUpdateOnly c \<and> pcKeepalive c \<noteq> None \<and> distinct (map canonNet (pcAllowedIPs c)))"

text \<open>
  What the pod's network namespace promises: the laws of its table, a device that reports what it was
  configured with, an interface with the index \<open>i\<close>, and calls that change only what they are about.
\<close>

definition podLaws ::
    "('w \<Rightarrow> 'k deviceState) \<Rightarrow> ('w \<Rightarrow> route set) \<Rightarrow> ('w \<Rightarrow> Route set) \<Rightarrow> int \<Rightarrow> ('w, 'k) wgHost \<Rightarrow> bool" where
  "podLaws dev tab def6 i h \<longleftrightarrow> tableLaws tab def6 (netlinkOps h)
     \<and> (\<forall>v r f. maintains (\<lambda>w. dev w = v) (RouteListMain (netlinkOps h) f) \<and> maintains (\<lambda>w. dev w = v) (RouteReplace (netlinkOps h) r)
         \<and> maintains (\<lambda>w. dev w = v) (RouteDel (netlinkOps h) r))
     \<and> (\<forall>v. triple (\<lambda>w. dev w = v) (wgDevice (ctl h) WgInterface) (\<lambda>x w. dev w = v \<and> (\<forall>d. x = Inr d \<longrightarrow> reported d = v)))
     \<and> (\<forall>cfg. onePeer cfg \<longrightarrow> triple (\<lambda>_. True) (wgConfigureDevice (ctl h) WgInterface cfg)
         (\<lambda>x w. \<not> isl x \<longrightarrow> configured cfg (dev w)))
     \<and> (\<forall>v. triple (\<lambda>w. dev w = v) (LinkByName (netlinkOps h) WgInterface)
         (\<lambda>x w. dev w = v \<and> (\<forall>l. x = Inr l \<longrightarrow> lnIndex l = i)))
     \<and> (\<forall>v T D. maintains (\<lambda>w. dev w = v \<and> tab w = T \<and> def6 w = D) (wgClose (ctl h)))"

lemma maintains_deleteStale: "(\<And>r. maintains I (RouteDel nl r)) \<Longrightarrow> maintains I (deleteStale nl rs)"
  by (induction rs) (auto intro!: triple_rules)

lemma maintains_deleteIPv6List: "(\<And>r. maintains I (RouteDel nl r)) \<Longrightarrow> maintains I (deleteIPv6List nl rs)"
  by (induction rs) (auto intro!: triple_rules)

lemma maintains_replaceLocals: "(\<And>r. maintains I (RouteReplace nl r)) \<Longrightarrow> maintains I (replaceLocals nl gw link ps)"
  by (induction ps) (auto intro!: triple_rules)

lemma maintains_ensureRoutes:
  assumes "\<And>f. maintains I (RouteListMain nl f)" and "\<And>r. maintains I (RouteReplace nl r)" and "\<And>r. maintains I (RouteDel nl r)"
  shows "maintains I (ensureRoutes nl i ps)"
  unfolding ensureRoutes_def deleteIPv6Defaults_def
  by (intro triple_rules assms maintains_deleteStale maintains_deleteIPv6List maintains_replaceLocals)

lemma withClient_triple:
  assumes "triple (\<lambda>_. True) body (\<lambda>x w. \<not> isl x \<longrightarrow> Q w)" and "maintains Q (wgClose c)"
  shows "triple (\<lambda>_. True) (withClient c body) (\<lambda>x w. \<not> isl x \<longrightarrow> Q w)"
proof -
  have cls: "triple (\<lambda>w. \<not> isl r \<longrightarrow> Q w) (wgClose c) (\<lambda>_ w. \<not> isl r \<longrightarrow> Q w)" for r :: "goError + unit"
    using assms(2) by (cases "isl r") (auto simp: maintains_def triple_True)
  show ?thesis
    unfolding withClient_def
    apply (rule triple_bindE [OF triple_mapErr [OF triple_True], where R = "\<lambda>_ _. True"])
        apply simp_all
    apply (rule triple_bind [OF assms(1)], rule triple_bind [OF cls], rule triple_ret)
    by (auto split: sum.splits option.splits)
qed

text \<open>The calls of \<^verbatim>\<open>Apply\<close>, each for what a later one needs of the device.\<close>

lemma podLaws_close:
  assumes "podLaws dev tab def6 i h"
  shows "maintains (\<lambda>w. P (dev w) (tab w) (def6 w)) (wgClose (ctl h))"
  unfolding maintains_def
proof (rule tripleI)
  fix w r w'
  assume P: "P (dev w) (tab w) (def6 w)" and run: "run_state (wgClose (ctl h)) w = (r, w')"
  have "maintains (\<lambda>v. dev v = dev w \<and> tab v = tab w \<and> def6 v = def6 w) (wgClose (ctl h))"
    using assms unfolding podLaws_def by blast
  from maintains_run [OF this _ run] show "P (dev w') (tab w') (def6 w')" using P by simp
qed

lemma podLaws_link:
  assumes "podLaws dev tab def6 i h"
  shows "triple (\<lambda>w. P (dev w)) (mapErr g (LinkByName (netlinkOps h) WgInterface)) (\<lambda>x w. P (dev w) \<and> (\<forall>l. x = Inr l \<longrightarrow> lnIndex l = i))"
proof (rule triple_mapErr [where R = "\<lambda>x w. P (dev w) \<and> (\<forall>l. x = Inr l \<longrightarrow> lnIndex l = i)"], rule tripleI)
  fix w r w'
  assume P: "P (dev w)" and run: "run_state (LinkByName (netlinkOps h) WgInterface) w = (r, w')"
  have "triple (\<lambda>v. dev v = dev w) (LinkByName (netlinkOps h) WgInterface) (\<lambda>x v. dev v = dev w \<and> (\<forall>l. x = Inr l \<longrightarrow> lnIndex l = i))"
    using assms unfolding podLaws_def by blast
  from triple_run [OF this refl run] show "P (dev w') \<and> (\<forall>l. r = Inr l \<longrightarrow> lnIndex l = i)" using P by simp
qed simp_all

lemma podLaws_device:
  assumes "podLaws dev tab def6 i h"
  shows "triple (\<lambda>_. True) (mapErr g (wgDevice (ctl h) WgInterface)) (\<lambda>x w. \<forall>d. x = Inr d \<longrightarrow> dev w = reported d)"
proof (rule triple_mapErr [where R = "\<lambda>x w. \<forall>d. x = Inr d \<longrightarrow> dev w = reported d"], rule tripleI)
  fix w r w'
  assume run: "run_state (wgDevice (ctl h) WgInterface) w = (r, w')"
  have "triple (\<lambda>v. dev v = dev w) (wgDevice (ctl h) WgInterface) (\<lambda>x v. dev v = dev w \<and> (\<forall>d. x = Inr d \<longrightarrow> reported d = dev w))"
    using assms unfolding podLaws_def by blast
  from triple_run [OF this refl run] show "\<forall>d. r = Inr d \<longrightarrow> dev w' = reported d" by simp
qed simp_all

lemma podLaws_routes:
  assumes laws: "podLaws dev tab def6 i h" and ps: "\<forall>p \<in> set ps. local4 p"
  shows "triple (\<lambda>w. P (dev w)) (ensureRoutes (netlinkOps h) i ps) (\<lambda>x w. \<not> isl x \<longrightarrow> P (dev w) \<and> tunnelled (tab w) i ps \<and> def6 w = {})"
proof (rule tripleI)
  fix w r w'
  assume P: "P (dev w)" and run: "run_state (ensureRoutes (netlinkOps h) i ps) w = (r, w')"
  have tl: "tableLaws tab def6 (netlinkOps h)"
    and keep: "\<And>v f. maintains (\<lambda>w. dev w = v) (RouteListMain (netlinkOps h) f)" "\<And>v r. maintains (\<lambda>w. dev w = v) (RouteReplace (netlinkOps h) r)"
      "\<And>v r. maintains (\<lambda>w. dev w = v) (RouteDel (netlinkOps h) r)"
    using laws unfolding podLaws_def by blast+
  have "dev w' = dev w" by (rule maintains_run [OF maintains_ensureRoutes [OF keep] refl run])
  moreover have "\<not> isl r \<longrightarrow> (\<forall>q \<in> tab w. wellRoute q) \<and> passed (tab w) i ps (tab w') \<and> def6 w' = {}"
    by (rule triple_run [OF ensureRoutes_triple [where T = "tab w" and D = "def6 w", OF tl ps] _ run]) simp
  ultimately show "\<not> isl r \<longrightarrow> P (dev w') \<and> tunnelled (tab w') i ps \<and> def6 w' = {}"
    using P passed_tunnelled [OF _ ps] by auto
qed

lemma podLaws_configure:
  assumes laws: "podLaws dev tab def6 i h" and ep: "Unmap (apAddr (tnEndpoint t)) = apAddr (tnEndpoint t)"
  shows "triple (\<lambda>w. dev w = reported d) (case deviceConfig (Some d) key t of None \<Rightarrow> ret (Inr ())
      | Some cfg \<Rightarrow> mapErr g (wgConfigureDevice (ctl h) WgInterface cfg)) (\<lambda>x w. \<not> isl x \<longrightarrow> stateMatches (dev w) key t allowedAll)"
proof (cases "deviceConfig (Some d) key t")
  case None
  then have "stateMatches (reported d) key t allowedAll"
    by (simp add: deviceConfig_def deviceMatches_reported split: if_splits)
  then show ?thesis using None by (auto intro: triple_ret)
next
  case (Some cfg)
  have one: "onePeer cfg"
    using Some by (auto simp: deviceConfig_def onePeer_def newPeerConfig_def allowedAll_def split: if_splits)
  have "triple (\<lambda>_. True) (wgConfigureDevice (ctl h) WgInterface cfg) (\<lambda>x w. \<not> isl x \<longrightarrow> configured cfg (dev w))"
    using laws one unfolding podLaws_def by blast
  then have "triple (\<lambda>_. True) (wgConfigureDevice (ctl h) WgInterface cfg) (\<lambda>x w. \<not> isl x \<longrightarrow> stateMatches (dev w) key t allowedAll)"
    by (rule triple_post) (simp add: configured_matches [OF _ Some ep])
  then show ?thesis using Some by (auto intro!: triple_mapErr_ok elim: triple_pre)
qed

lemma Apply_triple:
  assumes laws: "podLaws dev tab def6 i h" and ps: "\<forall>p \<in> set (tnLocalCIDRs t). local4 p"
    and ep: "Unmap (apAddr (tnEndpoint t)) = apAddr (tnEndpoint t)"
  shows "triple (\<lambda>_. True) (Apply h key t)
    (\<lambda>x w. \<not> isl x \<longrightarrow> stateMatches (dev w) key t allowedAll \<and> tunnelled (tab w) i (tnLocalCIDRs t) \<and> def6 w = {})"
proof -
  let ?S = "\<lambda>v. stateMatches v key t allowedAll"
  let ?Q = "\<lambda>w. ?S (dev w) \<and> tunnelled (tab w) i (tnLocalCIDRs t) \<and> def6 w = {}"
  have rest: "triple (\<lambda>w. ?S (dev w)) (bindE (mapErr g (LinkByName (netlinkOps h) WgInterface)) (\<lambda>link.
      mapErr g' (ensureRoutes (netlinkOps h) (lnIndex link) (tnLocalCIDRs t)))) (\<lambda>x w. \<not> isl x \<longrightarrow> ?Q w)" for g g'
  proof (rule triple_bindE [OF podLaws_link [OF laws, where P = ?S]], goal_cases)
    case (2 l)
    show ?case
    proof (cases "lnIndex l = i")
      case True
      show ?thesis
        unfolding True by (rule triple_pre [OF triple_mapErr_ok [OF podLaws_routes [OF laws ps, where P = ?S]]]) simp
    qed (simp add: triple_def)
  qed simp
  have body: "triple (\<lambda>_. True) (bindE (mapErr e (wgDevice (ctl h) WgInterface)) (\<lambda>d.
      bindE (case deviceConfig (Some d) key t of None \<Rightarrow> ret (Inr ()) | Some cfg \<Rightarrow> mapErr e' (wgConfigureDevice (ctl h) WgInterface cfg)) (\<lambda>_.
      bindE (mapErr g (LinkByName (netlinkOps h) WgInterface)) (\<lambda>link. mapErr g' (ensureRoutes (netlinkOps h) (lnIndex link) (tnLocalCIDRs t))))))
      (\<lambda>x w. \<not> isl x \<longrightarrow> ?Q w)" for e e' g g'
    by (rule triple_bindE [OF podLaws_device [OF laws]]) (simp_all add: triple_bindE_ok [OF podLaws_configure [OF laws ep] rest])
  have any: "triple (\<lambda>_. True) m (\<lambda>x w. \<not> isl x \<longrightarrow> (\<lambda>_. True) w)" for m :: "('a, goError, unit) io"
    by (simp add: triple_True)
  have close: "maintains ?Q (wgClose (ctl h))" by (rule podLaws_close [OF laws])
  show ?thesis
    unfolding Apply_def by (rule triple_bindE_ok [OF any triple_bindE_ok [OF any withClient_triple [OF body close]]])
qed

text \<open>
  Applying a tunnel converges: when it ends without an error, whatever was there before, the device has the
  client's key and one peer, the server at its endpoint with every address allowed; the default route is
  the tunnel's, no stale route is left, the local ranges go to one gateway of the pod network, and there
  is no IPv6 default route.
\<close>

theorem Apply_converges:
  assumes "podLaws dev tab def6 i h" and "list_all local4 (tnLocalCIDRs t)"
    and "Unmap (apAddr (tnEndpoint t)) = apAddr (tnEndpoint t)"
    and "run_state (Apply h key t) w = (Inr (), w')"
  shows "stateMatches (dev w') key t allowedAll \<and> tunnelled (tab w') i (tnLocalCIDRs t) \<and> def6 w' = {}"
proof -
  have "\<forall>p \<in> set (tnLocalCIDRs t). local4 p" using assms(2) by (simp add: list_all_iff)
  from triple_run [OF Apply_triple [OF assms(1) this assms(3)] TrueI assms(4)] show ?thesis by simp
qed

text \<open>A pod with this table, its device and its interface.\<close>

definition simPodNet :: "netSim netlink" where
  "simPodNet = simTable\<lparr>LinkByName := (\<lambda>n. readSim (\<lambda>w.
     case List.find (\<lambda>l. lnName l = n \<and> lnIndex l = 7) (nsLinks w) of None \<Rightarrow> Inl LinkNotFound | Some l \<Rightarrow> Inr l))\<rparr>"

definition simClient :: "(netSim, 8 word) wgHost" where
  "simClient = simWg\<lparr>netlinkOps := simPodNet\<rparr>"

definition simDev :: "netSim \<Rightarrow> 8 word deviceState" where
  "simDev w = reported \<lparr>dvName = WgInterface, dvPrivateKey = nsKey w, dvPeers = nsPeers w\<rparr>"

definition exampleTunnel :: "8 word Tunnel" where
  "exampleTunnel = \<lparr>tnAddress = Prefix (Addr4 0x0A080002) 32, tnServerKey = 9,
     tnEndpoint = AddrPort (Addr4 0x0A60000A) 51820, tnLocalCIDRs = exampleLocals\<rparr>"

lemma canonNet_idem: "canonNet (canonNet n) = canonNet n"
  by (cases "netIP n") (auto simp: canonNet_def)

lemma reported_configured:
  assumes "onePeer cfg"
  shows "configured cfg (reported \<lparr>dvName = n, dvPrivateKey = (case cfPrivateKey cfg of None \<Rightarrow> k | Some j \<Rightarrow> j),
    dvPeers = foldl configurePeer [] (cfPeers cfg)\<rparr>)"
proof -
  obtain c key where c: "cfPeers cfg = [c]" "cfPrivateKey cfg = Some key" "\<not> pcRemove c" "\<not> pcUpdateOnly c"
    "distinct (map canonNet (pcAllowedIPs c))" "pcKeepalive c \<noteq> None"
    using assms by (auto simp: onePeer_def)
  then obtain i where "pcKeepalive c = Some i" by blast
  then show ?thesis
    using c by (auto simp: configured_def reported_def configurePeer_def newPeer_def Let_def canonNet_idem comp_def distinct_remdups_id)
qed

lemma simClient_ops: "netlinkOps simClient = simPodNet" "ctl simClient = simWgctrl"
  by (simp_all add: simClient_def simWg_def)

lemma simClient_laws: "podLaws simDev simTab simDef6 7 simClient"
  unfolding podLaws_def simClient_ops
proof (intro conjI allI impI)
  show "tableLaws simTab simDef6 simPodNet"
    using simTable_laws unfolding tableLaws_def simPodNet_def by simp
  show "maintains (\<lambda>w. simDev w = v) (RouteListMain simPodNet f)" for v f
    by (cases f) (simp_all add: simPodNet_def simTable_def maintains_readSim)
  show "maintains (\<lambda>w. simDev w = v) (RouteReplace simPodNet r)" "maintains (\<lambda>w. simDev w = v) (RouteDel simPodNet r)" for v r
    by (simp_all add: simPodNet_def simTable_def maintains_writeSim simDev_def)
  show "triple (\<lambda>w. simDev w = v) (wgDevice simWgctrl WgInterface) (\<lambda>x w. simDev w = v \<and> (\<forall>d. x = Inr d \<longrightarrow> reported d = v))" for v
    by (auto simp: simWgctrl_def triple_def simDev_def)
  show "triple (\<lambda>_. True) (wgConfigureDevice simWgctrl WgInterface cfg) (\<lambda>x w. \<not> isl x \<longrightarrow> configured cfg (simDev w))" if "onePeer cfg" for cfg
  proof -
    have "cfReplacePeers cfg" using that by (simp add: onePeer_def)
    then show ?thesis by (simp add: simWgctrl_def triple_def simDev_def reported_configured [OF that])
  qed
  show "triple (\<lambda>w. simDev w = v) (LinkByName simPodNet WgInterface) (\<lambda>x w. simDev w = v \<and> (\<forall>l. x = Inr l \<longrightarrow> lnIndex l = 7))" for v
    by (auto simp: simPodNet_def triple_def find_Some_iff split: option.splits)
  show "maintains (\<lambda>w. simDev w = v \<and> simTab w = T \<and> simDef6 w = D) (wgClose simWgctrl)" for v T D
    by (simp add: simWgctrl_def maintains_ret)
qed

lemma exampleTunnel_applies: "fst (run_state (Apply simClient 5 exampleTunnel) podTable) = Inr ()"
  by code_simp

theorem Apply_converges_witness:
  "let (r, w') = run_state (Apply simClient 5 exampleTunnel) podTable in
   r = Inr () \<and> stateMatches (simDev w') 5 exampleTunnel allowedAll \<and> tunnelled (simTab w') 7 exampleLocals \<and> simDef6 w' = {}"
proof -
  obtain w' where run: "run_state (Apply simClient 5 exampleTunnel) podTable = (Inr (), w')"
    using exampleTunnel_applies by (metis prod.collapse)
  have "list_all local4 (tnLocalCIDRs exampleTunnel)" and "Unmap (apAddr (tnEndpoint exampleTunnel)) = apAddr (tnEndpoint exampleTunnel)"
    using exampleLocals_4 by (simp_all add: exampleTunnel_def)
  from Apply_converges [OF simClient_laws this run] show ?thesis
    using run by (simp add: exampleTunnel_def)
qed


lemma maintains_bindE_inv:
  assumes "triple I m (\<lambda>r w. I w \<and> (\<forall>x. r = Inr x \<longrightarrow> P x))" and "\<And>x. P x \<Longrightarrow> maintains I (f x)"
  shows "maintains I (bindE m f)"
  unfolding maintains_def
  apply (rule triple_bindE [OF assms(1)])
   apply simp
  subgoal for x
    using assms(2) [of x] by (cases "P x") (auto simp: maintains_def triple_def)
  done

text \<open>Everything \<open>Apply\<close> does, apart from reading and configuring the device.\<close>

definition restKeeps :: "('w \<Rightarrow> bool) \<Rightarrow> ('w, 'k) wgHost \<Rightarrow> bool" where
  "restKeeps I h \<longleftrightarrow> netKeeps I (netlinkOps h) \<and> hostKeeps I (hostOps h) \<and> maintains I (wgNew (ctl h)) \<and> maintains I (wgClose (ctl h))
     \<and> (\<forall>f. maintains I (RouteListMain (netlinkOps h) f)) \<and> (\<forall>r. maintains I (RouteDel (netlinkOps h) r))"

text \<open>
  C33. A pass never resets a live session: while the device reports the key and the peer of the tunnel,
  \<^verbatim>\<open>Apply\<close> makes no call that configures the device, whether it succeeds or fails.
\<close>

theorem Apply_keeps_session:
  assumes "restKeeps I h"
    and "triple I (wgDevice (ctl h) WgInterface) (\<lambda>x w. I w \<and> (\<forall>d. x = Inr d \<longrightarrow> stateMatches (reported d) key t allowedAll))"
    and "I w" and "run_state (Apply h key t) w = (r, w')"
  shows "I w'"
proof -
  have keep: "netKeeps I (netlinkOps h)" "hostKeeps I (hostOps h)" "maintains I (wgNew (ctl h))" "maintains I (wgClose (ctl h))"
    "\<And>f. maintains I (RouteListMain (netlinkOps h) f)" "\<And>r. maintains I (RouteDel (netlinkOps h) r)"
    "\<And>n. maintains I (LinkByName (netlinkOps h) n)" "\<And>r. maintains I (RouteReplace (netlinkOps h) r)"
    using assms(1) by (simp_all add: restKeeps_def netKeeps_def)
  have dev: "triple I (mapErr g (wgDevice (ctl h) WgInterface)) (\<lambda>x w. I w \<and> (\<forall>d. x = Inr d \<longrightarrow> deviceConfig (Some d) key t = None))" for g
    by (rule triple_mapErr [OF assms(2)]) (simp_all add: deviceConfig_def deviceMatches_reported)
  have "maintains I (Apply h key t)"
    unfolding Apply_def withClient_def
    by (intro triple_rules SyncLink_maintains SyncAddress_maintains keep maintains_bindE_inv [OF dev] maintains_ensureRoutes) simp
  from maintains_run [OF this assms(3,4)] show ?thesis .
qed

definition livePod :: netSim where
  "livePod = podTable\<lparr>nsPeers := [\<lparr>dpPublicKey = 9, dpEndpoint = Some (AddrPort (Addr4 0x0A60000A) 51820), dpKeepalive = 25,
     dpAllowedIPs = [IPNet (Addr4 0) 0 32], dpLastHandshake = 1000\<rparr>]\<rparr>"

theorem Apply_keeps_session_witness:
  "map dpLastHandshake (nsPeers (snd (run_state (Apply simClient 5 exampleTunnel) livePod))) = [1000]"
proof -
  let ?I = "\<lambda>w. nsPeers w = nsPeers livePod \<and> nsKey w = 5"
  obtain r w' where run: "run_state (Apply simClient 5 exampleTunnel) livePod = (r, w')"
    by (metis prod.exhaust)
  have "netKeeps ?I simPodNet"
    unfolding netKeeps_def
    by (simp add: simPodNet_def simTable_def simNetlink_def maintains_readSim maintains_writeSim maintains_ret)
  moreover have "hostKeeps ?I simHost"
    unfolding hostKeeps_def by (simp add: simHost_def maintains_readSim maintains_writeSim maintains_ret)
  moreover have "maintains ?I (RouteListMain simPodNet f)" "maintains ?I (RouteDel simPodNet q)" for f q
    by (simp_all add: simPodNet_def simTable_def maintains_readSim maintains_writeSim)
  ultimately have keeps: "restKeeps ?I simClient"
    unfolding restKeeps_def simClient_ops
    by (simp add: simClient_def simWg_def simWgctrl_def maintains_ret)
  have dev: "triple ?I (wgDevice (ctl simClient) WgInterface) (\<lambda>x w. ?I w \<and> (\<forall>d. x = Inr d \<longrightarrow> stateMatches (reported d) 5 exampleTunnel allowedAll))"
    unfolding simClient_ops
    by (auto simp: simWgctrl_def triple_def livePod_def stateMatches_def reported_def exampleTunnel_def Keepalive_def allowedAll_def canonNet_def)
  have "?I livePod" by (simp add: livePod_def podTable_def)
  from Apply_keeps_session [OF keeps dev this run] show ?thesis
    using run by (simp add: livePod_def)
qed


section \<open>The startup check\<close>

lemma checkDevice_None:
  "checkDevice d now = None \<longleftrightarrow> (\<exists>p. dvPeers d = [p] \<and> dpLastHandshake p \<noteq> 0 \<and> now - dpLastHandshake p < 180 * 1000)"
  by (cases "dvPeers d") (auto simp: checkDevice_def Let_def handshakeMaxAge_def)

text \<open>
  C39. The startup probe is exact. In a network namespace that answers its questions it passes if and only if the
  device has one peer, with a handshake, less than 180 seconds ago, and the kernel's route to the probe
  address leaves through the interface; it changes nothing.
\<close>

theorem Check_exact:
  assumes "run_state (wgNew (ctl h)) w = (Inr (), w)" and "run_state (wgClose (ctl h)) w = (Inr (), w)"
    and "run_state (wgDevice (ctl h) iface) w = (Inr d, w)" and "run_state (nowMillis (hostOps h)) w = (now, w)"
    and "run_state (LinkByName (netlinkOps h) iface) w = (Inr link, w)"
    and "run_state (RouteGet (netlinkOps h) (Addr4 0x01010101)) w = (Inr routes, w)"
  shows "(fst (run_state (Check h iface) w) = Inr () \<longleftrightarrow>
      (\<exists>p. dvPeers d = [p] \<and> dpLastHandshake p \<noteq> 0 \<and> now - dpLastHandshake p < 180 * 1000)
      \<and> (\<exists>r rs. routes = r # rs \<and> rtLinkIndex r = lnIndex link))
    \<and> snd (run_state (Check h iface) w) = w"
  unfolding checkDevice_None [symmetric]
  by (cases "checkDevice d now"; cases routes) (simp_all add: Check_def withClient_def routesVia_def assms)

definition probedPod :: "int \<Rightarrow> netSim" where
  "probedPod now = livePod\<lparr>nsClock := now, nsRoutes := [wgDefault 7]\<rparr>"

theorem Check_exact_witness:
  "fst (run_state (Check simClient WgInterface) (probedPod 180000)) = Inr ()
   \<and> fst (run_state (Check simClient WgInterface) (probedPod 181000)) \<noteq> Inr ()"
proof -
  have pod: "run_state (wgNew (ctl simClient)) (probedPod now) = (Inr (), probedPod now)"
    "run_state (wgClose (ctl simClient)) (probedPod now) = (Inr (), probedPod now)"
    "run_state (wgDevice (ctl simClient) WgInterface) (probedPod now) = (Inr \<lparr>dvName = WgInterface, dvPrivateKey = 5, dvPeers = nsPeers livePod\<rparr>, probedPod now)"
    "run_state (nowMillis (hostOps simClient)) (probedPod now) = (now, probedPod now)"
    "run_state (LinkByName (netlinkOps simClient) WgInterface) (probedPod now) = (Inr \<lparr>lnIndex = 7, lnName = WgInterface, lnMTU = TunnelMTU\<rparr>, probedPod now)"
    "run_state (RouteGet (netlinkOps simClient) (Addr4 0x01010101)) (probedPod now) = (Inr [wgDefault 7], probedPod now)" for now
    by (simp_all add: simClient_ops simClient_def simWg_def simWgctrl_def simHost_def simPodNet_def simTable_def simNetlink_def
        probedPod_def livePod_def podTable_def wellPeers_def)
  note probe = conjunct1 [OF Check_exact [OF pod]]
  have "fst (run_state (Check simClient WgInterface) (probedPod 180000)) = Inr ()"
    unfolding probe by (simp add: livePod_def wgDefault_def)
  moreover have "fst (run_state (Check simClient WgInterface) (probedPod 181000)) \<noteq> Inr ()"
    unfolding probe by (simp add: livePod_def)
  ultimately show ?thesis ..
qed

end
