(* ===== verification/Client.thy ===== *)
theory Client
  imports Tunnel
begin

text \<open>
  The process of a client sidecar, \<open>src/internal/sidecar/sidecar.go\<close> and \<open>runClient\<close> of
  \<open>src/cmd/agent/main.go\<close>: one pass, the watch on the pod's WireguardPeer, and the loop that makes
  passes until the process is told to stop. The constructors of \<open>client-go\<close> and \<open>controller-runtime\<close>,
  the context and the \<^verbatim>\<open>select\<close> of the loop are parameters.
\<close>

section \<open>One pass\<close>

record ('w, 'k) runner =
  rnPeers :: "'w peerClient"
  rnApply :: "'k \<Rightarrow> 'k Tunnel \<Rightarrow> ('w, goError, unit) io"
  rnConfig :: Config
  rnKey :: 'k
  rnKeys :: "'k wgKeys"
  rnConditions :: "string condOps"

definition step :: "('w, 'k) runner \<Rightarrow> ('w, goError, unit) io" where
  "step r =
     bindE (ensurePeer (rnPeers r) (rnConfig r) (KeyString (rnKeys r) (PublicKeyOf (rnKeys r) (rnKey r)))) (\<lambda>peer.
       case peer of
         None \<Rightarrow> ret (Inl (NoteErr errWaiting (''WireguardPeer '' @ cfgPodNamespace (rnConfig r) @ ''/''
             @ cfgPodName (rnConfig r) @ '' registered'')))
       | Some p \<Rightarrow>
         (case desiredTunnel (rnConditions r) (rnKeys r) p of
            Inl e \<Rightarrow> ret (Inl e)
          | Inr t \<Rightarrow> rnApply r (rnKey r) t))"

section \<open>The watch and the loop\<close>

record ('w, 'k) clientEnv =
  keyStoreOps :: "('w, 'k) keyStore"
  InClusterConfig :: "('w, string, unit) io"
  AddToScheme :: "('w, string, unit) io"
  NewClient :: "('w, string, unit) io"
  NewCache :: "('w, string, unit) io"
  GetInformer :: "('w, string, unit) io"
  AddEventHandler :: "('w, string, unit) io"
  WaitForCacheSync :: "('w, bool) state"
  ctxDone :: "('w, bool) state"
  awaitEvent :: "('w, unit) state"

text \<open>The result is whether the cache has synced: false when the context was done before.\<close>

definition startWatch :: "('w, 'k) clientEnv \<Rightarrow> ('w, goError, bool) io" where
  "startWatch e =
     bindE (mapErr (\<lambda>s. WrapErr ''create the cache'' (ErrorText s)) (NewCache e)) (\<lambda>_.
     bindE (mapErr (\<lambda>s. WrapErr ''get the WireguardPeer informer'' (ErrorText s)) (GetInformer e)) (\<lambda>_.
     bindE (mapErr (\<lambda>s. WrapErr ''watch WireguardPeer'' (ErrorText s)) (AddEventHandler e)) (\<lambda>_. do {
       synced \<leftarrow> WaitForCacheSync e;
       if synced then ret (Inr True)
       else do {
         over \<leftarrow> ctxDone e;
         ret (if over then Inr False else Inl (ErrorText ''the watch on the WireguardPeer did not sync''))
       }
     })))"

text \<open>One unit of fuel per turn of the loop; \<open>None\<close> means that the fuel ran out. The result of each pass is only logged.\<close>

fun loop :: "nat \<Rightarrow> ('w, 'k) clientEnv \<Rightarrow> ('w, 'k) runner \<Rightarrow> ('w, unit option) state" where
  "loop 0 e r = ret None"
| "loop (Suc fuel) e r = do {
     over \<leftarrow> ctxDone e;
     if over then ret (Some ())
     else do { _ \<leftarrow> step r; _ \<leftarrow> awaitEvent e; loop fuel e r }
   }"

definition Run :: "nat \<Rightarrow> ('w, 'k) clientEnv \<Rightarrow> ('k \<Rightarrow> ('w, 'k) runner) \<Rightarrow> 'k wgKeys \<Rightarrow> Config \<Rightarrow> ('w, (goError + unit) option) state" where
  "Run fuel e mk K cfg = do {
     start \<leftarrow>
       bindE (mapErr (WrapErr ''load the private key'') (LoadOrCreateKey K (keyStoreOps e) (cfgKeyPath cfg))) (\<lambda>key.
       bindE (mapErr (\<lambda>s. WrapErr ''in-cluster API config'' (ErrorText s)) (InClusterConfig e)) (\<lambda>_.
       bindE (mapErr (\<lambda>s. WrapErr ''add v1alpha1 to the scheme'' (ErrorText s)) (AddToScheme e)) (\<lambda>_.
       bindE (mapErr (\<lambda>s. WrapErr ''create the API client'' (ErrorText s)) (NewClient e)) (\<lambda>_.
       bindE (mapErr (WrapErr ''start the watch cache'') (startWatch e)) (\<lambda>synced.
         ret (Inr (if synced then Some key else None)))))));
     case start of
       Inl err \<Rightarrow> ret (Some (Inl err))
     | Inr None \<Rightarrow> ret (Some (Inr ()))
     | Inr (Some key) \<Rightarrow> do { x \<leftarrow> loop fuel e (mk key); ret (map_option Inr x) }
   }"

text \<open>\<^verbatim>\<open>runClient\<close>: the exit status, 2 for a usage error.\<close>

definition runClient ::
    "nat \<Rightarrow> ('w, 'k) clientEnv \<Rightarrow> ('w, 'k) wgHost \<Rightarrow> (Config \<Rightarrow> 'k \<Rightarrow> ('w, 'k) runner) \<Rightarrow> (string \<Rightarrow> string)
     \<Rightarrow> string list \<Rightarrow> ('w, int option) state" where
  "runClient fuel e h mk getenv args =
     (case parseClient args of
        None \<Rightarrow> ret (Some 2)
      | Some (wireguardName, check) \<Rightarrow>
        if check then do { x \<leftarrow> Check h WgInterface; ret (Some (if isl x then 1 else 0)) }
        else (case ConfigFromEnv wireguardName DefaultKeyPath getenv of
                Inl _ \<Rightarrow> ret (Some 1)
              | Inr cfg \<Rightarrow> do { x \<leftarrow> Run fuel e (mk cfg) (wkeys h) cfg; ret (map_option (\<lambda>r. if isl r then 1 else 0) x) }))"

section \<open>A pass that succeeds\<close>

text \<open>A peer the operator published: if its status gives a tunnel at all, it is an IPv4 one.\<close>

definition published :: "string condOps \<Rightarrow> 'k wgKeys \<Rightarrow> WireguardPeer \<Rightarrow> bool" where
  "published C K p \<longleftrightarrow> (case desiredTunnel C K p of
     Inl _ \<Rightarrow> True
   | Inr t \<Rightarrow> list_all local4 (tnLocalCIDRs t) \<and> Unmap (apAddr (tnEndpoint t)) = apAddr (tnEndpoint t))"

lemma ensurePeer_reads:
  assumes "triple (\<lambda>_. True) (getPeer c (NamespacedName (cfgPodNamespace cfg) (cfgPodName cfg))) (\<lambda>x _. \<forall>p. x = Inr p \<longrightarrow> W p)"
  shows "triple (\<lambda>_. True) (ensurePeer c cfg key) (\<lambda>r _. \<forall>p. r = Inr (Some p) \<longrightarrow> W p)"
proof -
  have create: "triple P (createMine c what want) (\<lambda>r _. \<forall>p. r = Inr (Some p) \<longrightarrow> W p)" for P what want
    unfolding createMine_def by (rule triple_bind [OF triple_True]) (auto intro!: triple_ret split: sum.split)
  show ?thesis
    unfolding ensurePeer_def Let_def
    apply (rule triple_bindE [where R = "\<lambda>r _. \<forall>p. r = Inr (Some p) \<longrightarrow> W p"])
      apply (rule triple_bind [OF assms], rule triple_ret, simp split: sum.split)
     apply simp
    by (auto split: peerAction.split option.split sum.split intro!: triple_ret create triple_bind [OF triple_True] triple_if)
qed



text \<open>The peer of a pod as the operator has published it, and the client that reads it.\<close>

definition publishedPeer :: WireguardPeer where
  "publishedPeer = (desiredPeer exampleConfig (KeyString byteKeys 6))\<lparr>peerStatus := emptyPeerStatus\<lparr>
     st_Address := ''10.8.0.2'', st_Endpoint := JoinHostPort (string4 0x0A60000A) (Itoa 51820), st_ServerPublicKey := KeyString byteKeys 9,
     st_LocalCIDRs := [''10.0.0.0/8'', ''192.168.0.0/16'']\<rparr>\<rparr>"

definition simRunner :: "(netSim, 8 word) runner" where
  "simRunner = \<lparr>
     rnPeers = \<lparr>GetControllerOf = (\<lambda>m. List.find (\<lambda>r. orController r = Some True) (OwnerReferences m)),
       getPeer = (\<lambda>_. ret (Inr publishedPeer)), deletePeer = (\<lambda>_ _. ret (Inr ())), createPeer = (\<lambda>_. ret (Inr ()))\<rparr>,
     rnApply = Apply simClient, rnConfig = exampleConfig, rnKey = 5, rnKeys = byteKeys, rnConditions = listConditions\<rparr>"

lemma simRunner_tunnel: "desiredTunnel listConditions byteKeys publishedPeer = Inr exampleTunnel"
proof -
  have addr: "ParseAddr ''10.8.0.2'' = Inr (Addr4 0x0A080002)" by code_simp
  have ep: "ParseAddrPort (JoinHostPort (string4 0x0A60000A) (Itoa 51820)) = Inr (AddrPort (Addr4 0x0A60000A) 51820)"
    by (simp add: ParseAddrPort_JoinHostPort)
  have "JoinHostPort (string4 0x0A60000A) (Itoa 51820) \<noteq> []" by (simp add: JoinHostPort_def)
  moreover have cidrs: "parseLocalCIDRs ''app-0'' [''10.0.0.0/8'', ''192.168.0.0/16''] = Inr exampleLocals" by code_simp
  moreover have key: "ParseKey byteKeys (KeyString byteKeys 9) = Some 9" "KeyString byteKeys 9 \<noteq> []"
    using keyLaws_byteKeys by (simp_all add: keyLaws_def) (simp add: byteKeys_def)
  moreover have name: "peerName publishedPeer = ''app-0''" by (simp add: publishedPeer_def desiredPeer_def exampleConfig_def)
  ultimately show ?thesis
    by (simp only: desiredTunnel_def Let_def name) (simp add: publishedPeer_def addr ep exampleTunnel_def PrefixFrom_def)
qed

lemma simRunner_peer: "fst (run_state (ensurePeer (rnPeers simRunner) exampleConfig (KeyString byteKeys (PublicKeyOf byteKeys 5))) w) = Inr (Some publishedPeer)
  \<and> snd (run_state (ensurePeer (rnPeers simRunner) exampleConfig (KeyString byteKeys (PublicKeyOf byteKeys 5))) w) = w"
  by (simp add: ensurePeer_def simRunner_def Let_def decidePeer_def controlledByPod_def publishedPeer_def desiredPeer_def byteKeys_def)

lemma simRunner_pass: "fst (run_state (step simRunner) podTable) = Inr ()"
proof -
  obtain x w1 where reg: "run_state (ensurePeer (rnPeers simRunner) exampleConfig (KeyString byteKeys (PublicKeyOf byteKeys 5))) podTable = (x, w1)"
    by (metis prod.exhaust)
  have fields: "rnConfig simRunner = exampleConfig" "rnKeys simRunner = byteKeys" "rnKey simRunner = 5" "rnApply simRunner = Apply simClient" "rnConditions simRunner = listConditions"
    by (simp_all add: simRunner_def)
  have x: "x = Inr (Some publishedPeer)" "w1 = podTable" using simRunner_peer [of podTable] reg by simp_all
  show ?thesis
    using exampleTunnel_applies by (simp add: step_def fields reg x simRunner_tunnel)
qed


section \<open>No change is missed\<close>

text \<open>
  The watch and the loop side by side. The informer stores a new version of the peer in the cache and
  later calls the handler, whose \<^verbatim>\<open>notify\<close> makes a send on a channel with room for one that does not
  block; the loop begins a pass, which reads the cache, ends it, and waits for a kick or a tick. \<open>wtSeen\<close>
  remembers the version the last pass read.
\<close>

datatype loopPhase = AtTop | Passing | Waiting

record watchState =
  wtKick :: bool
  wtPending :: nat
  wtVersion :: nat
  wtSeen :: nat
  wtPhase :: loopPhase

datatype watchEvent = CacheUpdate | Handler | BeginPass | EndPass | Kicked | Ticked

definition notify :: "watchState \<Rightarrow> watchState" where
  "notify s = s\<lparr>wtKick := True\<rparr>"

inductive watchStep :: "watchState \<Rightarrow> watchEvent \<Rightarrow> watchState \<Rightarrow> bool" where
  update: "watchStep s CacheUpdate (s\<lparr>wtVersion := Suc (wtVersion s), wtPending := Suc (wtPending s)\<rparr>)"
| handler: "wtPending s = Suc n \<Longrightarrow> watchStep s Handler (notify (s\<lparr>wtPending := n\<rparr>))"
| begin_pass: "wtPhase s = AtTop \<Longrightarrow> watchStep s BeginPass (s\<lparr>wtSeen := wtVersion s, wtPhase := Passing\<rparr>)"
| end_pass: "wtPhase s = Passing \<Longrightarrow> watchStep s EndPass (s\<lparr>wtPhase := Waiting\<rparr>)"
| kicked: "wtPhase s = Waiting \<Longrightarrow> wtKick s \<Longrightarrow> watchStep s Kicked (s\<lparr>wtPhase := AtTop, wtKick := False\<rparr>)"
| ticked: "wtPhase s = Waiting \<Longrightarrow> watchStep s Ticked (s\<lparr>wtPhase := AtTop\<rparr>)"

inductive watchPath :: "watchState \<Rightarrow> watchEvent list \<Rightarrow> watchState \<Rightarrow> bool" where
  stop: "watchPath s [] s"
| more: "watchStep s e s1 \<Longrightarrow> watchPath s1 es s' \<Longrightarrow> watchPath s (e # es) s'"

inductive_cases watchStepE: "watchStep s e s'"

definition watchInv :: "watchState \<Rightarrow> bool" where
  "watchInv s \<longleftrightarrow> (wtPhase s \<noteq> AtTop \<and> wtSeen s \<noteq> wtVersion s \<longrightarrow> wtKick s \<or> 0 < wtPending s)"

lemma watchInv_step: "watchStep s e s' \<Longrightarrow> watchInv s \<Longrightarrow> watchInv s'"
  by (erule watchStepE) (auto simp: watchInv_def notify_def)

lemma watchInv_path: "watchPath s es s' \<Longrightarrow> watchInv s \<Longrightarrow> watchInv s'"
  by (induction rule: watchPath.induct) (auto intro: watchInv_step)

text \<open>The events of the loop and of the handler alone.\<close>

definition prompt :: "watchState \<Rightarrow> nat \<Rightarrow> bool" where
  "prompt s n \<longleftrightarrow> (\<exists>es s'. watchPath s es s' \<and> length es \<le> n \<and> set es \<subseteq> {Handler, BeginPass, EndPass, Kicked}
     \<and> wtSeen s' = wtVersion s)"

lemma prompt_step:
  assumes "watchStep s e s1" and "prompt s1 n" and "e \<in> {Handler, BeginPass, EndPass, Kicked}" and "wtVersion s1 = wtVersion s"
  shows "prompt s (Suc n)"
proof -
  obtain es s' where es: "watchPath s1 es s'" "length es \<le> n" "set es \<subseteq> {Handler, BeginPass, EndPass, Kicked}" "wtSeen s' = wtVersion s1"
    using assms(2) by (auto simp: prompt_def)
  have "watchPath s (e # es) s'" by (rule watchPath.more [OF assms(1) es(1)])
  then show ?thesis
    unfolding prompt_def using es(2-4) assms(3,4) by (intro exI [of _ "e # es"] exI [of _ s']) auto
qed

lemma prompt_seen: "wtSeen s = wtVersion s \<Longrightarrow> prompt s n"
  unfolding prompt_def by (intro exI [of _ "[]"] exI [of _ s]) (auto intro: watchPath.stop)

lemma prompt_top: "wtPhase s = AtTop \<Longrightarrow> prompt s (Suc n)"
  by (rule prompt_step [OF watchStep.begin_pass prompt_seen]) auto

lemma prompt_kick: "wtPhase s = Waiting \<Longrightarrow> wtKick s \<Longrightarrow> prompt s (Suc (Suc n))"
  by (rule prompt_step [OF watchStep.kicked prompt_top]) auto

lemma prompt_waiting:
  assumes "wtPhase s = Waiting" and "watchInv s"
  shows "prompt s (Suc (Suc (Suc n)))"
proof -
  consider "wtSeen s = wtVersion s" | "wtKick s" | m where "wtPending s = Suc m"
    using assms by (auto simp: watchInv_def gr0_conv_Suc)
  then show ?thesis
  proof cases
    case 3
    have "prompt (notify (s\<lparr>wtPending := m\<rparr>)) (Suc (Suc n))"
      by (rule prompt_kick) (simp_all add: notify_def assms(1))
    from prompt_step [OF watchStep.handler [OF 3] this] show ?thesis by (simp add: notify_def)
  qed (simp_all add: prompt_seen prompt_kick assms(1))
qed



section \<open>The loop stops\<close>

text \<open>
  \<open>turns w\<close> is how many events the loop still waits for before its context is done: a pass does not add to
  it, and waiting takes one away.
\<close>

definition endsWithin :: "('w \<Rightarrow> nat) \<Rightarrow> ('w, 'k) clientEnv \<Rightarrow> ('w, 'k) runner \<Rightarrow> bool" where
  "endsWithin turns e r \<longleftrightarrow> (\<forall>n.
     triple (\<lambda>w. turns w \<le> n) (ctxDone e) (\<lambda>over w. turns w \<le> n \<and> (n = 0 \<longrightarrow> over))
     \<and> maintains (\<lambda>w. turns w \<le> n) (step r)
     \<and> triple (\<lambda>w. turns w \<le> Suc n) (awaitEvent e) (\<lambda>_ w. turns w \<le> n))"

text \<open>With fuel for the events that are left and one more, the loop returns.\<close>

theorem loop_stops:
  assumes laws: "endsWithin turns e r" and fuel: "n < fuel"
  shows "triple (\<lambda>w. turns w \<le> n) (loop fuel e r) (\<lambda>x _. x = Some ())"
  using fuel
proof (induction fuel arbitrary: n)
  case (Suc fuel)
  have over: "triple (\<lambda>w. turns w \<le> n) (ctxDone e) (\<lambda>over w. turns w \<le> n \<and> (n = 0 \<longrightarrow> over))"
    and pass: "triple (\<lambda>w. turns w \<le> n) (step r) (\<lambda>_ w. turns w \<le> n)"
    using laws unfolding endsWithin_def maintains_def by blast+
  show ?case
  proof (cases n)
    case 0
    show ?thesis
      unfolding loop.simps
      by (rule triple_bind [OF over]) (auto simp: 0 intro!: triple_ret triple_if simp: triple_def)
  next
    case (Suc m)
    have wait: "triple (\<lambda>w. turns w \<le> n) (awaitEvent e) (\<lambda>_ w. turns w \<le> m)"
      using laws unfolding endsWithin_def Suc by blast
    have rest: "triple (\<lambda>w. turns w \<le> m) (loop fuel e r) (\<lambda>x _. x = Some ())"
      using Suc.IH [of m] Suc.prems Suc by simp
    have body: "triple (\<lambda>w. turns w \<le> n) (do { _ \<leftarrow> step r; _ \<leftarrow> awaitEvent e; loop fuel e r }) (\<lambda>x _. x = Some ())"
      by (intro triple_bind [OF pass] triple_bind [OF wait] rest)
    show ?thesis
      unfolding loop.simps
      by (rule triple_bind [OF over]) (auto intro!: triple_if triple_ret triple_pre [OF body])
  qed
qed simp

end
