(* ===== verification/Injection.thy ===== *)
theory Injection
  imports Reconcile
begin

text \<open>
  Sidecar injection, \<open>src/internal/controller/injection.go\<close>: the choice of the default gateway, the
  injected container, the admission policy that inserts it, and the reconciler that keeps the policy in
  step with the gateway. The CEL programs that the policy and the static backstop of
  \<open>src/config/admission\<close> hand to the API server are translated to functions on pods.

  The JSON form of the Kubernetes types is decided by their package, so \<^verbatim>\<open>json.Marshal\<close> of a container or a
  volume and \<^verbatim>\<open>ToUnstructured\<close> are parameters, as are the calls of the client and of discovery.
\<close>

section \<open>The default gateway\<close>

definition excludedNamespace :: string where "excludedNamespace = ''kube-system''"
definition injectPolicyName :: string where "injectPolicyName = ''tunnel-operator-inject''"
definition admissionGroup :: string where "admissionGroup = ''admissionregistration.k8s.io''"
definition inClusterConfigDir :: string where
  "inClusterConfigDir = ''/var/run/secrets/kubernetes.io/serviceaccount''"

definition isAnnotatedDefault :: "Wireguard \<Rightarrow> bool" where
  "isAnnotatedDefault wg \<longleftrightarrow> Annotations (wgMeta wg) AnnotationDefault = Some ''true''"

definition defaultGateway :: "Wireguard list \<Rightarrow> string \<Rightarrow> goError + NamespacedName" where
  "defaultGateway wgs operatorNS =
     (let defaults = map wgName (filter (\<lambda>wg. isAnnotatedDefault wg \<and> wgNamespace wg = operatorNS) wgs) in
      case defaults of
        [] \<Rightarrow> Inl (ErrorText (''no Wireguard in namespace '' @ operatorNS @ '' is annotated '' @ AnnotationDefault @ ''=true''))
      | [name] \<Rightarrow> Inr (NamespacedName operatorNS name)
      | _ \<Rightarrow> Inl (ErrorText (Itoa (length defaults) @ '' Wireguards in namespace '' @ operatorNS @ '' are annotated ''
               @ AnnotationDefault @ ''=true: '' @ Join '', '' (sort defaults))))"

section \<open>The sidecar\<close>

definition downward :: "string \<Rightarrow> string \<Rightarrow> EnvVar" where
  "downward name field = \<lparr>ev_Name = name, ev_Value = [], ev_ValueFrom = Some (FieldRef field)\<rparr>"

definition injectedSidecar :: "string \<Rightarrow> string \<Rightarrow> Container \<times> Volume list" where
  "injectedSidecar img gateway =
     (emptyContainer\<lparr>
        ctName := SidecarContainer, ctImage := img, ctRestartPolicy := Some ''Always'',
        ctArgs := [''client'', ''--wireguard'', gateway],
        ctEnv := [downward ''POD_NAME'' ''metadata.name'', downward ''POD_NAMESPACE'' ''metadata.namespace'',
          downward ''POD_UID'' ''metadata.uid'', downward ''POD_IP'' ''status.podIP'', downward ''HOST_IP'' ''status.hostIP''],
        ctSecurityContext := noSecurity\<lparr>scCapabilitiesAdd := [''NET_ADMIN'']\<rparr>,
        ctVolumeMounts := [\<lparr>vmName = VolumeKey, vmMountPath = ''/var/run/wireguard'', vmReadOnly = False\<rparr>,
          \<lparr>vmName = VolumeToken, vmMountPath = inClusterConfigDir, vmReadOnly = True\<rparr>],
        ctStartupProbe := Some ((newProbe (Exec [''agent'', ''client'', ''--check'']))\<lparr>prPeriodSeconds := 2, prFailureThreshold := 90\<rparr>)\<rparr>,
      [\<lparr>volName = VolumeKey, volSource = EmptyDir ''Memory''\<rparr>,
       \<lparr>volName = VolumeToken, volSource = Projected [
          TokenProjection ''token'',
          ConfigMapProjection ''kube-root-ca.crt'' [(''ca.crt'', ''ca.crt'')],
          DownwardProjection [(''namespace'', ''metadata.namespace'')]]\<rparr>])"

section \<open>CEL literals\<close>

text \<open>
  Decoded JSON. The numbers in the objects that are rendered are whole, and \<^verbatim>\<open>FormatFloat\<close> prints them
  as such; the keys of an object are distinct.
\<close>

datatype json = JObj "(string \<times> json) list" | JArr "json list" | JStr string | JNum int | JBool bool | JNull

lemma size_value: "(k, v) \<in> set kvs \<Longrightarrow> size v \<le> size_list (size_prod (\<lambda>_. 0) size) kvs"
  by (induction kvs) auto

lemma size_member: "v \<in> set vs \<Longrightarrow> size v \<le> size_list size vs"
  by (induction vs) auto

function celLiteral :: "json \<Rightarrow> string" where
  "celLiteral (JObj kvs) =
     ''{'' @ Join '', '' (map (\<lambda>kv. fmtQ (fst kv) @ '': dyn('' @ snd kv @ '')'')
       (sort_key fst (map (\<lambda>kv. (fst kv, celLiteral (snd kv))) kvs))) @ ''}''"
| "celLiteral (JArr vs) = ''['' @ Join '', '' (map (\<lambda>v. ''dyn('' @ celLiteral v @ '')'') vs) @ '']''"
| "celLiteral (JStr s) = fmtQ s"
| "celLiteral (JNum n) = fmtInt n"
| "celLiteral (JBool b) = (if b then ''true'' else ''false'')"
| "celLiteral JNull = ''<nil>''"
  by pat_completeness auto
termination
  by (relation "measure size") (auto simp: less_Suc_eq_le size_member size_value)

definition celOf :: "('o \<Rightarrow> string + json) \<Rightarrow> 'o \<Rightarrow> goError + string" where
  "celOf toJSON obj = (case toJSON obj of Inl e \<Rightarrow> Inl (ErrorText e) | Inr v \<Rightarrow> Inr (celLiteral v))"

section \<open>The policy\<close>

datatype selectorOp = OpDoesNotExist | OpNotIn "string list"

record LabelSelector =
  MatchLabels :: "(string \<times> string) list"
  MatchExpressions :: "(string \<times> selectorOp) list"

record MatchResources =
  ObjectSelector :: LabelSelector
  NamespaceSelector :: LabelSelector

definition injectMatchResources :: MatchResources where
  "injectMatchResources = \<lparr>
     ObjectSelector = \<lparr>MatchLabels = [(LabelEnabled, ''true'')], MatchExpressions = [(LabelComponent, OpDoesNotExist)]\<rparr>,
     NamespaceSelector = \<lparr>MatchLabels = [], MatchExpressions = [(''kubernetes.io/metadata.name'', OpNotIn [excludedNamespace])]\<rparr>\<rparr>"

definition newline :: string where "newline = [CHR 0x0A]"

definition mutationExpression :: string where
  "mutationExpression =
     ''(has(object.spec.volumes)'' @ newline
     @ ''  ? variables.volumes.map(v, JSONPatch{op: \"add\", path: \"/spec/volumes/-\", value: v})'' @ newline
     @ ''  : [JSONPatch{op: \"add\", path: \"/spec/volumes\", value: variables.volumes}]) +'' @ newline
     @ ''(has(object.spec.initContainers)'' @ newline
     @ ''  ? [JSONPatch{op: \"add\", path: \"/spec/initContainers/0\", value: variables.sidecar}]'' @ newline
     @ ''  : [JSONPatch{op: \"add\", path: \"/spec/initContainers\", value: [variables.sidecar]}])''"

definition policySpec :: "string \<Rightarrow> string \<Rightarrow> json" where
  "policySpec sidecarCEL volumesCEL = JObj [
     (''failurePolicy'', JStr ''Fail''),
     (''reinvocationPolicy'', JStr ''IfNeeded''),
     (''matchConstraints'', JObj [(''resourceRules'', JArr [JObj [
        (''apiGroups'', JArr [JStr []]), (''apiVersions'', JArr [JStr ''v1'']),
        (''operations'', JArr [JStr ''CREATE'']), (''resources'', JArr [JStr ''pods''])]])]),
     (''matchConditions'', JArr [JObj [
        (''name'', JStr ''not-yet-injected''),
        (''expression'', JStr (''!has(object.spec.initContainers) || ''
           @ ''!object.spec.initContainers.exists(c, c.name == '' @ fmtQ SidecarContainer @ '')''))]]),
     (''variables'', JArr [
        JObj [(''name'', JStr ''sidecar''), (''expression'', JStr (''dyn('' @ sidecarCEL @ '')''))],
        JObj [(''name'', JStr ''volumes''), (''expression'', JStr (''dyn('' @ volumesCEL @ '')''))]]),
     (''mutations'', JArr [JObj [
        (''patchType'', JStr ''JSONPatch''),
        (''jsonPatch'', JObj [(''expression'', JStr mutationExpression)])]])]"

definition admissionObject :: "string \<Rightarrow> string \<Rightarrow> json \<Rightarrow> json" where
  "admissionObject version kind spec = JObj [
     (''apiVersion'', JStr (admissionGroup @ ''/'' @ version)),
     (''kind'', JStr kind),
     (''metadata'', JObj [(''name'', JStr injectPolicyName), (''labels'', JObj [(LabelManagedBy, JStr ManagedByValue)])]),
     (''spec'', spec)]"

text \<open>The third-party conversions: two of \<^verbatim>\<open>json.Marshal\<close> and one of \<^verbatim>\<open>ToUnstructured\<close>.\<close>

record converters =
  containerJSON :: "Container \<Rightarrow> string + json"
  volumesJSON :: "Volume list \<Rightarrow> string + json"
  matchJSON :: "MatchResources \<Rightarrow> string + json"

definition policyKind :: string where "policyKind = ''MutatingAdmissionPolicy''"
definition bindingKind :: string where "bindingKind = ''MutatingAdmissionPolicyBinding''"

definition renderInjectPolicy :: "converters \<Rightarrow> string \<Rightarrow> Container \<Rightarrow> Volume list \<Rightarrow> goError + json \<times> json" where
  "renderInjectPolicy cv version sidecar volumes =
     (case celOf (containerJSON cv) sidecar of
        Inl e \<Rightarrow> Inl (WrapErr ''render the sidecar'' e)
      | Inr sidecarCEL \<Rightarrow>
        (case celOf (volumesJSON cv) volumes of
           Inl e \<Rightarrow> Inl (WrapErr ''render the volumes'' e)
         | Inr volumesCEL \<Rightarrow>
           (case matchJSON cv injectMatchResources of
              Inl e \<Rightarrow> Inl (WrapErr ''render the pod selectors'' (ErrorText e))
            | Inr match \<Rightarrow> Inr (
                admissionObject version policyKind (policySpec sidecarCEL volumesCEL),
                admissionObject version bindingKind
                  (JObj [(''policyName'', JStr injectPolicyName), (''matchResources'', match)])))))"

section \<open>The reconciler\<close>

record 'w injectClient =
  ServerResources :: "string \<Rightarrow> ('w, apiError, string list) io"
  listWireguards :: "('w, apiError, Wireguard list) io"
  applyObject :: "json \<Rightarrow> ('w, apiError, unit) io"
  deleteObject :: "string \<Rightarrow> string \<Rightarrow> string \<Rightarrow> ('w, apiError, unit) io"
  conv :: converters

record 'w InjectionPolicyReconciler =
  irClient :: "'w injectClient"
  irImage :: string
  irOperatorNamespace :: string

fun serveFrom :: "'w injectClient \<Rightarrow> string list \<Rightarrow> ('w, goError, string) io" where
  "serveFrom c [] = ret (Inr [])"
| "serveFrom c (version # versions) = do {
     r \<leftarrow> ServerResources c (admissionGroup @ ''/'' @ version);
     case r of
       Inl e \<Rightarrow> if e = NotFound then serveFrom c versions
                else ret (Inl (WrapErr (''discover '' @ admissionGroup @ ''/'' @ version) (ApiErr e)))
     | Inr names \<Rightarrow> if ''mutatingadmissionpolicies'' \<in> set names then ret (Inr version) else serveFrom c versions
   }"

definition servedPolicyVersion :: "'w injectClient \<Rightarrow> ('w, goError, string) io" where
  "servedPolicyVersion c = serveFrom c [''v1'', ''v1beta1'']"

text \<open>The kind of an unstructured object.\<close>

fun jsonField :: "string \<Rightarrow> json \<Rightarrow> json" where
  "jsonField k (JObj kvs) = (case map_of kvs k of None \<Rightarrow> JNull | Some v \<Rightarrow> v)"
| "jsonField k _ = JNull"

fun jsonString :: "json \<Rightarrow> string" where
  "jsonString (JStr s) = s"
| "jsonString _ = []"

definition applyForced :: "'w injectClient \<Rightarrow> json \<Rightarrow> ('w, goError, unit) io" where
  "applyForced c obj = mapErr (\<lambda>e. WrapErr (''apply '' @ jsonString (jsonField ''kind'' obj) @ '' ''
       @ jsonString (jsonField ''namespace'' (jsonField ''metadata'' obj)) @ ''/''
       @ jsonString (jsonField ''name'' (jsonField ''metadata'' obj))) (ApiErr e)) (applyObject c obj)"

definition policyRecheck :: nat where "policyRecheck = 10 * 60"

definition injectionKey :: NamespacedName where "injectionKey = NamespacedName ''injection'' ''policy''"

fun deleteKinds :: "'w injectClient \<Rightarrow> string \<Rightarrow> string list \<Rightarrow> ('w, goError, unit) io" where
  "deleteKinds c version [] = ret (Inr ())"
| "deleteKinds c version (kind # kinds) = do {
     r \<leftarrow> deleteObject c version kind injectPolicyName;
     case r of
       Inl e \<Rightarrow> if e \<noteq> NotFound then ret (Inl (WrapErr (''delete '' @ kind @ '' '' @ injectPolicyName) (ApiErr e)))
                else deleteKinds c version kinds
     | Inr _ \<Rightarrow> deleteKinds c version kinds
   }"

definition deleteInjectPolicy :: "'w injectClient \<Rightarrow> string \<Rightarrow> ('w, goError, unit) io" where
  "deleteInjectPolicy c version = deleteKinds c version [bindingKind, policyKind]"

definition ReconcileInjection :: "'w InjectionPolicyReconciler \<Rightarrow> ('w, goError, nat) io" where
  "ReconcileInjection r =
     (let c = irClient r in
      bindE (servedPolicyVersion c) (\<lambda>version.
        if version = [] then ret (Inr policyRecheck)
        else bindE (mapErr (\<lambda>e. WrapErr ''list Wireguards'' (ApiErr e)) (listWireguards c)) (\<lambda>wgs.
          case defaultGateway wgs (irOperatorNamespace r) of
            Inl _ \<Rightarrow> bindE (deleteInjectPolicy c version) (\<lambda>_. ret (Inr 0))
          | Inr gateway \<Rightarrow>
            (let (container, volumes) = injectedSidecar (irImage r) (nnString gateway) in
             case renderInjectPolicy (conv c) version container volumes of
               Inl e \<Rightarrow> ret (Inl e)
             | Inr (policy, binding) \<Rightarrow>
               bindE (applyForced c policy) (\<lambda>_. bindE (applyForced c binding) (\<lambda>_. ret (Inr 0)))))))"


section \<open>The choice of the gateway\<close>

lemma mset_shape:
  assumes "mset xs = mset ys"
  obtains "xs = []" "ys = []" | x where "xs = [x]" "ys = [x]" | a b cs d e fs where "xs = a # b # cs" "ys = d # e # fs"
proof -
  have len: "length xs = length ys" using assms by (rule mset_eq_length)
  consider "ys = []" | y where "ys = [y]" | d e fs where "ys = d # e # fs" by (metis neq_Nil_conv)
  then show thesis
  proof cases
    case (2 y)
    then have "xs = [y]" using assms by (simp add: mset_single_iff_right)
    then show ?thesis using that(2) 2 by blast
  next
    case (3 d e fs)
    then obtain a b cs where "xs = a # b # cs" using len by (auto simp: length_Suc_conv)
    then show ?thesis using that(3) 3 by blast
  qed (use assms that(1) in simp)
qed

text \<open>
  C14. The gateway of injected pods is chosen in the operator's namespace alone: it is \<open>k\<close> exactly when one
  Wireguard there, and only one, is annotated as the default, and it is that one. No Wireguard of another
  namespace, annotated or not, changes the choice or its error, and neither does the order of the list.
\<close>

theorem defaultGateway_exact:
  "(defaultGateway wgs ns = Inr k \<longleftrightarrow>
      (\<exists>wg. filter (\<lambda>wg. isAnnotatedDefault wg \<and> wgNamespace wg = ns) wgs = [wg] \<and> k = metaKey (wgMeta wg)))
   \<and> defaultGateway (filter (\<lambda>wg. wgNamespace wg = ns) wgs) ns = defaultGateway wgs ns
   \<and> (mset wgs' = mset wgs \<longrightarrow> defaultGateway wgs' ns = defaultGateway wgs ns)"
proof -
  let ?P = "\<lambda>wg. isAnnotatedDefault wg \<and> wgNamespace wg = ns"
  have names: "wgNamespace wg = ns" if "filter ?P wgs = [wg]" for wg
  proof -
    have "wg \<in> set (filter ?P wgs)" by (simp add: that)
    then show ?thesis by simp
  qed
  have first: "defaultGateway wgs ns = Inr k \<longleftrightarrow> (\<exists>wg. filter ?P wgs = [wg] \<and> k = metaKey (wgMeta wg))"
  proof -
    consider "filter ?P wgs = []" | wg where "filter ?P wgs = [wg]" | wg wg' more where "filter ?P wgs = wg # wg' # more"
      by (metis neq_Nil_conv)
    then show ?thesis
    proof cases
      case (2 wg)
      then show ?thesis using names [OF 2] by (auto simp: defaultGateway_def metaKey_def)
    qed (simp_all add: defaultGateway_def)
  qed
  have second: "defaultGateway (filter (\<lambda>wg. wgNamespace wg = ns) wgs) ns = defaultGateway wgs ns"
    by (simp add: defaultGateway_def conj_commute conj_left_commute)
  have third: "defaultGateway wgs' ns = defaultGateway wgs ns" if "mset wgs' = mset wgs"
  proof -
    let ?ds = "map wgName (filter ?P wgs)" and ?ds' = "map wgName (filter ?P wgs')"
    have eq: "mset ?ds' = mset ?ds" using that by simp
    have sort: "sort ?ds' = sort ?ds"
      using arg_cong [where f = sorted_list_of_multiset, OF eq] by (simp only: sorted_list_of_multiset_mset)
    have len: "length ?ds' = length ?ds" using arg_cong [where f = size, OF eq] by (simp only: size_mset)
    from eq show ?thesis
      unfolding defaultGateway_def Let_def sort len by (cases rule: mset_shape) simp_all
  qed
  show ?thesis using first second third by blast
qed

section \<open>What the policies do to a pod\<close>

text \<open>
  The part of a pod that the CEL programs read and change; \<open>psRest\<close> is everything else. The patches
  are the four JSON patches of the mutation, by their path, and \<open>applyPatch\<close> is RFC 6902's \<open>add\<close> for these
  paths: adding to an array needs the array, adding a member sets it.
\<close>

record PodSpec =
  psHostNetwork :: "bool option"
  psInitContainers :: "Container list option"
  psVolumes :: "Volume list option"
  psRest :: string

definition notYetInjected :: "PodSpec \<Rightarrow> bool" where
  "notYetInjected ps \<longleftrightarrow> (case psInitContainers ps of
     None \<Rightarrow> True | Some cs \<Rightarrow> \<not> list_ex (\<lambda>c. ctName c = SidecarContainer) cs)"

datatype jsonPatch = AddToVolumes Volume | AddVolumes "Volume list" | AddFirstInit Container | AddInits "Container list"

definition mutation :: "Container \<Rightarrow> Volume list \<Rightarrow> PodSpec \<Rightarrow> jsonPatch list" where
  "mutation sidecar volumes ps =
     (case psVolumes ps of Some _ \<Rightarrow> map AddToVolumes volumes | None \<Rightarrow> [AddVolumes volumes])
     @ (case psInitContainers ps of Some _ \<Rightarrow> [AddFirstInit sidecar] | None \<Rightarrow> [AddInits [sidecar]])"

fun applyPatch :: "jsonPatch \<Rightarrow> PodSpec \<Rightarrow> PodSpec option" where
  "applyPatch (AddToVolumes v) ps = map_option (\<lambda>vs. ps\<lparr>psVolumes := Some (vs @ [v])\<rparr>) (psVolumes ps)"
| "applyPatch (AddVolumes vs) ps = Some (ps\<lparr>psVolumes := Some vs\<rparr>)"
| "applyPatch (AddFirstInit c) ps = map_option (\<lambda>cs. ps\<lparr>psInitContainers := Some (c # cs)\<rparr>) (psInitContainers ps)"
| "applyPatch (AddInits cs) ps = Some (ps\<lparr>psInitContainers := Some cs\<rparr>)"

fun applyPatches :: "jsonPatch list \<Rightarrow> PodSpec \<Rightarrow> PodSpec option" where
  "applyPatches [] ps = Some ps"
| "applyPatches (p # qs) ps = Option.bind (applyPatch p ps) (applyPatches qs)"

text \<open>The two validations of the backstop.\<close>

definition backstop :: "PodSpec \<Rightarrow> bool" where
  "backstop ps \<longleftrightarrow> psHostNetwork ps \<noteq> Some True
     \<and> (case psInitContainers ps of
          Some (c # _) \<Rightarrow> ctName c = ''wg-client'' \<and> ctRestartPolicy c = Some ''Always''
        | _ \<Rightarrow> False)"

text \<open>What the label selectors document: every label and every requirement must hold.\<close>

fun requirementHolds :: "(string \<rightharpoonup> string) \<Rightarrow> string \<times> selectorOp \<Rightarrow> bool" where
  "requirementHolds labels (k, OpDoesNotExist) = (labels k = None)"
| "requirementHolds labels (k, OpNotIn vs) = (case labels k of None \<Rightarrow> True | Some v \<Rightarrow> v \<notin> set vs)"

definition selectorMatches :: "LabelSelector \<Rightarrow> (string \<rightharpoonup> string) \<Rightarrow> bool" where
  "selectorMatches sel labels \<longleftrightarrow> list_all (\<lambda>(k, v). labels k = Some v) (MatchLabels sel)
     \<and> list_all (requirementHolds labels) (MatchExpressions sel)"

definition injectMatches :: "string \<Rightarrow> (string \<rightharpoonup> string) \<Rightarrow> bool" where
  "injectMatches ns labels \<longleftrightarrow> selectorMatches (ObjectSelector injectMatchResources) labels
     \<and> selectorMatches (NamespaceSelector injectMatchResources) [''kubernetes.io/metadata.name'' \<mapsto> ns]"

lemma injectMatches_iff:
  "injectMatches ns labels \<longleftrightarrow> labels LabelEnabled = Some ''true'' \<and> labels LabelComponent = None \<and> ns \<noteq> ''kube-system''"
  by (simp add: injectMatches_def selectorMatches_def injectMatchResources_def excludedNamespace_def)

text \<open>
  The admission of a new pod while the policy that is installed, if any, inserts \<open>sidecar\<close> and
  \<open>volumes\<close>: it mutates, and then the backstop decides. A mutation that fails rejects the pod.
\<close>

definition admitPod :: "(Container \<times> Volume list) option \<Rightarrow> string \<Rightarrow> (string \<rightharpoonup> string) \<Rightarrow> PodSpec \<Rightarrow> PodSpec option" where
  "admitPod policy ns labels ps =
     (if \<not> injectMatches ns labels then Some ps
      else Option.bind
        (case policy of
           Some (sidecar, volumes) \<Rightarrow> if notYetInjected ps then applyPatches (mutation sidecar volumes ps) ps else Some ps
         | None \<Rightarrow> Some ps)
        (\<lambda>ps'. if backstop ps' then Some ps' else None))"

definition orNil :: "'a list option \<Rightarrow> 'a list" where
  "orNil xs = (case xs of None \<Rightarrow> [] | Some ys \<Rightarrow> ys)"

definition injected :: "Container \<Rightarrow> Volume list \<Rightarrow> PodSpec \<Rightarrow> PodSpec" where
  "injected sidecar volumes ps = ps\<lparr>psInitContainers := Some (sidecar # orNil (psInitContainers ps)),
     psVolumes := Some (orNil (psVolumes ps) @ volumes)\<rparr>"

lemma applyPatches_volumes:
  "psVolumes ps = Some old \<Longrightarrow> applyPatches (map AddToVolumes vs @ qs) ps = applyPatches qs (ps\<lparr>psVolumes := Some (old @ vs)\<rparr>)"
proof (induction vs arbitrary: old ps)
  case Nil
  then show ?case by (cases ps) simp
qed simp

lemma applyPatches_mutation: "applyPatches (mutation sidecar volumes ps) ps = Some (injected sidecar volumes ps)"
proof (cases "psVolumes ps")
  case None
  then show ?thesis
    by (cases "psInitContainers ps") (simp_all add: mutation_def injected_def orNil_def)
next
  case (Some old)
  then show ?thesis
    by (cases "psInitContainers ps") (simp_all add: mutation_def injected_def orNil_def applyPatches_volumes)
qed

lemma sidecar_fields:
  "ctName (fst (injectedSidecar img gw)) = ''wg-client''" "ctRestartPolicy (fst (injectedSidecar img gw)) = Some ''Always''"
  by (simp_all add: injectedSidecar_def SidecarContainer_def)


definition examplePod :: PodSpec where
  "examplePod = \<lparr>psHostNetwork = None, psInitContainers = Some [emptyContainer\<lparr>ctName := ''setup''\<rparr>], psVolumes = None, psRest = []\<rparr>"


text \<open>Two Wireguards with the annotation, one of them in another namespace.\<close>

definition annotated :: "string \<Rightarrow> string \<Rightarrow> Wireguard" where
  "annotated ns name = exampleWireguard\<lparr>wgMeta := (newMeta name ns)\<lparr>Annotations := [AnnotationDefault \<mapsto> ''true'']\<rparr>\<rparr>"

lemma annotated_simps [simp]:
  "isAnnotatedDefault (annotated ns name)" "wgNamespace (annotated ns name) = ns" "metaKey (wgMeta (annotated ns name)) = NamespacedName ns name"
  by (simp_all add: annotated_def isAnnotatedDefault_def metaKey_def newMeta_def)

theorem defaultGateway_exact_witness:
  "defaultGateway [annotated ''tenant'' ''evil'', annotated ''operator'' ''vpn''] ''operator'' = Inr (NamespacedName ''operator'' ''vpn'')
   \<and> defaultGateway [annotated ''operator'' ''vpn'', annotated ''tenant'' ''evil''] ''operator'' = Inr (NamespacedName ''operator'' ''vpn'')"
proof -
  let ?a = "annotated ''tenant'' ''evil''" and ?b = "annotated ''operator'' ''vpn''"
  have one: "defaultGateway [?a, ?b] ''operator'' = Inr (NamespacedName ''operator'' ''vpn'')"
    using conjunct1 [OF defaultGateway_exact [of "[?a, ?b]" "''operator''" "NamespacedName ''operator'' ''vpn''"]] by simp
  have "mset [?b, ?a] = mset [?a, ?b]" by simp
  then have "defaultGateway [?b, ?a] ''operator'' = defaultGateway [?a, ?b] ''operator''"
    using defaultGateway_exact [of "[?a, ?b]" "''operator''" _ "[?b, ?a]"] by blast
  with one show ?thesis by simp
qed

text \<open>
  The backstop recognises the sidecar by its name, its place and its restart policy, and by nothing else: a
  labelled pod that brings a container of that shape, whatever its image does, is admitted as it is.
\<close>

theorem admitPod_lookalike:
  assumes "psInitContainers ps = Some (c # cs)" and "ctName c = ''wg-client''" and "ctRestartPolicy c = Some ''Always''"
    and "psHostNetwork ps \<noteq> Some True"
  shows "admitPod policy ns labels ps = Some ps"
  using assms by (simp add: admitPod_def notYetInjected_def backstop_def SidecarContainer_def split: option.split)

section \<open>The policy follows the gateway\<close>

text \<open>
  What the API server promises about admission objects and Wireguards: a listing is what there is, an
  apply that succeeds has stored its configuration, a delete that succeeds or finds nothing leaves none.
  \<open>store\<close> gives, by kind and name, the configuration that was last applied to an object that exists.
\<close>

definition objectKey :: "json \<Rightarrow> string \<times> string" where
  "objectKey obj = (jsonString (jsonField ''kind'' obj), jsonString (jsonField ''name'' (jsonField ''metadata'' obj)))"

abbreviation policyAt :: "string \<times> string" where "policyAt \<equiv> (policyKind, injectPolicyName)"
abbreviation bindingAt :: "string \<times> string" where "bindingAt \<equiv> (bindingKind, injectPolicyName)"

definition storeLaws :: "('w \<Rightarrow> string \<times> string \<rightharpoonup> json) \<Rightarrow> ('w \<Rightarrow> Wireguard list) \<Rightarrow> 'w injectClient \<Rightarrow> bool" where
  "storeLaws store wgs c \<longleftrightarrow> (\<forall>S W g obj v k n.
     triple (\<lambda>w. store w = S \<and> wgs w = W) (ServerResources c g) (\<lambda>_ w. store w = S \<and> wgs w = W)
     \<and> triple (\<lambda>w. store w = S \<and> wgs w = W) (listWireguards c) (\<lambda>x w. store w = S \<and> wgs w = W \<and> (\<forall>l. x = Inr l \<longrightarrow> l = W))
     \<and> triple (\<lambda>w. store w = S) (applyObject c obj)
         (\<lambda>x w. \<not> isl x \<longrightarrow> store w = S(objectKey obj \<mapsto> obj))
     \<and> triple (\<lambda>w. store w = S) (deleteObject c v k n)
         (\<lambda>x w. \<not> isl x \<or> x = Inl NotFound \<longrightarrow> store w = S((k, n) := None)))"

lemma serveFrom_triple:
  assumes "storeLaws store wgs c"
  shows "triple (\<lambda>w. store w = S \<and> wgs w = W) (serveFrom c vs) (\<lambda>_ w. store w = S \<and> wgs w = W)"
proof (induction vs)
  case Nil
  show ?case by (auto intro: triple_ret)
next
  case (Cons v vs)
  have "triple (\<lambda>w. store w = S \<and> wgs w = W) (ServerResources c g) (\<lambda>_ w. store w = S \<and> wgs w = W)" for g
    using assms unfolding storeLaws_def by blast
  then show ?case
    unfolding serveFrom.simps
    by (rule triple_bind) (auto intro!: triple_ret triple_if Cons.IH split: sum.split)
qed

lemma deleteKinds_triple:
  assumes "storeLaws store wgs c"
  shows "triple (\<lambda>w. store w = S) (deleteKinds c v ks) (\<lambda>x w. \<not> isl x \<longrightarrow> store w = (\<lambda>j. if j \<in> (\<lambda>k. (k, injectPolicyName)) ` set ks then None else S j))"
proof (induction ks arbitrary: S)
  case Nil
  show ?case by (auto intro: triple_ret)
next
  case (Cons k ks)
  have "triple (\<lambda>w. store w = S) (deleteObject c v k injectPolicyName)
       (\<lambda>x w. \<not> isl x \<or> x = Inl NotFound \<longrightarrow> store w = S((k, injectPolicyName) := None))"
    using assms unfolding storeLaws_def by blast
  then show ?case
    unfolding deleteKinds.simps
    apply (rule triple_bind)
    subgoal for x
    proof (cases "x = Inl NotFound \<or> \<not> isl x")
      case True
      have "(\<lambda>j. if j \<in> (\<lambda>k. (k, injectPolicyName)) ` set ks then None else (S((k, injectPolicyName) := None)) j) = (\<lambda>j. if j \<in> (\<lambda>k. (k, injectPolicyName)) ` set (k # ks) then None else S j)" by auto
      then have rest: "triple (\<lambda>w. store w = S((k, injectPolicyName) := None)) (deleteKinds c v ks) (\<lambda>x w. \<not> isl x \<longrightarrow> store w = (\<lambda>j. if j \<in> (\<lambda>k. (k, injectPolicyName)) ` set (k # ks) then None else S j))"
        using Cons.IH [of "S((k, injectPolicyName) := None)"] by (simp only:)
      show ?thesis
      proof (cases x)
        case (Inl e)
        then have e: "e = NotFound" using True by simp
        show ?thesis
          unfolding Inl e sum.case by (rule triple_if) (simp, rule triple_pre [OF rest], simp)
      next
        case (Inr u)
        show ?thesis unfolding Inr sum.case by (rule triple_pre [OF rest]) simp
      qed
    next
      case False
      then show ?thesis by (cases x) (auto intro: triple_ret)
    qed
    done
qed

lemma applyForced_triple:
  assumes "storeLaws store wgs c"
  shows "triple (\<lambda>w. store w = S) (applyForced c obj) (\<lambda>x w. \<not> isl x \<longrightarrow> store w = S(objectKey obj \<mapsto> obj))"
  unfolding applyForced_def
  by (rule triple_mapErr_ok) (use assms in \<open>unfold storeLaws_def, blast\<close>)

lemma renderInjectPolicy_kinds:
  assumes "renderInjectPolicy cv v sc vs = Inr (policy, binding)"
  shows "objectKey policy = policyAt" and "objectKey binding = bindingAt"
  using assms by (auto simp: renderInjectPolicy_def admissionObject_def objectKey_def split: sum.splits)

text \<open>The objects a pass leaves, for the Wireguards that there are.\<close>

definition policyFollows :: "'w InjectionPolicyReconciler \<Rightarrow> Wireguard list \<Rightarrow> (string \<times> string \<rightharpoonup> json) \<Rightarrow> (string \<times> string \<rightharpoonup> json) \<Rightarrow> bool" where
  "policyFollows r W S S' \<longleftrightarrow> (case defaultGateway W (irOperatorNamespace r) of
     Inl _ \<Rightarrow> S' = S(bindingAt := None, policyAt := None)
   | Inr gateway \<Rightarrow> (\<exists>version policy binding. version \<noteq> [] \<and> renderInjectPolicy (conv (irClient r)) version
         (fst (injectedSidecar (irImage r) (nnString gateway))) (snd (injectedSidecar (irImage r) (nnString gateway))) = Inr (policy, binding)
         \<and> S' = S(policyAt \<mapsto> policy, bindingAt \<mapsto> binding)))"

lemma injectionOff_triple:
  assumes laws: "storeLaws store wgs (irClient r)" and off: "defaultGateway W (irOperatorNamespace r) = Inl err"
  shows "triple (\<lambda>w. store w = S) (deleteInjectPolicy (irClient r) version) (\<lambda>x w. \<not> isl x \<longrightarrow> policyFollows r W S (store w))"
proof (rule triple_post)
  have "(\<lambda>j. if j \<in> (\<lambda>k. (k, injectPolicyName)) ` set [bindingKind, policyKind] then None else S j) = S(bindingAt := None, policyAt := None)" by auto
  then show "triple (\<lambda>w. store w = S) (deleteInjectPolicy (irClient r) version)
      (\<lambda>x w. \<not> isl x \<longrightarrow> store w = S(bindingAt := None, policyAt := None))"
    using deleteKinds_triple [OF laws, of S version "[bindingKind, policyKind]"] by (simp only: deleteInjectPolicy_def)
qed (simp add: policyFollows_def off)

lemma injectionOn_triple:
  assumes laws: "storeLaws store wgs (irClient r)" and version: "version \<noteq> []"
    and on: "defaultGateway W (irOperatorNamespace r) = Inr gateway"
    and sc: "injectedSidecar (irImage r) (nnString gateway) = (container, volumes)"
    and pb: "renderInjectPolicy (conv (irClient r)) version container volumes = Inr (policy, binding)"
  shows "triple (\<lambda>w. store w = S) (bindE (applyForced (irClient r) policy) (\<lambda>_. applyForced (irClient r) binding))
    (\<lambda>x w. \<not> isl x \<longrightarrow> policyFollows r W S (store w))"
proof -
  note kinds = renderInjectPolicy_kinds [OF pb]
  have 1: "triple (\<lambda>w. store w = S) (applyForced (irClient r) policy) (\<lambda>x w. \<not> isl x \<longrightarrow> store w = S(policyAt \<mapsto> policy))"
    using applyForced_triple [OF laws, of S policy] by (simp add: kinds)
  have 2: "triple (\<lambda>w. store w = S(policyAt \<mapsto> policy)) (applyForced (irClient r) binding)
      (\<lambda>x w. \<not> isl x \<longrightarrow> store w = S(policyAt \<mapsto> policy, bindingAt \<mapsto> binding))"
    using applyForced_triple [OF laws, of "S(policyAt \<mapsto> policy)" binding] by (simp add: kinds)
  have follows: "policyFollows r W S (S(policyAt \<mapsto> policy, bindingAt \<mapsto> binding))"
    using pb version on by (auto simp: policyFollows_def sc)
  show ?thesis
    by (rule triple_post [OF triple_bindE_ok [OF 1 2]]) (simp add: follows)
qed

text \<open>What a pass does with the Wireguards it has listed.\<close>

lemma injectionDecided_triple:
  assumes laws: "storeLaws store wgs (irClient r)" and version: "version \<noteq> []"
  shows "triple (\<lambda>w. store w = S)
      (case defaultGateway W (irOperatorNamespace r) of
            Inl _ \<Rightarrow> bindE (deleteInjectPolicy (irClient r) version) (\<lambda>_. ret (Inr 0))
          | Inr gateway \<Rightarrow>
            (let (container, volumes) = injectedSidecar (irImage r) (nnString gateway) in
             case renderInjectPolicy (conv (irClient r)) version container volumes of
               Inl e \<Rightarrow> ret (Inl e)
             | Inr (policy, binding) \<Rightarrow>
               bindE (applyForced (irClient r) policy) (\<lambda>_. bindE (applyForced (irClient r) binding) (\<lambda>_. ret (Inr 0)))))
    (\<lambda>x w. \<forall>d. x = Inr d \<longrightarrow> d = 0 \<and> policyFollows r W S (store w))" (is "triple _ _ ?Q")
proof (cases "defaultGateway W (irOperatorNamespace r)")
  case (Inl e)
  show ?thesis
    unfolding Inl sum.case by (rule triple_bindE [OF injectionOff_triple [OF laws Inl]]) (auto intro!: triple_ret)
next
  case (Inr gateway)
  obtain container volumes where sc: "injectedSidecar (irImage r) (nnString gateway) = (container, volumes)" by fastforce
  show ?thesis
  proof (cases "renderInjectPolicy (conv (irClient r)) version container volumes")
    case (Inr pb)
    then obtain policy binding where pb: "renderInjectPolicy (conv (irClient r)) version container volumes = Inr (policy, binding)" by (cases pb) simp
    have "triple (\<lambda>w. store w = S) (bindE (bindE (applyForced (irClient r) policy) (\<lambda>_. applyForced (irClient r) binding)) (\<lambda>_. ret (Inr 0))) ?Q"
      by (rule triple_bindE [OF injectionOn_triple [OF laws version \<open>defaultGateway _ _ = _\<close> sc pb]]) (auto intro!: triple_ret)
    then show ?thesis
      by (simp add: \<open>defaultGateway _ _ = _\<close> sc pb bindE_assoc)
  qed (auto simp: \<open>defaultGateway _ _ = _\<close> sc intro!: triple_ret)
qed

lemma ReconcileInjection_triple:
  assumes laws: "storeLaws store wgs (irClient r)"
  shows "triple (\<lambda>w. store w = S \<and> wgs w = W) (ReconcileInjection r)
    (\<lambda>x w. \<forall>d. x = Inr d \<longrightarrow> d = policyRecheck \<and> store w = S \<or> d = 0 \<and> policyFollows r W S (store w))"
    (is "triple _ _ ?Q")
proof -
  have lst: "triple (\<lambda>w. store w = S \<and> wgs w = W) (listWireguards (irClient r)) (\<lambda>x w. store w = S \<and> wgs w = W \<and> (\<forall>l. x = Inr l \<longrightarrow> l = W))"
    using laws unfolding storeLaws_def by blast
  have decide: "triple (\<lambda>w. store w = S \<and> wgs w = W) (bindE (mapErr g (listWireguards (irClient r))) m) ?Q"
    if m: "triple (\<lambda>w. store w = S) (m W) (\<lambda>x w. \<forall>d. x = Inr d \<longrightarrow> d = 0 \<and> policyFollows r W S (store w))" for g m
  proof (rule triple_bindE [where R = "\<lambda>x w. store w = S \<and> wgs w = W \<and> (\<forall>l. x = Inr l \<longrightarrow> l = W)"], goal_cases)
    case 1
    show ?case by (rule triple_mapErr [OF lst]; simp)
  next
    case (3 l)
    show ?case
    proof (cases "l = W")
      case True
      show ?thesis unfolding True by (rule triple_pre [OF triple_post [OF m]]) auto
    qed (simp add: triple_def)
  qed simp
  show ?thesis
    unfolding ReconcileInjection_def Let_def servedPolicyVersion_def
    by (rule triple_bindE [OF serveFrom_triple [OF laws]])
      (auto intro!: triple_ret triple_if decide injectionDecided_triple [OF laws, unfolded Let_def])
qed


record injectSim =
  simStore :: "string \<times> string \<rightharpoonup> json"
  simWgs :: "Wireguard list"

definition simInjectClient :: "injectSim injectClient" where
  "simInjectClient = \<lparr>
     ServerResources = (\<lambda>g. ret (if g = ''admissionregistration.k8s.io/v1'' then Inl NotFound else Inr [''mutatingadmissionpolicies''])),
     listWireguards = readSim (\<lambda>w. Inr (simWgs w)),
     applyObject = (\<lambda>obj. writeSim (\<lambda>w. w\<lparr>simStore := (simStore w)(objectKey obj \<mapsto> obj)\<rparr>) (Inr ())),
     deleteObject = (\<lambda>_ k n. State (\<lambda>w. (if simStore w (k, n) = None then Inl NotFound else Inr (), w\<lparr>simStore := (simStore w)((k, n) := None)\<rparr>))),
     conv = \<lparr>containerJSON = (\<lambda>c. Inr (JObj [(''name'', JStr (ctName c)), (''args'', JArr (map JStr (ctArgs c)))])),
       volumesJSON = (\<lambda>vs. Inr (JArr (map (\<lambda>v. JStr (volName v)) vs))), matchJSON = (\<lambda>_. Inr JNull)\<rparr>\<rparr>"

definition simInjection :: "injectSim InjectionPolicyReconciler" where
  "simInjection = \<lparr>irClient = simInjectClient, irImage = ''agent:1'', irOperatorNamespace = ''operator''\<rparr>"

lemma simInjectClient_laws: "storeLaws simStore simWgs simInjectClient"
  unfolding storeLaws_def simInjectClient_def by (auto simp: triple_def split: if_splits)


section \<open>The events that reach the reconciler\<close>

text \<open>
  \<^verbatim>\<open>SetupWithManager\<close>: the start of the manager, and every Wireguard event that
  \<^verbatim>\<open>AnnotationChangedPredicate\<close> lets through, which is the parameter \<open>changed\<close> for an update.
\<close>

datatype wireguardEvent = ManagerStarted | WireguardCreated Wireguard | WireguardUpdated Wireguard Wireguard | WireguardDeleted Wireguard

fun enqueuesInjection :: "(Wireguard \<Rightarrow> Wireguard \<Rightarrow> bool) \<Rightarrow> wireguardEvent \<Rightarrow> NamespacedName list" where
  "enqueuesInjection changed ManagerStarted = [injectionKey]"
| "enqueuesInjection changed (WireguardCreated _) = [injectionKey]"
| "enqueuesInjection changed (WireguardUpdated old new) = (if changed old new then [injectionKey] else [])"
| "enqueuesInjection changed (WireguardDeleted _) = [injectionKey]"

definition annotationLaw :: "(Wireguard \<Rightarrow> Wireguard \<Rightarrow> bool) \<Rightarrow> bool" where
  "annotationLaw changed \<longleftrightarrow> (\<forall>old new. changed old new \<longleftrightarrow> Annotations (wgMeta old) \<noteq> Annotations (wgMeta new))"

text \<open>An update that is not let through leaves the choice of the gateway, and its error, as they were.\<close>

theorem quiet_update_keeps_default:
  assumes "annotationLaw changed" and "enqueuesInjection changed (WireguardUpdated old new) = []"
    and "metaKey (wgMeta old) = metaKey (wgMeta new)"
  shows "defaultGateway (xs @ old # ys) ns = defaultGateway (xs @ new # ys) ns"
proof -
  have "isAnnotatedDefault old = isAnnotatedDefault new"
    using assms(1,2) by (auto simp: annotationLaw_def isAnnotatedDefault_def split: if_splits)
  moreover have "wgName old = wgName new" "wgNamespace old = wgNamespace new" using assms(3) by (simp_all add: metaKey_def)
  ultimately show ?thesis by (simp add: defaultGateway_def)
qed

end
