(* ===== verification/Rbac.thy ===== *)
theory Rbac
  imports Injection
begin

text \<open>
  The RoleBinding of the injected sidecars, \<open>src/internal/controller/injection_rbac.go\<close>: when a namespace
  needs it, what to do about the object that holds its name, and the reconciler. The calls of the
  client and \<^verbatim>\<open>ToUnstructured\<close> are parameters; the set of namespaces whose refusal has been logged
  is the state of the reconciler, and the result says whether a pass logs one.
\<close>

section \<open>The decision\<close>

record RoleRef =
  rrAPIGroup :: string
  rrKind :: string
  rrName :: string

record Subject =
  sbAPIGroup :: string
  sbKind :: string
  sbName :: string

record RoleBinding =
  rbMeta :: ObjectMeta
  rbRoleRef :: RoleRef
  rbSubjects :: "Subject list"

definition needsClientRoleBinding :: "string \<Rightarrow> Pod list \<Rightarrow> bool" where
  "needsClientRoleBinding ns pods \<longleftrightarrow> ns \<noteq> excludedNamespace
     \<and> list_ex (\<lambda>p. Labels (podMeta p) LabelComponent = None) pods"

datatype roleBindingAction = actionNone | actionApply | actionDelete | actionRefuseForeign

fun actionString :: "roleBindingAction \<Rightarrow> string" where
  "actionString actionApply = ''apply''"
| "actionString actionDelete = ''delete''"
| "actionString actionRefuseForeign = ''refuse''"
| "actionString actionNone = ''none''"

definition ours :: "RoleBinding \<Rightarrow> bool" where
  "ours b \<longleftrightarrow> Labels (rbMeta b) LabelManagedBy = Some ManagedByValue"

definition clientRoleBindingAction :: "bool \<Rightarrow> RoleBinding option \<Rightarrow> roleBindingAction" where
  "clientRoleBindingAction needed existing =
     (let mine = (case existing of None \<Rightarrow> False | Some b \<Rightarrow> ours b) in
      if needed \<and> (existing = None \<or> mine) then actionApply
      else if needed then actionRefuseForeign
      else if mine then actionDelete
      else actionNone)"

definition desiredClientRoleBinding :: "string \<Rightarrow> RoleBinding" where
  "desiredClientRoleBinding ns = \<lparr>
     rbMeta = (newMeta ClientRoleName ns)\<lparr>Labels := [LabelManagedBy \<mapsto> ManagedByValue]\<rparr>,
     rbRoleRef = \<lparr>rrAPIGroup = ''rbac.authorization.k8s.io'', rrKind = ''ClusterRole'', rrName = ClientRoleName\<rparr>,
     rbSubjects = [\<lparr>sbAPIGroup = ''rbac.authorization.k8s.io'', sbKind = ''Group'', sbName = ''system:serviceaccounts:'' @ ns\<rparr>]\<rparr>"

text \<open>What the manager caches: the pods and the RoleBindings that its cached reads can see.\<close>

definition cachedPod :: "Pod \<Rightarrow> bool" where
  "cachedPod p \<longleftrightarrow> Labels (podMeta p) LabelEnabled = Some ''true''"

definition cachedRoleBinding :: "RoleBinding \<Rightarrow> bool" where
  "cachedRoleBinding b \<longleftrightarrow> Name (rbMeta b) = ClientRoleName"

section \<open>The reconciler\<close>

record 'w rbacClient =
  listLabelledPods :: "string \<Rightarrow> ('w, apiError, Pod list) io"
  getRoleBinding :: "NamespacedName \<Rightarrow> ('w, apiError, RoleBinding) io"
  deleteRoleBinding :: "RoleBinding \<Rightarrow> string \<Rightarrow> ('w, apiError, unit) io"
  roleBindingJSON :: "RoleBinding \<Rightarrow> string + json"
  rbApply :: "'w injectClient"

text \<open>The last part of \<^verbatim>\<open>Reconcile\<close>: the new set of logged namespaces, and whether this pass logs.\<close>

definition bindingAct ::
    "'w rbacClient \<Rightarrow> string \<Rightarrow> string set \<Rightarrow> roleBindingAction \<Rightarrow> RoleBinding option \<Rightarrow> ('w, (goError + unit) \<times> string set \<times> bool) state" where
  "bindingAct c ns refused action existing =
     (let refused' = (if action \<noteq> actionRefuseForeign then refused - {ns} else refused) in
      case (action, existing) of
        (actionApply, _) \<Rightarrow>
          (case roleBindingJSON c (desiredClientRoleBinding ns) of
             Inl e \<Rightarrow> ret (Inl (WrapErr ''convert RoleBinding'' (ErrorText e)), refused', False)
           | Inr u \<Rightarrow> do { r \<leftarrow> applyForced (rbApply c) u; ret (r, refused', False) })
      | (actionDelete, Some b) \<Rightarrow> do {
          r \<leftarrow> deleteRoleBinding c b (UID (rbMeta b));
          ret (case r of
                 Inl e \<Rightarrow> if e \<noteq> NotFound
                          then Inl (WrapErr (''delete RoleBinding '' @ ns @ ''/'' @ ClientRoleName) (ApiErr e)) else Inr ()
               | Inr _ \<Rightarrow> Inr (), refused', False)
        }
      | (actionRefuseForeign, _) \<Rightarrow> ret (Inr (), insert ns refused', ns \<notin> refused')
      | _ \<Rightarrow> ret (Inr (), refused', False))"

definition ReconcileRoleBinding :: "'w rbacClient \<Rightarrow> string \<Rightarrow> string set \<Rightarrow> ('w, (goError + unit) \<times> string set \<times> bool) state" where
  "ReconcileRoleBinding c ns refused = do {
     pods \<leftarrow> listLabelledPods c ns;
     case pods of
       Inl e \<Rightarrow> ret (Inl (WrapErr (''list labelled pods in '' @ ns) (ApiErr e)), refused, False)
     | Inr ps \<Rightarrow> do {
         found \<leftarrow> getRoleBinding c (NamespacedName ns ClientRoleName);
         case found of
           Inl e \<Rightarrow> if e \<noteq> NotFound
                    then ret (Inl (WrapErr (''get RoleBinding '' @ ns @ ''/'' @ ClientRoleName) (ApiErr e)), refused, False)
                    else bindingAct c ns refused (clientRoleBindingAction (needsClientRoleBinding ns ps) None) None
         | Inr b \<Rightarrow> bindingAct c ns refused (clientRoleBindingAction (needsClientRoleBinding ns ps) (Some b)) (Some b)
       }
   }"

text \<open>
  The events of \<^verbatim>\<open>SetupWithManager\<close> and the namespace each enqueues. The cache shows only labelled pods, so
  a pod that gains or loses the label is created or deleted for it.
\<close>

datatype bindingEvent = PodCreated Pod | PodUpdated Pod Pod | PodDeleted Pod | RoleBindingChanged RoleBinding

fun enqueuedNamespace :: "bindingEvent \<Rightarrow> string option" where
  "enqueuedNamespace (PodCreated p) = Some (Namespace (podMeta p))"
| "enqueuedNamespace (PodUpdated _ _) = None"
| "enqueuedNamespace (PodDeleted p) = Some (Namespace (podMeta p))"
| "enqueuedNamespace (RoleBindingChanged b) = Some (Namespace (rbMeta b))"

section \<open>The RoleBinding follows the injected pods\<close>

text \<open>The pods that need the binding are the pods that the injection policy applies to.\<close>

lemma needsClientRoleBinding_iff:
  assumes "list_all cachedPod pods"
  shows "needsClientRoleBinding ns pods \<longleftrightarrow> list_ex (\<lambda>p. injectMatches ns (Labels (podMeta p))) pods"
  using assms by (auto simp: needsClientRoleBinding_def injectMatches_iff excludedNamespace_def cachedPod_def list_all_iff list_ex_iff)

text \<open>
  What the API server promises of the object at the binding's name, \<open>view\<close>, and of the labelled pods: reads
  show what there is, a delete that succeeds or finds nothing leaves none, and an apply that
  succeeds leaves an object with the applied role, subjects and label.
\<close>

definition bindingLaws :: "('w \<Rightarrow> RoleBinding option) \<Rightarrow> ('w \<Rightarrow> Pod list) \<Rightarrow> 'w rbacClient \<Rightarrow> string \<Rightarrow> bool" where
  "bindingLaws view pods c ns \<longleftrightarrow> (\<forall>v P.
     triple (\<lambda>w. view w = v \<and> pods w = P) (listLabelledPods c ns)
       (\<lambda>x w. view w = v \<and> pods w = P \<and> (\<forall>ps. x = Inr ps \<longrightarrow> ps = P \<and> list_all cachedPod P))
     \<and> triple (\<lambda>w. view w = v) (getRoleBinding c (NamespacedName ns ClientRoleName))
       (\<lambda>x w. view w = v \<and> (\<forall>b. x = Inr b \<longrightarrow> v = Some b) \<and> (x = Inl NotFound \<longrightarrow> v = None)))
   \<and> (\<forall>b. triple (\<lambda>w. view w = Some b) (deleteRoleBinding c b (UID (rbMeta b))) (\<lambda>x w. x = Inr () \<or> x = Inl NotFound \<longrightarrow> view w = None))
   \<and> (\<forall>b u. b = desiredClientRoleBinding ns \<longrightarrow> roleBindingJSON c b = Inr u \<longrightarrow> triple (\<lambda>w. True) (applyObject (rbApply c) u)
       (\<lambda>x w. x = Inr () \<longrightarrow> (\<exists>b'. view w = Some b' \<and> rbRoleRef b' = rbRoleRef b \<and> rbSubjects b' = rbSubjects b
          \<and> Labels (rbMeta b') LabelManagedBy = Labels (rbMeta b) LabelManagedBy)))"

definition isDesired :: "string \<Rightarrow> RoleBinding \<Rightarrow> bool" where
  "isDesired ns b \<longleftrightarrow> ours b \<and> rbRoleRef b = rbRoleRef (desiredClientRoleBinding ns) \<and> rbSubjects b = rbSubjects (desiredClientRoleBinding ns)"

text \<open>The object a pass leaves at the name.\<close>

definition bindingFollows :: "string \<Rightarrow> Pod list \<Rightarrow> RoleBinding option \<Rightarrow> RoleBinding option \<Rightarrow> bool" where
  "bindingFollows ns P v v' \<longleftrightarrow>
     (case v of
        Some b \<Rightarrow> if \<not> ours b then v' = v
                  else if list_ex (\<lambda>p. injectMatches ns (Labels (podMeta p))) P then pred_option (isDesired ns) v' \<and> v' \<noteq> None
                  else v' = None
      | None \<Rightarrow> if list_ex (\<lambda>p. injectMatches ns (Labels (podMeta p))) P then pred_option (isDesired ns) v' \<and> v' \<noteq> None
                else v' = None)"

text \<open>The action by what holds the name.\<close>

lemma clientRoleBindingAction_simps:
  "clientRoleBindingAction n None = (if n then actionApply else actionNone)"
  "clientRoleBindingAction n (Some b) =
     (if ours b then (if n then actionApply else actionDelete) else if n then actionRefuseForeign else actionNone)"
  by (auto simp: clientRoleBindingAction_def Let_def)

lemma applyBinding_triple:
  assumes laws: "bindingLaws view pods c ns" and u: "roleBindingJSON c (desiredClientRoleBinding ns) = Inr u"
  shows "triple (\<lambda>w. True) (applyForced (rbApply c) u) (\<lambda>x w. x = Inr () \<longrightarrow> (\<exists>b'. view w = Some b' \<and> isDesired ns b'))"
proof -
  have law: "triple (\<lambda>w. True) (applyObject (rbApply c) u)
     (\<lambda>x w. x = Inr () \<longrightarrow> (\<exists>b'. view w = Some b' \<and> rbRoleRef b' = rbRoleRef (desiredClientRoleBinding ns)
        \<and> rbSubjects b' = rbSubjects (desiredClientRoleBinding ns)
        \<and> Labels (rbMeta b') LabelManagedBy = Labels (rbMeta (desiredClientRoleBinding ns)) LabelManagedBy))"
    using laws u unfolding bindingLaws_def by blast
  show ?thesis
    unfolding applyForced_def
    by (rule triple_mapErr [OF law]) (auto simp: isDesired_def ours_def desiredClientRoleBinding_def)
qed

lemma bindingAct_triple:
  assumes laws: "bindingLaws view pods c ns" and P: "list_all cachedPod P"
  shows "triple (\<lambda>w. view w = v) (bindingAct c ns refused (clientRoleBindingAction (needsClientRoleBinding ns P) v) v)
    (\<lambda>(x, _, logged) w. (x = Inr () \<longrightarrow> bindingFollows ns P v (view w))
       \<and> (logged = (ns \<notin> refused \<and> needsClientRoleBinding ns P \<and> \<not> (case v of None \<Rightarrow> True | Some b \<Rightarrow> ours b))))"
proof -
  let ?need = "needsClientRoleBinding ns P"
  have need: "list_ex (\<lambda>p. injectMatches ns (Labels (podMeta p))) P = ?need"
    by (rule needsClientRoleBinding_iff [OF P, symmetric])
  have del: "triple (\<lambda>w. view w = Some b) (deleteRoleBinding c b (UID (rbMeta b))) (\<lambda>x w. x = Inr () \<or> x = Inl NotFound \<longrightarrow> view w = None)" for b
    using laws unfolding bindingLaws_def by blast
  note app = applyBinding_triple [OF laws]
  have yes: "bindingFollows ns P v (Some b')" if "?need" "isDesired ns b'" "v = None \<or> (\<exists>b. v = Some b \<and> ours b)" for b'
    using that by (auto simp: bindingFollows_def need)
  consider (applied) "?need" "v = None \<or> (\<exists>b. v = Some b \<and> ours b)" | (deleted) b where "\<not> ?need" "v = Some b" "ours b"
    | (refused) b where "?need" "v = Some b" "\<not> ours b" | (idle) "\<not> ?need" "v = None \<or> (\<exists>b. v = Some b \<and> \<not> ours b)"
    by (cases v) auto
  then show ?thesis
  proof cases
    case applied
    then have a: "clientRoleBindingAction ?need v = actionApply" by (auto simp: clientRoleBindingAction_simps)
    show ?thesis
    proof (cases "roleBindingJSON c (desiredClientRoleBinding ns)")
      case (Inl e)
      show ?thesis unfolding a bindingAct_def using applied by (auto simp: Inl intro!: triple_ret)
    next
      case (Inr u)
      have "triple (\<lambda>w. view w = v) (do { r \<leftarrow> applyForced (rbApply c) u; ret (r, s, False) })
          (\<lambda>(x, _, logged) w. (x = Inr () \<longrightarrow> bindingFollows ns P v (view w)) \<and> \<not> logged)" for s
        by (rule triple_pre [OF triple_bind [OF app [OF Inr]]]) (auto intro!: triple_ret dest: yes [OF applied(1) _ applied(2)])
      then show ?thesis unfolding a bindingAct_def using applied by (auto simp: Inr)
    qed
  next
    case (deleted b)
    then have a: "clientRoleBindingAction ?need v = actionDelete" by (simp add: clientRoleBindingAction_simps)
    show ?thesis
      unfolding a bindingAct_def using deleted
      by (auto simp: bindingFollows_def need intro!: triple_ret triple_pre [OF triple_bind [OF del]] split: sum.splits)
  next
    case (refused b)
    then show ?thesis by (auto simp: clientRoleBindingAction_simps bindingAct_def bindingFollows_def need intro!: triple_ret)
  next
    case idle
    then show ?thesis by (auto simp: clientRoleBindingAction_simps bindingAct_def bindingFollows_def need intro!: triple_ret)
  qed
qed

text \<open>The outcome of a pass without an error: the object at the name, and whether a refusal is logged.\<close>

definition bindingOutcome :: "string \<Rightarrow> string set \<Rightarrow> Pod list \<Rightarrow> RoleBinding option \<Rightarrow> bool \<Rightarrow> RoleBinding option \<Rightarrow> bool" where
  "bindingOutcome ns refused P v logged v' \<longleftrightarrow> bindingFollows ns P v v'
     \<and> logged = (ns \<notin> refused \<and> list_ex (\<lambda>p. injectMatches ns (Labels (podMeta p))) P \<and> \<not> (case v of None \<Rightarrow> True | Some b \<Rightarrow> ours b))"

lemma foundBinding_triple:
  assumes laws: "bindingLaws view pods c ns" and P: "list_all cachedPod P"
  shows "triple (\<lambda>w. view w = v) (do {
         found \<leftarrow> getRoleBinding c (NamespacedName ns ClientRoleName);
         case found of
           Inl e \<Rightarrow> if e \<noteq> NotFound
                    then ret (Inl (WrapErr (''get RoleBinding '' @ ns @ ''/'' @ ClientRoleName) (ApiErr e)), refused, False)
                    else bindingAct c ns refused (clientRoleBindingAction (needsClientRoleBinding ns P) None) None
         | Inr b \<Rightarrow> bindingAct c ns refused (clientRoleBindingAction (needsClientRoleBinding ns P) (Some b)) (Some b)
       }) (\<lambda>(x, _, logged) w. x = Inr () \<longrightarrow> bindingOutcome ns refused P v logged (view w))"
proof -
  have rd: "triple (\<lambda>w. view w = v) (getRoleBinding c (NamespacedName ns ClientRoleName))
      (\<lambda>x w. view w = v \<and> (\<forall>b. x = Inr b \<longrightarrow> v = Some b) \<and> (x = Inl NotFound \<longrightarrow> v = None))"
    using laws unfolding bindingLaws_def by blast
  have act: "triple (\<lambda>w. view w = u) (bindingAct c ns refused (clientRoleBindingAction (needsClientRoleBinding ns P) u) u)
      (\<lambda>(x, _, logged) w. x = Inr () \<longrightarrow> bindingOutcome ns refused P u logged (view w))" for u
    by (rule triple_post [OF bindingAct_triple [OF laws P]])
      (auto simp: bindingOutcome_def needsClientRoleBinding_iff [OF P, of ns])
  show ?thesis
  proof (rule triple_bind [OF rd], goal_cases)
    case (1 found)
    show ?case
    proof (cases found)
      case (Inl e)
      then show ?thesis using act [of None] by (cases v) (auto simp: triple_def)
    next
      case (Inr b)
      then show ?thesis using act [of "Some b"] by (cases "v = Some b") (auto simp: triple_def)
    qed
  qed
qed

lemma ReconcileRoleBinding_triple:
  assumes laws: "bindingLaws view pods c ns"
  shows "triple (\<lambda>w. view w = v \<and> pods w = P) (ReconcileRoleBinding c ns refused)
    (\<lambda>(x, _, logged) w. x = Inr () \<longrightarrow> bindingOutcome ns refused P v logged (view w))"
proof -
  have lst: "triple (\<lambda>w. view w = v \<and> pods w = P) (listLabelledPods c ns)
      (\<lambda>x w. view w = v \<and> pods w = P \<and> (\<forall>ps. x = Inr ps \<longrightarrow> ps = P \<and> list_all cachedPod P))"
    using laws unfolding bindingLaws_def by blast
  show ?thesis
    unfolding ReconcileRoleBinding_def
  proof (rule triple_bind [OF lst], goal_cases)
    case (1 x)
    show ?case
    proof (cases x)
      case (Inr ps)
      show ?thesis
      proof (cases "ps = P \<and> list_all cachedPod P")
        case True
        then have "ps = P" "list_all cachedPod P" by simp_all
        show ?thesis unfolding Inr sum.case \<open>ps = P\<close> by (rule triple_pre [OF foundBinding_triple [OF laws \<open>list_all cachedPod P\<close>]]) simp
      qed (auto simp: Inr triple_def)
    qed (simp add: triple_ret)
  qed
qed


text \<open>
  Error or not, a pass that finds a foreign object at the name only reads: what holds of the world before
  and is kept by the two reads holds after, with no promise about the writes.
\<close>

theorem ReconcileRoleBinding_foreign:
  assumes reads: "maintains I (listLabelledPods c ns)"
      "triple I (getRoleBinding c (NamespacedName ns ClientRoleName)) (\<lambda>x w. I w \<and> x \<noteq> Inl NotFound \<and> (\<forall>b. x = Inr b \<longrightarrow> \<not> ours b))"
  shows "maintains I (ReconcileRoleBinding c ns refused)"
  unfolding ReconcileRoleBinding_def maintains_def
proof (rule triple_bind [OF reads(1) [unfolded maintains_def]], goal_cases)
  case (1 x)
  show ?case
  proof (cases x)
    case (Inr ps)
    show ?thesis unfolding Inr sum.case
    proof (rule triple_bind [OF reads(2)], goal_cases)
      case (1 y)
      show ?case
        by (cases y) (auto simp: clientRoleBindingAction_simps bindingAct_def triple_def)
    qed
  qed (simp add: triple_ret)
qed

text \<open>A pod update that no event reports can end the need for the binding: the component label may be added to a running pod.\<close>

theorem podUpdate_changes_need:
  "let p = \<lparr>podMeta = (newMeta ''app'' ''team'')\<lparr>Labels := [LabelEnabled \<mapsto> ''true'']\<rparr>\<rparr>;
       q = \<lparr>podMeta = (newMeta ''app'' ''team'')\<lparr>Labels := [LabelEnabled \<mapsto> ''true'', LabelComponent \<mapsto> ''x'']\<rparr>\<rparr> in
   cachedPod p \<and> cachedPod q \<and> enqueuedNamespace (PodUpdated p q) = None
   \<and> needsClientRoleBinding ''team'' [p] \<and> \<not> needsClientRoleBinding ''team'' [q]"
  by (simp add: Let_def cachedPod_def needsClientRoleBinding_def excludedNamespace_def newMeta_def LabelEnabled_def LabelComponent_def)

section \<open>A simulated cluster\<close>

record rbacSim =
  simBinding :: "RoleBinding option"
  simPods :: "Pod list"

definition simRbacClient :: "rbacSim rbacClient" where
  "simRbacClient = \<lparr>
     listLabelledPods = (\<lambda>_. readSim (\<lambda>w. Inr (filter cachedPod (simPods w)))),
     getRoleBinding = (\<lambda>_. readSim (\<lambda>w. case simBinding w of None \<Rightarrow> Inl NotFound | Some b \<Rightarrow> Inr b)),
     deleteRoleBinding = (\<lambda>_ _. writeSim (\<lambda>w. w\<lparr>simBinding := None\<rparr>) (Inr ())),
     roleBindingJSON = (\<lambda>b. if b = desiredClientRoleBinding ''team'' then Inr JNull else Inl ''unknown''),
     rbApply = \<lparr>
       ServerResources = (\<lambda>_. ret (Inr [])),
       listWireguards = ret (Inr []),
       applyObject = (\<lambda>_. writeSim (\<lambda>w. w\<lparr>simBinding := Some (desiredClientRoleBinding ''team'')\<rparr>) (Inr ())),
       deleteObject = (\<lambda>_ _ _. ret (Inr ())),
       conv = \<lparr>containerJSON = (\<lambda>_. Inl []), volumesJSON = (\<lambda>_. Inl []), matchJSON = (\<lambda>_. Inl [])\<rparr>\<rparr>\<rparr>"

lemma simRbacClient_laws: "bindingLaws simBinding (\<lambda>w. filter cachedPod (simPods w)) simRbacClient ''team''"
  unfolding bindingLaws_def simRbacClient_def
  by (auto simp: triple_def applyForced_def list_all_iff split: option.splits if_splits)

definition labelledPod :: Pod where
  "labelledPod = \<lparr>podMeta = (newMeta ''app'' ''team'')\<lparr>Labels := [LabelEnabled \<mapsto> ''true'']\<rparr>\<rparr>"

definition foreignBinding :: RoleBinding where
  "foreignBinding = (desiredClientRoleBinding ''team'')\<lparr>rbMeta := newMeta ClientRoleName ''team''\<rparr>"


end
