(* ===== verification/Manager.thy ===== *)
theory Manager
  imports Rbac Flags
begin

text \<open>
  The operator's process, \<open>src/cmd/manager/main.go\<close>: its flags, the checks that precede the start and the
  order in which the controllers are registered. The flags that the imported packages define,
  \<^verbatim>\<open>NewManager\<close>, the registrations, the discovery client and \<^verbatim>\<open>Start\<close> are parameters; the exit status
  is the result.
\<close>

definition operatorNamespace :: "(string \<rightharpoonup> string) \<Rightarrow> string + string" where
  "operatorNamespace env =
     (let ns = (case env ''POD_NAMESPACE'' of None \<Rightarrow> '''' | Some v \<Rightarrow> v) in
      if ns = '''' then Inl ''POD_NAMESPACE is required: the operator selects the default gateway from its own namespace''
      else Inr ns)"

record managerFlags =
  mfMetricsAddr :: string
  mfProbeAddr :: string
  mfAgentImage :: string
  mfLeaderElect :: bool
  mfPullPolicy :: string
  mfLeaderElectionNamespace :: string

definition managerFlagDefs :: "(string \<times> flagKind) list" where
  "managerFlagDefs = [(''metrics-bind-address'', StringFlag), (''health-probe-bind-address'', StringFlag), (''agent-image'', StringFlag),
     (''leader-elect'', BoolFlag), (''agent-image-pull-policy'', StringFlag), (''leader-election-namespace'', StringFlag)]"

definition parseManager :: "(string \<times> flagKind) list \<Rightarrow> string list \<Rightarrow> flagError + managerFlags" where
  "parseManager extra args = (case parseFlags (managerFlagDefs @ extra) args [] of
     Inl e \<Rightarrow> Inl e
   | Inr got \<Rightarrow> Inr \<lparr>
       mfMetricsAddr = stringFlag got ''metrics-bind-address'' '':8080'',
       mfProbeAddr = stringFlag got ''health-probe-bind-address'' '':8081'',
       mfAgentImage = stringFlag got ''agent-image'' [],
       mfLeaderElect = boolFlag got ''leader-elect'' False,
       mfPullPolicy = stringFlag got ''agent-image-pull-policy'' ''IfNotPresent'',
       mfLeaderElectionNamespace = stringFlag got ''leader-election-namespace'' []\<rparr>)"

record managerOptions =
  moMetricsAddr :: string
  moCachedPod :: "Pod \<Rightarrow> bool"
  moCachedRoleBinding :: "RoleBinding \<Rightarrow> bool"
  moProbeAddr :: string
  moLeaderElection :: bool
  moLeaderElectionID :: string
  moLeaderElectionNamespace :: string

record 'w managerEnv =
  NewManager :: "managerOptions \<Rightarrow> ('w, string, unit) io"
  setupWireguard :: "string \<Rightarrow> string \<Rightarrow> ('w, string, unit) io"
  setupRoleBinding :: "('w, string, unit) io"
  NewDiscoveryClient :: "('w, string, unit) io"
  setupInjection :: "string \<Rightarrow> string \<Rightarrow> ('w, string, unit) io"
  AddHealthzCheck :: "('w, string, unit) io"
  AddReadyzCheck :: "('w, string, unit) io"
  StartManager :: "('w, string, unit) io"

definition managerOptionsOf :: "managerFlags \<Rightarrow> string \<Rightarrow> managerOptions" where
  "managerOptionsOf fl podNamespace = \<lparr>
     moMetricsAddr = mfMetricsAddr fl,
     moCachedPod = cachedPod,
     moCachedRoleBinding = cachedRoleBinding,
     moProbeAddr = mfProbeAddr fl,
     moLeaderElection = mfLeaderElect fl,
     moLeaderElectionID = ''a6d3bffc.tunnel-operator.io'',
     moLeaderElectionNamespace = (if mfLeaderElectionNamespace fl \<noteq> '''' then mfLeaderElectionNamespace fl else podNamespace)\<rparr>"

text \<open>\<^verbatim>\<open>main\<close> after its flags: the error that is logged before \<^verbatim>\<open>os.Exit(1)\<close>, or the return of a manager that was stopped.\<close>

definition managerMain :: "'w managerEnv \<Rightarrow> managerFlags \<Rightarrow> (string \<rightharpoonup> string) \<Rightarrow> ('w, string, unit) io" where
  "managerMain e fl env =
     (case operatorNamespace env of
        Inl err \<Rightarrow> ret (Inl err)
      | Inr podNamespace \<Rightarrow>
        bindE (NewManager e (managerOptionsOf fl podNamespace)) (\<lambda>_.
          if mfAgentImage fl = '''' then ret (Inl ''--agent-image flag is not set'')
          else
            bindE (setupWireguard e (mfAgentImage fl) (mfPullPolicy fl)) (\<lambda>_.
            bindE (setupRoleBinding e) (\<lambda>_.
            bindE (NewDiscoveryClient e) (\<lambda>_.
            bindE (setupInjection e (mfAgentImage fl) podNamespace) (\<lambda>_.
            bindE (AddHealthzCheck e) (\<lambda>_.
            bindE (AddReadyzCheck e) (\<lambda>_.
            StartManager e))))))))"

text \<open>The process, by its arguments and environment: its exit status.\<close>

definition managerProcess :: "'w managerEnv \<Rightarrow> (string \<times> flagKind) list \<Rightarrow> string list \<Rightarrow> (string \<rightharpoonup> string) \<Rightarrow> ('w, int) state" where
  "managerProcess e extra args env = (case parseManager extra args of
     Inl ErrHelp \<Rightarrow> ret 0
   | Inl (FlagError _) \<Rightarrow> ret 2
   | Inr fl \<Rightarrow> do { r \<leftarrow> managerMain e fl env; ret (if isl r then 1 else 0) })"

section \<open>Nothing starts half configured\<close>

text \<open>
  Without the namespace, which decides whose default gateway is honoured, or without the image of the
  injected sidecar, no controller is registered and nothing is started: what \<^verbatim>\<open>NewManager\<close> keeps is kept,
  and the process exits with an error.
\<close>

theorem managerMain_misconfigured:
  assumes "\<And>opts. maintains I (NewManager e opts)" and "isl (operatorNamespace env) \<or> mfAgentImage fl = ''''"
  shows "triple I (managerMain e fl env) (\<lambda>x w. I w \<and> isl x)"
proof (cases "operatorNamespace env")
  case (Inr ns)
  then have "mfAgentImage fl = ''''" using assms(2) by simp
  then show ?thesis
    unfolding managerMain_def Inr sum.case
    by (auto intro!: triple_bindE [OF assms(1) [unfolded maintains_def]] triple_ret)
qed (auto simp: managerMain_def intro!: triple_ret)

text \<open>A process that serves honours the defaults of a namespace that has a name.\<close>

lemma managerMain_namespace:
  assumes "run_state (managerMain e fl env) w = (Inr (), w')"
  obtains ns where "operatorNamespace env = Inr ns" and "ns \<noteq> ''''" and "mfAgentImage fl \<noteq> ''''"
    and "moLeaderElectionNamespace (managerOptionsOf fl ns) \<noteq> ''''"
proof (cases "operatorNamespace env")
  case (Inl err)
  then show ?thesis using assms by (simp add: managerMain_def)
next
  case (Inr ns)
  then have "ns \<noteq> ''''" by (auto simp: operatorNamespace_def Let_def split: if_splits)
  moreover have "mfAgentImage fl \<noteq> ''''"
    using assms Inr by (auto simp: managerMain_def split: sum.splits prod.splits if_splits)
  ultimately show ?thesis using that Inr by (simp add: managerOptionsOf_def)
qed

text \<open>Without arguments the image is missing, so nothing starts.\<close>

lemma managerProcess_no_arguments:
  assumes "\<And>opts. maintains I (NewManager e opts)"
  shows "triple I (managerProcess e extra [] env) (\<lambda>status w. I w \<and> status = 1)"
proof -
  obtain fl where fl: "parseManager extra [] = Inr fl" "mfAgentImage fl = []"
    by (simp add: parseManager_def stringFlag_def)
  have "triple I (managerMain e fl env) (\<lambda>x w. I w \<and> isl x)"
    by (rule managerMain_misconfigured [OF assms]) (simp add: fl)
  then show ?thesis
    unfolding managerProcess_def fl(1) sum.case by (rule triple_bind) (auto intro!: triple_ret)
qed

end
