(* ===== verification/Spec2Isabelle.thy ===== *)
theory Spec2Isabelle
  imports Discipline Client Manager
begin

text \<open>
  Verification of the tunnel operator, a Kubernetes operator that sends the internet traffic of pods through a
  VPN provider.

  \<^bold>\<open>The program.\<close> A \<open>Wireguard\<close> object describes a gateway: a Deployment with a gluetun container, which holds the
  tunnel to the provider, and an agent container, which serves WireGuard peers on \<open>wg0\<close>. A \<open>WireguardPeer\<close>
  object describes a client of one gateway. There are four parts. The \<^emph>\<open>operator\<close> admits peers, gives
  them addresses, renders the gateway's Secret, Service and Deployment, publishes endpoint and key in the
  peers' statuses, and keeps the admission policy and the RoleBinding that inject the client into labelled
  pods. The \<^emph>\<open>gateway agent\<close> reads the state the operator rendered and brings the WireGuard device,
  policy routing and iptables to it. The \<^emph>\<open>client sidecar\<close> registers its pod as a peer and
  routes the pod through the tunnel the operator published. The \<^emph>\<open>admission policies\<close>, CEL programs that the
  API server runs, put the sidecar into pods and reject labelled pods without it.

  \<^bold>\<open>How code is modelled.\<close> A Go function that returns a value and an error is a function into a sum type, the error
  first. Code with effects is a program of the state monad over an arbitrary world, \<open>('w, 'e, 'a) io\<close>; every
  call that leaves the repository (the Kubernetes client, netlink, wgctrl, iptables, files, clocks,
  HTTP, key and JSON codecs) is a field of a record that the program takes as a parameter. What is relied on
  of those calls is a named predicate (\<open>genLaw\<close>, \<open>echoes\<close>, \<open>deviceLaws\<close>, \<open>iptLaws\<close>, \<open>tableLaws\<close>, \<open>podLaws\<close>,
  \<open>storeLaws\<close>, \<open>bindingLaws\<close> and others), stated with Hoare triples over a view of the world; no law about the API
  server or the kernel says that a call succeeds. A property with such a hypothesis has a witness over a simulated world that
  satisfies it. Safety against any environment is stated with \<open>maintains I m\<close>: if the calls a program may
  make keep \<open>I\<close>, the program keeps it, so the calls without such a hypothesis are never made. The Go
  library (\<open>net/netip\<close>, \<open>net\<close>, \<open>strings\<close>, \<open>strconv\<close>, \<open>flag\<close>, \<open>path/filepath\<close>) is modelled, not assumed.

  \<^bold>\<open>Theories.\<close>
  \<^item> \<open>Prelude\<close>: the monad, its triples and the collection \<open>triple_rules\<close>; strings as the Go library treats them.
  \<^item> \<open>Netip\<close>: addresses and prefixes as 32- and 128-bit words, with parser and printer and their round trips.
  \<^item> \<open>Api\<close>: the custom resources (\<open>src/api/v1alpha1\<close>) and the Kubernetes types around them.
  \<^item> \<open>Ipam\<close>: \<open>src/internal/ipam/allocator.go\<close>.
  \<^item> \<open>Peers\<close>: \<open>src/internal/controller/peers.go\<close>: admission, deduplication, the rendered state. The locale
    \<open>dedupe\<close> is the contract of the two deduplications and is interpreted on both (\<open>addr\<close>, \<open>pkey\<close>); the locale
    \<open>allocator\<close> and its extension \<open>pool_allocator\<close> are what the reconciler needs of the allocator,
    interpreted on the model of \<^verbatim>\<open>AllocateIP\<close> (\<open>ipam\<close>, \<open>pool\<close>).
  \<^item> \<open>Resources\<close>: \<open>src/internal/resources\<close>: the rendered objects and the shared constants.
  \<^item> \<open>Gateway\<close>: \<open>src/internal/controller/gateway.go\<close> and \<^verbatim>\<open>specProblem\<close>: which specs are accepted.
  \<^item> \<open>Reconcile\<close>, \<open>Simulation\<close>, \<open>Discipline\<close>: \<open>src/internal/controller/wireguard_controller.go\<close> and \<open>apply.go\<close>; a
    simulated API server; what a reconcile writes, and what it never writes.
  \<^item> \<open>Kernel\<close>, \<open>NetSim\<close>: netlink, wgctrl and the host as parameters, and a simulated network namespace.
  \<^item> \<open>WgSync\<close>: \<open>src/internal/wireguard/wireguard.go\<close>: link, address, route and peers of the gateway.
  \<^item> \<open>Datapath\<close>: \<open>src/internal/datapath\<close>: rules, routes, iptables and the readiness probe of the peer path.
  \<^item> \<open>Flags\<close>: the package \<open>flag\<close> and the command lines of \<open>src/cmd/agent/main.go\<close>.
  \<^item> \<open>Agent\<close>: \<open>src/internal/agent\<close> and \<open>src/cmd/agent/main.go\<close>: the process as a step relation in which file
    events, ticks, probes and other programs interleave.
  \<^item> \<open>Registration\<close>, \<open>Tunnel\<close>, \<open>Client\<close>: \<open>src/internal/sidecar\<close>: configuration, key and peer; device, routes
    and startup check; the pass, the watch as a step relation, and the loop.
  \<^item> \<open>Injection\<close>: \<open>src/internal/controller/injection.go\<close> and \<open>src/config/admission\<close>: the default gateway, the
    policy and its reconciler, and what the policies do to a pod.
  \<^item> \<open>Rbac\<close>: \<open>src/internal/controller/injection_rbac.go\<close>: the RoleBinding of the injected sidecars.
  \<^item> \<open>Manager\<close>: \<open>src/cmd/manager/main.go\<close>: flags, checks and the order of the start.
  \<^item> This theory: the properties in which one program relies on another.

  \<^bold>\<open>What is shown.\<close> Of the operator: the peers it admits have distinct canonical keys and distinct usable addresses; a
  key in use is never taken over; the allocator fails only on a full range; accepted specs are exactly the
  renderable ones; a refused spec changes nothing but a status; a gateway is not ready before its rollout; the
  policy and the RoleBinding follow the default gateway and the injected pods and touch nobody else's
  objects. Of the gateway: a synchronisation converges to the state, in any map order; an assertion leaves
  peer traffic in the tunnel or dropped, and the FORWARD policy at DROP even when routing failed; an answered
  readiness probe means both, after any interleaving. Of the sidecar: it touches only its own
  registration; a pass without an error leaves no default route outside the tunnel; a restart finds the pod's
  gateway again; an established session is not disturbed; every change of the peer is read. Of the
  whole: the state the operator renders is valid for the agent and becomes exactly the device's peers; the
  published status gives the sidecar a tunnel; an injected pod registers with the default gateway; the
  rendered command lines mean what they were rendered for.

  \<^bold>\<open>Bounds and fuel.\<close> Two loops have fuel. \<^verbatim>\<open>waitLoop\<close> takes one unit per 100 ms turn, and \<^verbatim>\<open>waitForLink\<close> gives it enough
  for its timeout: \<open>waitForLink_returns\<close> shows that it never runs out when sleeping advances the clock. The
  sidecar's \<^verbatim>\<open>loop\<close> runs until its context is done; \<open>loop_stops\<close> shows that fuel for the events before that
  is enough. Everything else is total. Words have the width of the code: addresses are 32 or 128 bits,
  ports 16, and an int flag is checked against 64.

  \<^bold>\<open>Not modelled.\<close> Log lines, the banner of the agent, the listener of its HTTP server and the signal handling
  are I/O without a result. The flags that imported packages define are a parameter. The generated
  deep copies (\<open>zz_generated.deepcopy.go\<close>) are the identity on immutable
  values. Scheme registration (\<open>groupversion_info.go\<close>, \<^verbatim>\<open>init\<close> of the manager) and the work queues behind the
  three \<^verbatim>\<open>SetupWithManager\<close> belong to controller-runtime; the event filters and mappings given to them are
  modelled. The stubs \<open>*_other.go\<close> are built only for systems the programs do not run on. The evaluation of
  CEL is modelled for the expressions of the two policies, by hand, not as a language. A mutex makes what it
  guards one step.
\<close>

section \<open>From the operator to the gateway's device\<close>

lemma string4_usable:
  assumes "validatePeerCIDR cidr = None" and "addressUsable a cidr"
  shows "\<exists>w. a = string4 w"
proof -
  obtain v n where "n \<le> 30" "cidr = cidr4 v n" using validatePeerCIDR_None [OF assms(1)] by metis
  then show ?thesis using assms(2) by (auto simp: addressUsable_cidr4)
qed

lemma renderPeer_ids [simp]: "publicKey (renderPeer p) = publicKey p" "address (renderPeer p) = address p"
  by (simp_all add: renderPeer_def)

lemma set_Peers_desiredState: "mset (Peers (desiredState wg priv ps)) = mset (map renderPeer ps)"
  by (simp add: desiredState_def Let_def)

lemma wellState_desiredState:
  assumes K: "keyLaws K" and cidr: "validatePeerCIDR cidr = None"
    and ps: "distinct (map publicKey ps)" "distinct (map address ps)" "\<forall>p \<in> set ps. canonicalKey K (publicKey p) \<and> addressUsable (address p) cidr"
  shows "wellState K (desiredState wg priv ps)"
proof -
  have m: "mset (map f (Peers (desiredState wg priv ps))) = mset (map (f \<circ> renderPeer) ps)" for f :: "WireguardPeer \<Rightarrow> string"
    using set_Peers_desiredState [of wg priv ps] by (metis image_mset.compositionality mset_map)
  have "distinct (map publicKey (Peers (desiredState wg priv ps)))" "distinct (map address (Peers (desiredState wg priv ps)))"
    using ps(1,2) mset_eq_imp_distinct_iff [OF m [of publicKey]] mset_eq_imp_distinct_iff [OF m [of address]] by (simp_all add: comp_def)
  moreover have "set (Peers (desiredState wg priv ps)) = renderPeer ` set ps"
    using mset_eq_setD [OF set_Peers_desiredState] by simp
  moreover have "publicKey p \<noteq> []" if p: "p \<in> set ps" for p
  proof -
    obtain k where "KeyString K k = publicKey p" using ps(3) p by (auto simp: canonicalKey_def)
    then have "length (publicKey p) = 44" using K by (metis keyLaws_def)
    then show ?thesis by auto
  qed
  ultimately show ?thesis using ps(3) string4_usable [OF cidr] by (auto simp: wellState_def)
qed

lemma stateView_desiredState:
  assumes "wellState K (desiredState wg priv ps)"
  shows "stateView K (desiredState wg priv ps) k =
    map_option (\<lambda>p. {peerNet p}) (List.find (\<lambda>p. publicKey p = KeyString K k) ps)"
proof -
  let ?qs = "Peers (desiredState wg priv ps)"
  have set: "set ?qs = renderPeer ` set ps" using mset_eq_setD [OF set_Peers_desiredState] by simp
  have d: "distinct (map fst (map (\<lambda>p. (publicKey p, p)) ?qs))" using assms by (simp add: wellState_def comp_def)
  have net: "peerNet (renderPeer p) = peerNet p" for p by (simp add: peerNet_def)
  show ?thesis
  proof (cases "List.find (\<lambda>p. publicKey p = KeyString K k) ps")
    case None
    then have "map_of (map (\<lambda>p. (publicKey p, p)) ?qs) (KeyString K k) = None"
      by (auto simp: find_None_iff map_of_eq_None_iff set)
    then show ?thesis using None by (simp add: stateView_def)
  next
    case (Some p)
    then have p: "p \<in> set ps" "publicKey p = KeyString K k" by (auto simp: find_Some_iff)
    then have "map_of (map (\<lambda>p. (publicKey p, p)) ?qs) (KeyString K k) = Some (renderPeer p)"
      using d set by (intro map_of_is_SomeI) (auto simp: image_image intro!: rev_image_eqI [of p])
    then show ?thesis using Some by (simp add: stateView_def net)
  qed
qed

text \<open>
  C4. What the operator admits is what the gateway's agent accepts and its device serves. The state rendered
  from the peers of a pass, with a private key of the right length, passes the agent's validation and
  meets the assumptions of its synchronisation; the table of peers that the agent brings the device to is
  the admitted peers, each under its own key with its address as the only allowed one, and no address is
  allowed for two of them.
\<close>

theorem admitted_peers_served:
  assumes "echoes r" and "genLaw (ipGenerator r)" and "keyLaws (keys r)" and "validatePeerCIDR (effectivePeerCIDR4 wg) = None"
    and "run_state (reconcilePeers r req wg) w = (Inr admitted, w')" and "length priv = 44"
  shows "IsStateValid (desiredState wg priv admitted) = None \<and> wellState (keys r) (desiredState wg priv admitted)
    \<and> disjointView (stateView (keys r) (desiredState wg priv admitted))
    \<and> (\<forall>k. stateView (keys r) (desiredState wg priv admitted) k =
         map_option (\<lambda>p. {peerNet p}) (List.find (\<lambda>p. publicKey p = KeyString (keys r) k) admitted))"
proof -
  let ?st = "desiredState wg priv admitted"
  have serv: "distinct (map publicKey admitted)" "distinct (map address admitted)" "\<forall>p \<in> set admitted. servable (keys r) req wg p"
    using reconcilePeers_servable [OF assms(1,2,4,5)] by simp_all
  have well: "wellState (keys r) ?st"
    by (rule wellState_desiredState [OF assms(3,4) serv(1,2)]) (use serv(3) in \<open>simp add: servable_def\<close>)
  have "\<forall>p \<in> set (Peers ?st). address p \<noteq> []"
    using mset_eq_setD [OF set_Peers_desiredState [of wg priv admitted]] serv(3)
    by (auto simp: servable_def dest: addressUsable_nonempty)
  then have "IsStateValid ?st = None"
    using well assms(6) by (auto simp: IsStateValid_iff wellState_def) (simp add: desiredState_def Let_def)
  then show ?thesis
    using well stateView_desiredState [OF well] stateView_disjoint [OF assms(3) well] by blast
qed

theorem admitted_peers_served_witness:
  "\<exists>admitted w'. run_state (reconcilePeers simReconciler simRequest exampleWireguard) simInitial = (Inr admitted, w')
    \<and> map peerName admitted = [''a'', ''d'']
    \<and> IsStateValid (desiredState exampleWireguard (KeyString byteKeys 7) admitted) = None
    \<and> disjointView (stateView byteKeys (desiredState exampleWireguard (KeyString byteKeys 7) admitted))"
proof -
  let ?run = "run_state (reconcilePeers simReconciler simRequest exampleWireguard) simInitial"
  obtain out w' where run: "?run = (Inr out, w')" and names: "map peerName out = [''a'', ''d'']"
    by (rule sim_admitted)
  have cidr: "validatePeerCIDR (effectivePeerCIDR4 exampleWireguard) = None" by code_simp
  have keys: "keys simReconciler = byteKeys" by (simp add: simReconciler_def)
  have K: "keyLaws (keys simReconciler)" using keyLaws_byteKeys by (simp add: keys)
  have len: "length (KeyString byteKeys 7) = 44" using keyLaws_byteKeys by (simp add: keyLaws_def)
  show ?thesis
    using admitted_peers_served [OF echoes_sim sim_laws(3) K cidr run len] run names by (simp add: keys)
qed

section \<open>From the operator to the sidecar\<close>

text \<open>
  What the kubelet documents of a container's environment: a variable with a field reference has the pod's
  value of that field.
\<close>

definition fieldEnv :: "(string \<Rightarrow> string) \<Rightarrow> Container \<Rightarrow> (string \<Rightarrow> string) \<Rightarrow> bool" where
  "fieldEnv pod c getenv \<longleftrightarrow> list_all (\<lambda>e. case ev_ValueFrom e of Some (FieldRef f) \<Rightarrow> getenv (ev_Name e) = pod f | _ \<Rightarrow> True) (ctEnv c)"

text \<open>What the API server and the kubelet fill in for a pod with a network namespace of its own.\<close>

definition podFields :: "(string \<Rightarrow> string) \<Rightarrow> bool" where
  "podFields f \<longleftrightarrow> f ''metadata.name'' \<noteq> [] \<and> f ''metadata.namespace'' \<noteq> [] \<and> f ''metadata.uid'' \<noteq> []
     \<and> f ''status.podIP'' \<noteq> [] \<and> f ''status.hostIP'' \<noteq> [] \<and> f ''status.podIP'' \<noteq> f ''status.hostIP''"

text \<open>A name or a namespace of an object: not empty and without a slash.\<close>

definition objectName :: "string \<Rightarrow> bool" where
  "objectName s \<longleftrightarrow> s \<noteq> [] \<and> CHR ''/'' \<notin> set s"

lemma parseWireguard_nnString:
  assumes "objectName (nnNamespace g)" and "objectName (nnName g)"
  shows "parseWireguard (nnString g) = Inr (nnName g, nnNamespace g)"
proof -
  have "Cut CHR ''/'' (nnString g) = Some (nnNamespace g, nnName g)"
    using assms(1) by (simp add: Cut_Some nnString_def objectName_def)
  then show ?thesis using assms by (simp add: parseWireguard_def objectName_def)
qed

lemma defaultGateway_in:
  assumes "defaultGateway wgs ns = Inr g"
  shows "\<exists>wg \<in> set wgs. g = NamespacedName ns (wgName wg)"
proof -
  have "\<exists>wg. filter (\<lambda>wg. isAnnotatedDefault wg \<and> wgNamespace wg = ns) wgs = [wg] \<and> g = NamespacedName ns (wgName wg)"
    using assms by (auto simp: defaultGateway_def Let_def split: list.splits)
  then show ?thesis by (metis filter_is_subset list.set_intros(1) subsetD)
qed



lemma parseLocalCIDRs_canonical:
  assumes "\<forall>c \<in> set cs. canonicalNet c \<and> \<not> inCIDR c probeAddr"
  shows "\<exists>ps. parseLocalCIDRs name cs = Inr ps \<and> list_all local4 ps \<and> (\<forall>a. list_ex (\<lambda>p. Contains p a) ps \<longleftrightarrow> list_ex (\<lambda>c. inCIDR c a) cs)"
  using assms
proof (induction cs)
  case (Cons c cs)
  then obtain ps where ps: "parseLocalCIDRs name cs = Inr ps" "list_all local4 ps"
      "\<forall>a. list_ex (\<lambda>p. Contains p a) ps \<longleftrightarrow> list_ex (\<lambda>c. inCIDR c a) cs" by auto
  obtain v n where vn: "n \<le> 32" "c = cidr4 v n" "net4 v n = v" using Cons.prems by (auto simp: canonicalNet_def)
  have "n \<noteq> 0" using Cons.prems default_route_holds_probe vn by (intro notI) simp
  then have "parseLocalCIDRs name (c # cs) = Inr (Prefix (Addr4 v) (int n) # ps)" "local4 (Prefix (Addr4 v) (int n))"
    using vn ps(1) by (simp_all add: local4_def)
  moreover have "inCIDR c a = Contains (Prefix (Addr4 v) (int n)) a" for a using vn by (simp add: inCIDR_def)
  ultimately show ?case using ps(2,3) by simp
qed simp

lemma addressUsable_inCIDR:
  assumes "validatePeerCIDR cidr = None" and "addressUsable a cidr"
  obtains v where "a = string4 v" and "inCIDR cidr (Addr4 v)"
proof -
  obtain w n where wn: "n \<le> 30" "cidr = cidr4 w n" using validatePeerCIDR_None [OF assms(1)] by metis
  then obtain k where "k < 2 ^ (32 - n)" "a = string4 (net4 w n + of_nat k)" using assms(2) by (auto simp: addressUsable_cidr4)
  then show ?thesis using that wn Contains_net4_plus [of n k w] by (simp add: inCIDR_def)
qed




section \<open>From the rendered command lines to the programs\<close>

lemma parseClient_gateway: "parseClient [''--wireguard'', gateway] = Some (gateway, False)"
  by (simp add: parseClient_def clientFlagDefs_def parseOne_def flagWordOf_def flagNameValue_def setOne_def SetFlag_def stringFlag_def boolFlag_def)

lemma parseClient_check: "parseClient [''--check''] = Some ([], True)"
  by (simp add: parseClient_def clientFlagDefs_def parseOne_def flagWordOf_def flagNameValue_def setOne_def SetFlag_def ParseBool_def stringFlag_def boolFlag_def)

lemma ParseInt0_port: "ParseInt0 (fmtInt WireguardPort) = Inr WireguardPort"
  using ParseInt0_Itoa [of 51820] fmtInt_nat [of 51820] by (simp add: WireguardPort_def)

lemma ParseInt0_11: "ParseInt0 ''11'' = Inr 11"
  by code_simp

lemma agentMain_container:
  "agentMain extra (tl (ctCommand (agentContainer b wg readOnlyRoot allowEscalation))) = RunAgent \<lparr>
     afState = ''/tmp/wireguard/state.json'', afIface = WgInterface, afFallback = UserspaceImplementation,
     afListenPort = WireguardPort, afVerbosity = 11\<rparr>"
  by (simp add: agentContainer_def agentMain_def agentFlagDefs_def parseOne_def flagWordOf_def flagNameValue_def setOne_def
      SetFlag_def ParseInt0_port ParseInt0_11 stringFlag_def intFlag_def)

text \<open>
  C37. The programs understand the command lines that the operator renders. The command of the gateway's agent
  container parses, whatever further flags the imported packages define, to the interface and port that
  the rest of the operator uses, the port being the Service's target, and to a state file in the directory
  where the state's Secret is mounted; the arguments of an injected sidecar start the client for the
  gateway it was rendered for, and the command of its startup probe runs the check.
\<close>

theorem rendered_commands_parse:
  "(\<exists>fl. agentMain extra (tl (ctCommand (agentContainer b wg readOnlyRoot allowEscalation))) = RunAgent fl
      \<and> agentOf fl = \<lparr>wgIface = WgInterface, wgListenPort = WireguardPort, wgFallback = UserspaceImplementation\<rparr>
      \<and> (case ServiceForWireguard own wg of Inl _ \<Rightarrow> True | Inr svc \<Rightarrow> map spTargetPort (svcPorts svc) = [wgListenPort (agentOf fl)])
      \<and> (\<exists>m \<in> set (ctVolumeMounts (agentContainer b wg readOnlyRoot allowEscalation)).
           vmName m = ''config'' \<and> CleanPath (vmMountPath m) = Dir (afState fl)))
   \<and> (case injectedSidecar img gateway of (c, _) \<Rightarrow>
        (\<exists>rest. agentMain extra (ctArgs c) = RunClient rest \<and> parseClient rest = Some (gateway, False))
        \<and> (\<exists>p cmd rest. ctStartupProbe c = Some p \<and> prHandler p = Exec (''agent'' # cmd)
             \<and> agentMain extra cmd = RunClient rest \<and> parseClient rest = Some ([], True)))"
proof -
  have mount: "CleanPath ''/tmp/wireguard/'' = Dir ''/tmp/wireguard/state.json''" by code_simp
  have 1: "\<exists>fl. agentMain extra (tl (ctCommand (agentContainer b wg readOnlyRoot allowEscalation))) = RunAgent fl
      \<and> agentOf fl = \<lparr>wgIface = WgInterface, wgListenPort = WireguardPort, wgFallback = UserspaceImplementation\<rparr>
      \<and> (case ServiceForWireguard own wg of Inl _ \<Rightarrow> True | Inr svc \<Rightarrow> map spTargetPort (svcPorts svc) = [wgListenPort (agentOf fl)])
      \<and> (\<exists>m \<in> set (ctVolumeMounts (agentContainer b wg readOnlyRoot allowEscalation)).
           vmName m = ''config'' \<and> CleanPath (vmMountPath m) = Dir (afState fl))"
    unfolding agentMain_container
    by (rule exI, rule conjI [OF refl]) (auto simp: agentOf_def ServiceForWireguard_def Let_def agentContainer_def mount split: sum.split)
  show ?thesis
    using 1 parseClient_gateway [of gateway] parseClient_check
    by (simp add: injectedSidecar_def agentMain_def newProbe_def)
qed

end
